(* ===== verification/Prelude.thy ===== *)
theory Prelude
  imports Main "HOL-Library.Word"
begin

text \<open>
  Shared vocabulary of the development.  It holds the machine integer types, the values
  that stand for a C++ function that does not return normally, and the generic facts about
  lists, positional digits and event-driven machines on which the component theories rest.

  The build that is modelled is the one of docs/INSTALLATION.rst
  (\<^verbatim>\<open>-DCMAKE_BUILD_TYPE=Release\<close>): \<open>assert\<close> and \<open>DLOG\<close> are compiled out, \<open>CHECK\<close> is kept.
  A \<^verbatim>\<open>std::string\<close>, a \<^verbatim>\<open>std::string_view\<close> and a byte vector are lists of 8-bit characters.
\<close>

unbundle bit_operations_syntax

type_synonym u8 = "8 word"
type_synonym u16 = "16 word"
type_synonym u32 = "32 word"
type_synonym u64 = "64 word"

section \<open>Computations that may not return\<close>

text \<open>
  \<open>Undefined\<close>: the C++ standard leaves the behaviour undefined at this point (a read past
  the end, a division by zero, a null or dangling pointer).  \<open>Throws\<close>: an exception leaves
  the function.  \<open>Aborts\<close>: the process is terminated (a failed \<open>CHECK\<close>, or an exception
  that meets a \<open>noexcept\<close> boundary).
\<close>

datatype exn = Invalid_Argument | Out_Of_Range | Runtime_Error string

datatype fault = Undefined | Throws exn | Aborts

type_synonym 'a res = "fault + 'a"

definition res_bind :: "'a res \<Rightarrow> ('a \<Rightarrow> 'b res) \<Rightarrow> 'b res" where
  "res_bind m f = (case m of Inl e \<Rightarrow> Inl e | Inr x \<Rightarrow> f x)"

definition res_map :: "('a \<Rightarrow> 'b) \<Rightarrow> 'a res \<Rightarrow> 'b res" where
  "res_map f m = (case m of Inl e \<Rightarrow> Inl e | Inr x \<Rightarrow> Inr (f x))"

text \<open>An exception that reaches a \<open>noexcept\<close> function terminates the process.\<close>

definition at_noexcept :: "'a res \<Rightarrow> 'a res" where
  "at_noexcept m = (case m of Inl (Throws e) \<Rightarrow> Inl Aborts | _ \<Rightarrow> m)"

fun res_list :: "'a res list \<Rightarrow> 'a list res" where
  "res_list [] = Inr []"
| "res_list (m # ms) = res_bind m (\<lambda>x. res_map ((#) x) (res_list ms))"

named_theorems res_simps \<open>the operations on results as rewrite rules\<close>

lemma res_bind_simps [simp, res_simps]:
  "res_bind (Inl e) f = Inl e" "res_bind (Inr x) f = f x"
  by (simp_all add: res_bind_def)

lemma res_map_simps [simp, res_simps]:
  "res_map f (Inl e) = Inl e" "res_map f (Inr x) = Inr (f x)"
  by (simp_all add: res_map_def)

lemma at_noexcept_simps [simp, res_simps]:
  "at_noexcept (Inr x) = Inr x" "at_noexcept (Inl (Throws e)) = Inl Aborts"
  "at_noexcept (Inl Undefined) = Inl Undefined" "at_noexcept (Inl Aborts) = Inl Aborts"
  by (simp_all add: at_noexcept_def)

lemma res_bind_eq_Inr: "res_bind m f = Inr y \<longleftrightarrow> (\<exists>x. m = Inr x \<and> f x = Inr y)"
  by (cases m) auto

lemma res_map_eq_Inr: "res_map f m = Inr y \<longleftrightarrow> (\<exists>x. m = Inr x \<and> y = f x)"
  by (cases m) auto

lemma at_noexcept_eq_Inr [simp]: "at_noexcept m = Inr x \<longleftrightarrow> m = Inr x"
  by (auto simp: at_noexcept_def split: sum.splits fault.splits)

lemma res_list_map_Inr: "res_list (map Inr xs) = Inr xs"
  by (induction xs) auto

lemma res_list_all_Inr: "(\<And>x. x \<in> set xs \<Longrightarrow> f x = Inr (g x)) \<Longrightarrow> res_list (map f xs) = Inr (map g xs)"
  by (induction xs) auto

lemma u64_unat_less: "unat (w :: u64) < 2 ^ 64"
  using unsigned_less[of w] by simp

lemma list_ge_3:
  assumes "3 \<le> length xs" and "\<And>a b c ys. xs = a # b # c # ys \<Longrightarrow> thesis"
  shows thesis
proof (cases xs)
  case (Cons a as)
  with assms(1) obtain b bs where "as = b # bs" by (cases as) auto
  with assms(1) Cons obtain c cs where "bs = c # cs" by (cases bs) auto
  with \<open>as = b # bs\<close> Cons show ?thesis by (intro assms(2)) simp
qed (use assms(1) in simp)

section \<open>Positional digits, least significant first\<close>

function digits_of :: "nat \<Rightarrow> nat \<Rightarrow> nat list" where
  "digits_of b n = (if b \<le> 1 \<or> n = 0 then [] else n mod b # digits_of b (n div b))"
  by pat_completeness auto
termination by (relation "measure (\<lambda>(b, n). n)") auto

declare digits_of.simps [simp del]

lemma digits_of_0 [simp]: "digits_of b 0 = []"
  by (subst digits_of.simps) simp

lemma digits_of_pos: "2 \<le> b \<Longrightarrow> 0 < n \<Longrightarrow> digits_of b n = n mod b # digits_of b (n div b)"
  by (subst digits_of.simps) simp

lemma digits_of_eq_Nil_iff: "2 \<le> b \<Longrightarrow> digits_of b n = [] \<longleftrightarrow> n = 0"
  by (subst digits_of.simps) auto

lemma digits_of_less: "2 \<le> b \<Longrightarrow> d \<in> set (digits_of b n) \<Longrightarrow> d < b"
proof (induction b n rule: digits_of.induct)
  case (1 b n)
  show ?case
  proof (cases "n = 0")
    case False
    then show ?thesis
      using 1 by (auto simp: digits_of_pos)
  qed (use 1 in simp)
qed

lemma length_digits_of: "2 \<le> b \<Longrightarrow> n < b ^ k \<Longrightarrow> length (digits_of b n) \<le> k"
proof (induction k arbitrary: n)
  case 0
  then show ?case by simp
next
  case (Suc k)
  show ?case
  proof (cases "n = 0")
    case False
    have "n div b < b ^ k"
      using Suc.prems by (simp add: less_mult_imp_div_less mult.commute)
    then show ?thesis
      using Suc False by (simp add: digits_of_pos)
  qed simp
qed

lemma length_digits_of_ge: "2 \<le> b \<Longrightarrow> b ^ k \<le> n \<Longrightarrow> k < length (digits_of b n)"
proof (induction k arbitrary: n)
  case 0
  then show ?case by (simp add: digits_of_pos)
next
  case (Suc k)
  then have "0 < n"
    by (metis gr0I le_zero_eq not_numeral_le_zero power_not_zero)
  moreover have "b ^ k \<le> n div b"
    using Suc.prems by (simp add: less_eq_div_iff_mult_less_eq mult.commute)
  ultimately show ?case
    using Suc by (simp add: digits_of_pos)
qed


end
