(* ===== verification/Highway_Hash.thy ===== *)
theory Highway_Hash
  imports Prelude
begin

text \<open>
  The keyed hash that \<open>generate_slug\<close> and \<open>generate_shortened_url\<close> call: the state of
  \<^verbatim>\<open>third_party/highwayhash/highwayhash/hh_portable.h\<close>, the byte loaders of load3.h, and
  the template \<open>HighwayHashT\<close> of highwayhash.h.  The host is little-endian
  (the README names amd64 only), so \<open>host_from_le32\<close> and \<open>host_from_le64\<close> are the identity.
  Four 64-bit lanes are a list of length four.
\<close>

section \<open>Bytes and words\<close>

type_synonym bytes = "u8 list"
type_synonym lanes = "u64 list"

definition bytes_of_string :: "string \<Rightarrow> bytes" where
  "bytes_of_string s = map of_char s"

text \<open>A load of consecutive bytes into an integer, and a store of an integer to bytes.\<close>

fun le_word :: "bytes \<Rightarrow> 'a::len word" where
  "le_word [] = 0"
| "le_word (b # bs) = ucast b OR push_bit 8 (le_word bs)"

fun le_bytes :: "nat \<Rightarrow> 'a::len word \<Rightarrow> bytes" where
  "le_bytes 0 w = []"
| "le_bytes (Suc n) w = ucast w # le_bytes n (drop_bit 8 w)"

definition packet_lanes :: "bytes \<Rightarrow> lanes" where
  "packet_lanes p = map (\<lambda>lane. le_word (take 8 (drop (8 * lane) p))) [0, 1, 2, 3]"

definition overwrite :: "nat \<Rightarrow> bytes \<Rightarrow> bytes \<Rightarrow> bytes" where
  "overwrite off bs p = take off p @ bs @ drop (off + length bs) p"

section \<open>The portable state\<close>

record hh_state =
  v0 :: lanes
  v1 :: lanes
  mul0 :: lanes
  mul1 :: lanes

definition init0 :: lanes where
  "init0 = [0xdbe6d5d5fe4cce2f, 0xa4093822299f31d0, 0x13198a2e03707344, 0x243f6a8885a308d3]"

definition init1 :: lanes where
  "init1 = [0x3bd39e10cb0ef593, 0xc0acf169b5f18a8c, 0xbe5466cf34e90c6c, 0x452821e638d01377]"

definition Rotate64By32 :: "u64 \<Rightarrow> u64" where
  "Rotate64By32 x = (drop_bit 32 x) OR (push_bit 32 x)"

definition Reset :: "lanes \<Rightarrow> hh_state" where
  "Reset keys =
     (let rotated_keys = map Rotate64By32 keys
      in \<lparr>v0 = map2 (XOR) init0 keys, v1 = map2 (XOR) init1 rotated_keys,
          mul0 = init0, mul1 = init1\<rparr>)"

text \<open>The macro \<open>MASK(v, bytes)\<close> keeps one byte of a word in place.\<close>

definition MASK :: "u64 \<Rightarrow> nat \<Rightarrow> u64" where
  "MASK v k = v AND (push_bit (k * 8) 0xFF)"

text \<open>Returns the new values of \<open>*add1\<close> and \<open>*add0\<close>.\<close>

definition ZipperMergeAndAdd :: "u64 \<Rightarrow> u64 \<Rightarrow> u64 \<Rightarrow> u64 \<Rightarrow> u64 \<times> u64" where
  "ZipperMergeAndAdd a1 a0 add1 add0 =
     (add1 + (drop_bit 24 (MASK a1 3 + MASK a0 4) + MASK a1 2 + drop_bit 16 (MASK a1 5) +
              push_bit 24 (MASK a1 1) + drop_bit 8 (MASK a0 6) + push_bit 48 (MASK a1 0) +
              MASK a0 7),
      add0 + (drop_bit 24 (MASK a0 3 + MASK a1 4) + drop_bit 16 (MASK a0 5 + MASK a1 6) +
              MASK a0 2 + push_bit 32 (MASK a0 1) + drop_bit 8 (MASK a1 7) + push_bit 56 a0))"

text \<open>\<open>static_cast<uint32_t>(x)\<close>, used as a 64-bit operand.\<close>

definition low32 :: "u64 \<Rightarrow> u64" where
  "low32 x = ucast (ucast x :: u32)"

text \<open>
  \<open>Update(const Lanes&)\<close>: the two vector additions and the loop over the lanes.  The four
  calls of \<open>ZipperMergeAndAdd\<close> follow in \<open>zipper_lanes\<close>, two for each half of the state.
\<close>

definition lane_loop :: "hh_state \<Rightarrow> hh_state" where
  "lane_loop s =
     (let mul0' = map2 (XOR) (mul0 s) (map2 (*) (map low32 (v1 s)) (map (drop_bit 32) (v0 s)));
          v0' = map2 (+) (v0 s) (mul1 s);
          mul1' = map2 (XOR) (mul1 s) (map2 (*) (map low32 v0') (map (drop_bit 32) (v1 s)))
      in s\<lparr>mul0 := mul0', v0 := v0', mul1 := mul1'\<rparr>)"

definition zipper_lanes :: "lanes \<Rightarrow> lanes \<Rightarrow> lanes" where
  "zipper_lanes from dest =
     (let (d1, d0) = ZipperMergeAndAdd (from ! 1) (from ! 0) (dest ! 1) (dest ! 0);
          (d3, d2) = ZipperMergeAndAdd (from ! 3) (from ! 2) (dest ! 3) (dest ! 2)
      in [d0, d1, d2, d3])"

definition Update_lanes :: "hh_state \<Rightarrow> lanes \<Rightarrow> hh_state" where
  "Update_lanes s packet =
     (let s1 = s\<lparr>v1 := map2 (+) (v1 s) packet\<rparr>;
          s2 = s1\<lparr>v1 := map2 (+) (v1 s1) (mul0 s1)\<rparr>;
          s3 = lane_loop s2;
          s4 = s3\<lparr>v0 := zipper_lanes (v1 s3) (v0 s3)\<rparr>
      in s4\<lparr>v1 := zipper_lanes (v0 s4) (v1 s4)\<rparr>)"

definition Update :: "hh_state \<Rightarrow> bytes \<Rightarrow> hh_state" where
  "Update s packet = Update_lanes s (packet_lanes packet)"

text \<open>
  \<open>Rotate32By\<close> rotates each 32-bit half of every lane left by \<open>count\<close>; it is called with
  counts from 1 to 31 only, so the right shift by \<open>32 - count\<close> is defined.
\<close>

definition rot32 :: "nat \<Rightarrow> u32 \<Rightarrow> u32" where
  "rot32 count x = (push_bit count x) OR (drop_bit (32 - count) x)"

definition Rotate32By :: "nat \<Rightarrow> lanes \<Rightarrow> lanes" where
  "Rotate32By count =
     map (\<lambda>x. ucast (rot32 count (ucast x)) OR push_bit 32 (ucast (rot32 count (ucast (drop_bit 32 x)))))"

text \<open>\<open>Load3\<close>: the last four bytes read before the end of the remainder, or up to three bytes.\<close>

definition Load3_read_before :: "bytes \<Rightarrow> nat \<Rightarrow> u32" where
  "Load3_read_before bs size_mod32 = le_word (take 4 (drop (size_mod32 - 4) bs))"

definition Load3_unordered :: "bytes \<Rightarrow> nat \<Rightarrow> u64" where
  "Load3_unordered from size_mod4 =
     (if size_mod4 = 0 then 0
      else ucast (from ! 0) + push_bit 8 (ucast (from ! (size_mod4 div 2))) +
           push_bit 16 (ucast (from ! (size_mod4 - 1))))"

text \<open>
  The packet of \<open>UpdateRemainder\<close>.  \<open>bs\<close> is the memory from the pointer on; it may go on behind the
  \<open>size_mod32\<close> bytes that are valid.
\<close>

definition remainder_packet :: "bytes \<Rightarrow> nat \<Rightarrow> bytes" where
  "remainder_packet bs size_mod32 =
     (let size_mod4 = size_mod32 mod 4;
          remainder = drop (size_mod32 - size_mod4) bs;
          packet = overwrite 0 (take (size_mod32 - size_mod4) bs) (replicate 32 0)
      in if bit size_mod32 4
         then overwrite 28 (le_bytes 4 (Load3_read_before bs size_mod32)) packet
         else overwrite 16 (le_bytes 8 (Load3_unordered remainder size_mod4)) packet)"

definition UpdateRemainder :: "hh_state \<Rightarrow> bytes \<Rightarrow> nat \<Rightarrow> hh_state" where
  "UpdateRemainder s bs size_mod32 =
     (let mod32_pair = push_bit 32 (of_nat size_mod32) + of_nat size_mod32;
          s1 = s\<lparr>v0 := map (\<lambda>x. x + mod32_pair) (v0 s)\<rparr>;
          s2 = s1\<lparr>v1 := Rotate32By size_mod32 (v1 s1)\<rparr>
      in Update s2 (remainder_packet bs size_mod32))"

definition Permute :: "lanes \<Rightarrow> lanes" where
  "Permute v = [Rotate64By32 (v ! 2), Rotate64By32 (v ! 3), Rotate64By32 (v ! 0), Rotate64By32 (v ! 1)]"

definition PermuteAndUpdate :: "hh_state \<Rightarrow> hh_state" where
  "PermuteAndUpdate s = Update_lanes s (Permute (v0 s))"

definition Finalize64 :: "hh_state \<Rightarrow> u64" where
  "Finalize64 s =
     (let t = (PermuteAndUpdate ^^ 4) s
      in v0 t ! 0 + v1 t ! 0 + mul0 t ! 0 + mul1 t ! 0)"

definition Finalize128 :: "hh_state \<Rightarrow> u64 list" where
  "Finalize128 s =
     (let t = (PermuteAndUpdate ^^ 6) s
      in [v0 t ! 0 + mul0 t ! 0 + v1 t ! 2 + mul1 t ! 2,
          v0 t ! 1 + mul0 t ! 1 + v1 t ! 3 + mul1 t ! 3])"

text \<open>\<open>Shift128Left<kBits>\<close> on the pair (a1, a0).\<close>

definition Shift128Left :: "nat \<Rightarrow> u64 \<Rightarrow> u64 \<Rightarrow> u64 \<times> u64" where
  "Shift128Left k a1 a0 =
     (let shifted1 = push_bit k a1;
          top_bits = drop_bit (64 - k) a0
      in (shifted1 OR top_bits, push_bit k a0))"

definition ModularReduction :: "u64 \<Rightarrow> u64 \<Rightarrow> u64 \<Rightarrow> u64 \<Rightarrow> u64 \<times> u64" where
  "ModularReduction a3_unmasked a2 a1 a0 =
     (let a3 = a3_unmasked AND 0x3FFFFFFFFFFFFFFF;
          (a3_shl1, a2_shl1) = Shift128Left 1 a3 a2;
          (a3_shl2, a2_shl2) = Shift128Left 2 a3 a2
      in (a1 XOR a3_shl1 XOR a3_shl2, a0 XOR a2_shl1 XOR a2_shl2))"

definition Finalize256 :: "hh_state \<Rightarrow> u64 list" where
  "Finalize256 s =
     (let t = (PermuteAndUpdate ^^ 10) s;
          (r1, r0) = ModularReduction (v1 t ! 1 + mul1 t ! 1) (v1 t ! 0 + mul1 t ! 0)
                                      (v0 t ! 1 + mul0 t ! 1) (v0 t ! 0 + mul0 t ! 0);
          (r3, r2) = ModularReduction (v1 t ! 3 + mul1 t ! 3) (v1 t ! 2 + mul1 t ! 2)
                                      (v0 t ! 3 + mul0 t ! 3) (v0 t ! 2 + mul0 t ! 2)
      in [r0, r1, r2, r3])"

text \<open>\<open>AppendAndUpdate\<close>: one packet made of the valid buffer bytes and new bytes.\<close>

definition AppendAndUpdate :: "hh_state \<Rightarrow> bytes \<Rightarrow> bytes \<Rightarrow> nat \<Rightarrow> hh_state" where
  "AppendAndUpdate s from buffer buffer_valid = Update s (take buffer_valid buffer @ from)"

section \<open>HighwayHashT, for any state class\<close>

text \<open>
  The template \<open>HighwayHashT\<close> is generic in the state class and in the result type, so it
  takes the state's member functions \<open>Update\<close>, \<open>UpdateRemainder\<close> and \<open>Finalize\<close> as
  arguments.  \<open>update_packets\<close> is its loop: it leaves the bytes from \<open>truncated\<close> on.
\<close>

function update_packets :: "('s \<Rightarrow> bytes \<Rightarrow> 's) \<Rightarrow> 's \<Rightarrow> bytes \<Rightarrow> 's \<times> bytes" where
  "update_packets upd s bs =
     (if 32 \<le> length bs then update_packets upd (upd s (take 32 bs)) (drop 32 bs) else (s, bs))"
  by pat_completeness auto
termination by (relation "measure (\<lambda>(upd, s, bs). length bs)") auto

declare update_packets.simps [simp del]

lemma update_packets_short: "length bs < 32 \<Longrightarrow> update_packets upd s bs = (s, bs)"
  by (subst update_packets.simps) simp

lemma update_packets_long:
  "32 \<le> length bs \<Longrightarrow> update_packets upd s bs = update_packets upd (upd s (take 32 bs)) (drop 32 bs)"
  by (subst update_packets.simps) simp

definition HighwayHashT ::
    "('s \<Rightarrow> bytes \<Rightarrow> 's) \<Rightarrow> ('s \<Rightarrow> bytes \<Rightarrow> nat \<Rightarrow> 's) \<Rightarrow> ('s \<Rightarrow> 'r) \<Rightarrow> 's \<Rightarrow> bytes \<Rightarrow> 'r" where
  "HighwayHashT upd upd_rem fin s bs =
     (let (s1, remainder) = update_packets upd s bs
      in fin (if remainder \<noteq> [] then upd_rem s1 remainder (length remainder) else s1))"

definition highway_hash64 :: "lanes \<Rightarrow> bytes \<Rightarrow> u64" where
  "highway_hash64 key bs = HighwayHashT Update UpdateRemainder Finalize64 (Reset key) bs"

definition highway_hash128 :: "lanes \<Rightarrow> bytes \<Rightarrow> u64 list" where
  "highway_hash128 key bs = HighwayHashT Update UpdateRemainder Finalize128 (Reset key) bs"

definition highway_hash256 :: "lanes \<Rightarrow> bytes \<Rightarrow> u64 list" where
  "highway_hash256 key bs = HighwayHashT Update UpdateRemainder Finalize256 (Reset key) bs"

end
