(* ===== verification/Hash_Vectors.thy ===== *)
theory Hash_Vectors
  imports Highway_Hash
begin

text \<open>
  The hash evaluated inside the kernel on entries of \<open>kExpected256\<close> in
  third_party/highwayhash/highwayhash/highwayhash_test.cc.  They tie the model of the hash to the
  library's own tests, and give the witnesses URLs with a known hash.  The words of a state are
  written as \<open>W n\<close>, so that the simplifier works on numerals.
\<close>

definition W :: "nat \<Rightarrow> u64" where
  "W n = of_nat n"

lemma W_eq_mod: "W a = W b \<longleftrightarrow> a mod 2 ^ 64 = b mod 2 ^ 64"
  by (simp add: W_def word_of_nat_eq_iff take_bit_eq_mod)

lemma W_add: "W a + W b = W (if a + b < 2 ^ 64 then a + b else a + b - 2 ^ 64)"
proof -
  have "W a + W b = W (a + b)" by (simp add: W_def)
  moreover have "a + b \<ge> 2 ^ 64 \<Longrightarrow> W (a + b) = W (a + b - 2 ^ 64)"
    unfolding W_eq_mod by (rule le_mod_geq)
  ultimately show ?thesis by (simp add: not_less)
qed

lemma W_mul: "W a * W b = W (a * b)"
  by (simp add: W_def)

lemma W_xor: "W a XOR W b = W (a XOR b)"
  by (simp add: W_def of_nat_xor_eq)

lemma W_or: "W a OR W b = W (a OR b)"
  by (simp add: W_def of_nat_or_eq)

lemma W_and: "W a AND W b = W (a AND b)"
  by (simp add: W_def of_nat_and_eq)

lemma W_push: "push_bit k (W a) = W (take_bit (64 - k) a * 2 ^ k)"
proof -
  have "push_bit k (W a) = W (a * 2 ^ k)"
    by (simp add: W_def push_bit_of_nat push_bit_eq_mult)
  also have "\<dots> = W (take_bit (64 - k) a * 2 ^ k)"
    by (simp only: W_eq_mod push_bit_eq_mult[symmetric] take_bit_eq_mod[symmetric] take_bit_push_bit)
       (simp add: take_bit_push_bit)
  finally show ?thesis .
qed

lemma W_unat: "a < 2 ^ 64 \<Longrightarrow> unat (W a) = a"
  by (simp add: W_def unat_of_nat)

lemma W_drop: "a < 2 ^ 64 \<Longrightarrow> drop_bit k (W a) = W (drop_bit k a)"
proof -
  assume a: "a < 2 ^ 64"
  then have "drop_bit k a < 2 ^ 64"
    by (simp only: drop_bit_eq_div) (rule le_less_trans[OF div_le_dividend])
  with a show ?thesis by (simp add: word_unat_eq_iff W_unat unat_drop_bit_eq)
qed

lemma W_low32: "low32 (W a) = W (take_bit 32 a)"
proof -
  have "low32 (W a) = take_bit 32 (W a)"
    by (rule bit_word_eqI) (auto simp: low32_def bit_simps)
  then show ?thesis by (simp add: W_def of_nat_take_bit)
qed

lemma bit_255: "bit (255 :: nat) n \<longleftrightarrow> n < 8"
proof -
  have "255 = (mask 8 :: nat)" by (simp add: mask_eq_exp_minus_1)
  then have "bit (255 :: nat) n \<longleftrightarrow> bit (mask 8 :: nat) n" by (rule arg_cong)
  then show ?thesis by (simp only: bit_mask_iff) simp
qed

lemma W_MASK: "MASK (W a) k = W (take_bit 8 (drop_bit (k * 8) a) * 2 ^ (k * 8))"
proof -
  have "MASK (W a) k = W (a AND push_bit (k * 8) 255)"
    using push_bit_of_nat[of "k * 8" 255, where ?'a = u64, symmetric]
    by (simp add: MASK_def W_def of_nat_and_eq)
  also have "a AND push_bit (k * 8) 255 = push_bit (k * 8) (take_bit 8 (drop_bit (k * 8) a))"
    by (rule bit_eqI) (auto simp: bit_simps bit_255)
  finally show ?thesis by (simp add: push_bit_eq_mult)
qed

lemmas W_simps = W_add W_mul W_xor W_or W_and W_push W_drop W_low32 W_MASK

text \<open>The same round, one stage after the other, each on values that are already computed.\<close>

definition lane2 :: "u64 \<Rightarrow> u64 \<Rightarrow> u64 \<Rightarrow> u64 \<Rightarrow> u64 \<times> u64 \<times> u64 \<times> u64" where
  "lane2 b a c d = (a, b, c, d XOR low32 a * drop_bit 32 b)"

definition lane1 :: "u64 \<Rightarrow> u64 \<Rightarrow> u64 \<Rightarrow> u64 \<Rightarrow> u64 \<times> u64 \<times> u64 \<times> u64" where
  "lane1 b a c d = lane2 b (a + d) (c XOR low32 b * drop_bit 32 a) d"

fun zip3 :: "lanes \<Rightarrow> u64 \<times> u64 \<Rightarrow> u64 \<times> u64 \<Rightarrow> lanes \<Rightarrow> lanes \<Rightarrow> hh_state" where
  "zip3 as (b1, b0) (b3, b2) cs ds = \<lparr>v0 = as, v1 = [b0, b1, b2, b3], mul0 = cs, mul1 = ds\<rparr>"

fun zip2 :: "u64 \<times> u64 \<Rightarrow> u64 \<times> u64 \<Rightarrow> lanes \<Rightarrow> lanes \<Rightarrow> lanes \<Rightarrow> hh_state" where
  "zip2 (a1, a0) (a3, a2) [b0, b1, b2, b3] cs ds =
     zip3 [a0, a1, a2, a3] (ZipperMergeAndAdd a1 a0 b1 b0) (ZipperMergeAndAdd a3 a2 b3 b2) cs ds"

fun zip1 :: "u64 \<times> u64 \<times> u64 \<times> u64 \<Rightarrow> u64 \<times> u64 \<times> u64 \<times> u64 \<Rightarrow>
             u64 \<times> u64 \<times> u64 \<times> u64 \<Rightarrow> u64 \<times> u64 \<times> u64 \<times> u64 \<Rightarrow> hh_state" where
  "zip1 (a0, b0, c0, d0) (a1, b1, c1, d1) (a2, b2, c2, d2) (a3, b3, c3, d3) =
     zip2 (ZipperMergeAndAdd b1 b0 a1 a0) (ZipperMergeAndAdd b3 b2 a3 a2)
       [b0, b1, b2, b3] [c0, c1, c2, c3] [d0, d1, d2, d3]"

lemma Update_lanes_stages:
  "Update_lanes \<lparr>v0 = [a0, a1, a2, a3], v1 = [b0, b1, b2, b3], mul0 = [c0, c1, c2, c3],
                 mul1 = [d0, d1, d2, d3]\<rparr> [p0, p1, p2, p3] =
   zip1 (lane1 (b0 + p0 + c0) a0 c0 d0) (lane1 (b1 + p1 + c1) a1 c1 d1)
        (lane1 (b2 + p2 + c2) a2 c2 d2) (lane1 (b3 + p3 + c3) a3 c3 d3)"
  by (simp add: Update_lanes_def lane_loop_def zipper_lanes_def lane1_def lane2_def Let_def split_beta
      zip3.simps[of _ "fst p" "snd p" "fst q" "snd q" for p q, simplified]
      zip2.simps[of "fst p" "snd p" "fst q" "snd q" for p q, simplified])

lemmas round_simps =
  PermuteAndUpdate_def Permute_def Rotate64By32_def Update_lanes_stages lane1_def lane2_def
  zip1.simps zip2.simps zip3.simps ZipperMergeAndAdd_def W_simps

lemma W_numeral: "numeral n = W (numeral n)" "(0 :: u64) = W 0"
  by (simp_all add: W_def)

text \<open>Ten rounds in two halves.\<close>

lemma funpow_5: "(f ^^ 5) x = f (f (f (f (f x))))"
  by (simp add: numeral_eq_Suc)

lemma funpow_10: "(f ^^ 10) x = (f ^^ 5) ((f ^^ 5) x)"
proof -
  have "(f ^^ (5 + 5)) x = (f ^^ 5) ((f ^^ 5) x)" by (simp only: funpow_add o_apply)
  then show ?thesis by simp
qed

lemmas finalize_simps = ModularReduction_def Shift128Left_def W_simps W_numeral Let_def

section \<open>The test vectors\<close>

text \<open>The key of the tests, and their data: the bytes 0, 1, 2 and so on.\<close>

definition test_key :: lanes where
  "test_key = [0x0706050403020100, 0x0F0E0D0C0B0A0908, 0x1716151413121110, 0x1F1E1D1C1B1A1918]"

definition test_data :: "nat \<Rightarrow> bytes" where
  "test_data n = map of_nat [0..<n]"

lemma Reset_test_key: "Reset test_key =
     \<lparr>v0 = [W 0xdce0d0d1fd4ecf2f, W 0xab07352e229538d8, W 0x40f9f3a10626254, W 0x3b2177949eb911cb],
      v1 = [W 0x38d19f10cc08f097, W 0xcba6f861baff8780, W 0xad4677df23ff1978, W 0x5e3238fe27ce0e6b],
      mul0 = [W 0xdbe6d5d5fe4cce2f, W 0xa4093822299f31d0, W 0x13198a2e03707344, W 0x243f6a8885a308d3],
      mul1 = [W 0x3bd39e10cb0ef593, W 0xc0acf169b5f18a8c, W 0xbe5466cf34e90c6c, W 0x452821e638d01377]\<rparr>"
  by (simp add: Reset_def test_key_def init0_def init1_def Rotate64By32_def W_def Let_def)

text \<open>At most one whole packet, and what is left of the data.\<close>

lemma hash_no_remainder: "highway_hash256 key [] = Finalize256 (Reset key)"
  by (simp add: highway_hash256_def HighwayHashT_def update_packets_short)

lemma hash_remainder:
  "length bs = n \<Longrightarrow> 0 < n \<Longrightarrow> n < 32 \<Longrightarrow> highway_hash256 key bs = Finalize256 (UpdateRemainder (Reset key) bs n)"
  by (cases bs) (auto simp: highway_hash256_def HighwayHashT_def update_packets_short)

lemma hash_packet_remainder:
  assumes "32 < length bs" and "length bs < 64"
  shows "highway_hash256 key bs = Finalize256 (UpdateRemainder (Update (Reset key) (take 32 bs)) (drop 32 bs) (length bs - 32))"
proof -
  have "update_packets Update (Reset key) bs = (Update (Reset key) (take 32 bs), drop 32 bs)"
    using assms by (simp add: update_packets_long update_packets_short)
  then show ?thesis using assms(1) by (simp add: highway_hash256_def HighwayHashT_def)
qed

subsection \<open>The empty input\<close>

lemma empty_rounds_1: "(PermuteAndUpdate ^^ 5)
     \<lparr>v0 = [W 0xdce0d0d1fd4ecf2f, W 0xab07352e229538d8, W 0x40f9f3a10626254, W 0x3b2177949eb911cb],
      v1 = [W 0x38d19f10cc08f097, W 0xcba6f861baff8780, W 0xad4677df23ff1978, W 0x5e3238fe27ce0e6b],
      mul0 = [W 0xdbe6d5d5fe4cce2f, W 0xa4093822299f31d0, W 0x13198a2e03707344, W 0x243f6a8885a308d3],
      mul1 = [W 0x3bd39e10cb0ef593, W 0xc0acf169b5f18a8c, W 0xbe5466cf34e90c6c, W 0x452821e638d01377]\<rparr> =
     \<lparr>v0 = [W 0x5cd4004fa84728df, W 0x4c05ce31c1187233, W 0x68e3fa9a06a1ee6b, W 0x93ebf6166fedc229],
      v1 = [W 0x9f2665c5db0034cb, W 0x4c8543eeaedf5a2f, W 0xbc4602af4e8623b3, W 0xd8d6b5b587331403],
      mul0 = [W 0xa92a86eddd6eeb84, W 0xda5244c99588caa6, W 0x67d9df0ec374367d, W 0x6a1d5bc30ea4d7ab],
      mul1 = [W 0x34c1b451b5dcaab, W 0x455c283db57d16ec, W 0xd46c33212beed67f, W 0xfc0384278dda0082]\<rparr>"
  unfolding funpow_5 by (simp add: round_simps)

lemma empty_rounds_2: "(PermuteAndUpdate ^^ 5)
     \<lparr>v0 = [W 0x5cd4004fa84728df, W 0x4c05ce31c1187233, W 0x68e3fa9a06a1ee6b, W 0x93ebf6166fedc229],
      v1 = [W 0x9f2665c5db0034cb, W 0x4c8543eeaedf5a2f, W 0xbc4602af4e8623b3, W 0xd8d6b5b587331403],
      mul0 = [W 0xa92a86eddd6eeb84, W 0xda5244c99588caa6, W 0x67d9df0ec374367d, W 0x6a1d5bc30ea4d7ab],
      mul1 = [W 0x34c1b451b5dcaab, W 0x455c283db57d16ec, W 0xd46c33212beed67f, W 0xfc0384278dda0082]\<rparr> =
     \<lparr>v0 = [W 0xa20635d6ed6cb9fb, W 0x9fc070ba464940da, W 0x659446ec892270d3, W 0x829cb93def944af1],
      v1 = [W 0x3b1157ee30642073, W 0x576ed7cc507d23a5, W 0xbe5dd321c1b093a, W 0x283ab403f3b5de],
      mul0 = [W 0xb5f8ad4ca9093fe6, W 0x53e1a2006f43ee5e, W 0x9bf5f1e537ff78fa, W 0x84d5b1a937788ca9],
      mul1 = [W 0x81b9db8e35d19d13, W 0x356320d7609fd769, W 0xbd0be3d37816213d, W 0x9ea3e1a50cf7ed34]\<rparr>"
  unfolding funpow_5 by (simp add: round_simps)

lemma highway_hash256_empty:
  "highway_hash256 test_key [] =
     [0xDD44482AC2C874F5, 0xD946017313C7351F, 0xB3AEBECCB98714FF, 0x41DA233145751DF4]"
proof -
  have "highway_hash256 test_key [] =
      [W 0xdd44482ac2c874f5, W 0xd946017313c7351f, W 0xb3aebeccb98714ff, W 0x41da233145751df4]"
    unfolding hash_no_remainder Finalize256_def funpow_10 Reset_test_key empty_rounds_1 empty_rounds_2
    by (simp add: finalize_simps) (simp add: W_eq_mod)?
  then show ?thesis by (simp add: W_def)
qed

subsection \<open>One zero byte\<close>

lemma zero_byte_packet: "packet_lanes (remainder_packet [0] (Suc 0)) = [W 0x0, W 0x0, W 0x0, W 0x0]"
proof -
  have "packet_lanes (remainder_packet [0] (Suc 0)) = [0x0, 0x0, 0x0, 0x0]" by code_simp
  then show ?thesis by (simp add: W_def)
qed

lemma zero_byte_remainder: "UpdateRemainder (Reset test_key) [0] (Suc 0) =
     \<lparr>v0 = [W 0x76f01e3adbbcaa59, W 0xb985b0d90125ba04, W 0xf744acadbeb9f30c, W 0xedf33fa1b3c91318],
      v1 = [W 0xa743be7bb51b8939, W 0xb15c19a04fc37ad2, W 0x7a946de0f82847f2, W 0xd7bc20981508d35c],
      mul0 = [W 0x5a5bb9e37c24f533, W 0xceaa0bea5baf1a8f, W 0x122bded1abb6eab8, W 0x157e04e6c3a8728e],
      mul1 = [W 0x763d84afcdd79f1, W 0xf29c3602d8961bd5, W 0xa3fa48ddf8bdcdc1, W 0xf809d77060b5d9fb]\<rparr>"
proof -
  have "UpdateRemainder (Reset test_key) [0] (Suc 0) = Update_lanes
      \<lparr>v0 = [W 0xdce0d0d2fd4ecf30, W 0xab07352f229538d9, W 0x40f9f3b10626255, W 0x3b2177959eb911cc],
      v1 = [W 0x71a33e209811e12f, W 0x974df0c375ff0f01, W 0x5a8cefbf47fe32f0, W 0xbc6471fc4f9c1cd6],
      mul0 = [W 0xdbe6d5d5fe4cce2f, W 0xa4093822299f31d0, W 0x13198a2e03707344, W 0x243f6a8885a308d3],
      mul1 = [W 0x3bd39e10cb0ef593, W 0xc0acf169b5f18a8c, W 0xbe5466cf34e90c6c, W 0x452821e638d01377]\<rparr>
      [W 0x0, W 0x0, W 0x0, W 0x0]"
    by (simp add: Reset_test_key UpdateRemainder_def Update_def zero_byte_packet Rotate32By_def rot32_def Let_def W_def)
  then show ?thesis by (simp add: round_simps)
qed

lemma zero_byte_rounds_1: "(PermuteAndUpdate ^^ 5)
     \<lparr>v0 = [W 0x76f01e3adbbcaa59, W 0xb985b0d90125ba04, W 0xf744acadbeb9f30c, W 0xedf33fa1b3c91318],
      v1 = [W 0xa743be7bb51b8939, W 0xb15c19a04fc37ad2, W 0x7a946de0f82847f2, W 0xd7bc20981508d35c],
      mul0 = [W 0x5a5bb9e37c24f533, W 0xceaa0bea5baf1a8f, W 0x122bded1abb6eab8, W 0x157e04e6c3a8728e],
      mul1 = [W 0x763d84afcdd79f1, W 0xf29c3602d8961bd5, W 0xa3fa48ddf8bdcdc1, W 0xf809d77060b5d9fb]\<rparr> =
     \<lparr>v0 = [W 0xe0bdd3c804a9b373, W 0x989c524af08527a5, W 0x61f8fc57274364b7, W 0xd03c39a252c0364f],
      v1 = [W 0xa250e877be875bd7, W 0xae29e48887979170, W 0x66adea895f6f13de, W 0x3e8d643773243124],
      mul0 = [W 0x41cf1d8fd8fc930a, W 0xb0855841be58b15c, W 0xf69dadcd12ccd37c, W 0xbb65dc9999eedea],
      mul1 = [W 0x8b640b75cc79892, W 0x7cf0ec7b1d221045, W 0xd949ff278aa5db11, W 0x4023190750c4eb0e]\<rparr>"
  unfolding funpow_5 by (simp add: round_simps)

lemma zero_byte_rounds_2: "(PermuteAndUpdate ^^ 5)
     \<lparr>v0 = [W 0xe0bdd3c804a9b373, W 0x989c524af08527a5, W 0x61f8fc57274364b7, W 0xd03c39a252c0364f],
      v1 = [W 0xa250e877be875bd7, W 0xae29e48887979170, W 0x66adea895f6f13de, W 0x3e8d643773243124],
      mul0 = [W 0x41cf1d8fd8fc930a, W 0xb0855841be58b15c, W 0xf69dadcd12ccd37c, W 0xbb65dc9999eedea],
      mul1 = [W 0x8b640b75cc79892, W 0x7cf0ec7b1d221045, W 0xd949ff278aa5db11, W 0x4023190750c4eb0e]\<rparr> =
     \<lparr>v0 = [W 0x4a571bda1b4f0c70, W 0x6d7e67b6a2a172e2, W 0xcf38f8791e5f1c92, W 0xf1ca7f9ab847385d],
      v1 = [W 0xdca5d77eb237dd62, W 0xd2e0b0e8e10c74e2, W 0x8300b5e2e1f49cd2, W 0x3aca97420c529122],
      mul0 = [W 0x9b63b64de62f26de, W 0xd168145a73bede46, W 0x1df59d13bde004a7, W 0xc4fb6bf6e20570ea],
      mul1 = [W 0xa7596fc77c386b19, W 0x52f2c342124051ac, W 0x379c0723a48dcfc3, W 0x7e6c2c637fb90c7e]\<rparr>"
  unfolding funpow_5 by (simp add: round_simps)

lemma highway_hash256_zero_byte:
  "highway_hash256 test_key [0] =
     [0xEDB941BCE45F8254, 0xE20D44EF3DCAC60F, 0x72651B9BCB324A47, 0x2073624CB275E484]"
proof -
  have "highway_hash256 test_key [0] =
      [W 0xedb941bce45f8254, W 0xe20d44ef3dcac60f, W 0x72651b9bcb324a47, W 0x2073624cb275e484]"
    unfolding hash_remainder[of "[0]" 1, simplified] Finalize256_def funpow_10 zero_byte_remainder zero_byte_rounds_1 zero_byte_rounds_2
    by (simp add: finalize_simps) (simp add: W_eq_mod)?
  then show ?thesis by (simp add: W_def)
qed

subsection \<open>Three bytes\<close>

lemma three_bytes_packet: "packet_lanes (remainder_packet [0, 1, 2] 3) = [W 0x0, W 0x0, W 0x20100, W 0x0]"
proof -
  have "packet_lanes (remainder_packet [0, 1, 2] 3) = [0x0, 0x0, 0x20100, 0x0]" by code_simp
  then show ?thesis by (simp add: W_def)
qed

lemma three_bytes_remainder: "UpdateRemainder (Reset test_key) [0, 1, 2] 3 =
     \<lparr>v0 = [W 0x5b5c12696f1f623, W 0xe899a08d4221a68, W 0xc77946dd8eb6e8e6, W 0xfd75e6fa099c5109],
      v1 = [W 0xc582c4e120855b83, W 0x6a9b04b9bbd94a9, W 0x644b31a06a223a93, W 0xdcdaabccaab05935],
      mul0 = [W 0x8a7c53e6efd9f26b, W 0xa51be5d0edcf2f15, W 0x13965c7ee2ec2f75, W 0x97575315e41b927],
      mul1 = [W 0x44f6643351bd9160, W 0xc1a38d8061d0e93b, W 0x9fbea65c990139ad, W 0x57764063ae282f95]\<rparr>"
proof -
  have "UpdateRemainder (Reset test_key) [0, 1, 2] 3 = Update_lanes
      \<lparr>v0 = [W 0xdce0d0d4fd4ecf32, W 0xab073531229538db, W 0x40f9f3d10626257, W 0x3b2177979eb911ce],
      v1 = [W 0xc68cf881604784be, W 0x5d37c30ed7fc3c05, W 0x6a33befd1ff8cbc1, W 0xf191c7f23e707359],
      mul0 = [W 0xdbe6d5d5fe4cce2f, W 0xa4093822299f31d0, W 0x13198a2e03707344, W 0x243f6a8885a308d3],
      mul1 = [W 0x3bd39e10cb0ef593, W 0xc0acf169b5f18a8c, W 0xbe5466cf34e90c6c, W 0x452821e638d01377]\<rparr>
      [W 0x0, W 0x0, W 0x20100, W 0x0]"
    by (simp add: Reset_test_key UpdateRemainder_def Update_def three_bytes_packet Rotate32By_def rot32_def Let_def W_def)
  then show ?thesis by (simp add: round_simps)
qed

lemma three_bytes_rounds_1: "(PermuteAndUpdate ^^ 5)
     \<lparr>v0 = [W 0x5b5c12696f1f623, W 0xe899a08d4221a68, W 0xc77946dd8eb6e8e6, W 0xfd75e6fa099c5109],
      v1 = [W 0xc582c4e120855b83, W 0x6a9b04b9bbd94a9, W 0x644b31a06a223a93, W 0xdcdaabccaab05935],
      mul0 = [W 0x8a7c53e6efd9f26b, W 0xa51be5d0edcf2f15, W 0x13965c7ee2ec2f75, W 0x97575315e41b927],
      mul1 = [W 0x44f6643351bd9160, W 0xc1a38d8061d0e93b, W 0x9fbea65c990139ad, W 0x57764063ae282f95]\<rparr> =
     \<lparr>v0 = [W 0xb3c6f692e08b49a7, W 0x6726a9e05c4db65d, W 0x38eac6fb94e76ac, W 0xc28a63a687c6e1d],
      v1 = [W 0xf564b77e026f3b7f, W 0x47e3db6b1aad3f58, W 0x1cb848be935bf3aa, W 0xe720a1206c9375e4],
      mul0 = [W 0x3b0312be359acf93, W 0x9ec4c77a93738a26, W 0x8ee3681dbb868552, W 0x1e0d71b57148b95a],
      mul1 = [W 0x96c773cf2c4298a3, W 0x8bf12fced0c19e21, W 0x7ba2cd23b8cf8aa7, W 0xb660a31b01313b0f]\<rparr>"
  unfolding funpow_5 by (simp add: round_simps)

lemma three_bytes_rounds_2: "(PermuteAndUpdate ^^ 5)
     \<lparr>v0 = [W 0xb3c6f692e08b49a7, W 0x6726a9e05c4db65d, W 0x38eac6fb94e76ac, W 0xc28a63a687c6e1d],
      v1 = [W 0xf564b77e026f3b7f, W 0x47e3db6b1aad3f58, W 0x1cb848be935bf3aa, W 0xe720a1206c9375e4],
      mul0 = [W 0x3b0312be359acf93, W 0x9ec4c77a93738a26, W 0x8ee3681dbb868552, W 0x1e0d71b57148b95a],
      mul1 = [W 0x96c773cf2c4298a3, W 0x8bf12fced0c19e21, W 0x7ba2cd23b8cf8aa7, W 0xb660a31b01313b0f]\<rparr> =
     \<lparr>v0 = [W 0xcaf3bc6962f23a1e, W 0x7d1bbd3c74a9ba2a, W 0x716a819429ab2144, W 0x1256a64fbae66ade],
      v1 = [W 0x48dfc7d7a7f0f5ff, W 0xf341a9ed9c800903, W 0x9c81fe27fa04764b, W 0x5f04c951d4f33332],
      mul0 = [W 0x77e3d7ddecbad056, W 0x65069cff1cb0abbb, W 0x97be7a39e39a7dd2, W 0x19a49f0aec10746],
      mul1 = [W 0x33faae607724e28d, W 0xa03e54310f6340f3, W 0xa23dcd89c4d08e17, W 0x4958b9eed6ab964f]\<rparr>"
  unfolding funpow_5 by (simp add: round_simps)

lemma highway_hash256_three_bytes:
  "highway_hash256 test_key [0, 1, 2] =
     [0x480AA0D70DD1D95C, 0x89225E7C6911D1D0, 0x8EA8426B8BBB865A, 0xE23DFBC390E1C722]"
proof -
  have "highway_hash256 test_key [0, 1, 2] =
      [W 0x480aa0d70dd1d95c, W 0x89225e7c6911d1d0, W 0x8ea8426b8bbb865a, W 0xe23dfbc390e1c722]"
    unfolding hash_remainder[of "[0, 1, 2]" 3, simplified] Finalize256_def funpow_10 three_bytes_remainder three_bytes_rounds_1 three_bytes_rounds_2
    by (simp add: finalize_simps) (simp add: W_eq_mod)?
  then show ?thesis by (simp add: W_def)
qed

subsection \<open>A packet and 31 bytes\<close>

lemma long_packets:
  "packet_lanes (take 32 (test_data 63)) = [W 0x706050403020100, W 0xf0e0d0c0b0a0908, W 0x1716151413121110, W 0x1f1e1d1c1b1a1918]"
  "packet_lanes (remainder_packet (drop 32 (test_data 63)) 31) = [W 0x2726252423222120, W 0x2f2e2d2c2b2a2928, W 0x3736353433323130, W 0x3e3d3c3b3b3a3938]"
proof -
  have "packet_lanes (take 32 (test_data 63)) = [0x706050403020100, 0xf0e0d0c0b0a0908, 0x1716151413121110, 0x1f1e1d1c1b1a1918]" by code_simp
  then show "packet_lanes (take 32 (test_data 63)) = [W 0x706050403020100, W 0xf0e0d0c0b0a0908, W 0x1716151413121110, W 0x1f1e1d1c1b1a1918]" by (simp add: W_def)
  have "packet_lanes (remainder_packet (drop 32 (test_data 63)) 31) =
      [0x2726252423222120, 0x2f2e2d2c2b2a2928, 0x3736353433323130, 0x3e3d3c3b3b3a3938]" by code_simp
  then show "packet_lanes (remainder_packet (drop 32 (test_data 63)) 31) =
      [W 0x2726252423222120, W 0x2f2e2d2c2b2a2928, W 0x3736353433323130, W 0x3e3d3c3b3b3a3938]" by (simp add: W_def)
qed

lemma length_long: "length (drop 32 (test_data 63)) = 31" "length (test_data 63) = 63"
  by (simp_all add: test_data_def)

lemma long_update: "Update (Reset test_key) (take 32 (test_data 63)) =
     \<lparr>v0 = [W 0xdf332ea141b5548f, W 0x870ce55a162fae53, W 0x8f05a3985ccd10fa, W 0x57a00fab9814470a],
      v1 = [W 0xab45cdf6fc0d1a07, W 0x5e11713ed4d8636e, W 0xd1cd27c1de4f4928, W 0x3099c5e9d79fc8ee],
      mul0 = [W 0x6acd68c11bf8be89, W 0x415411531681200, W 0x13f4125d3223077c, W 0xa6d214934a6e36b],
      mul1 = [W 0x2e6566d33ebf7ec7, W 0xab9fcd28f9fc7250, W 0x840637c436c58aac, W 0xcd2e69dfaa4900b3]\<rparr>"
  unfolding Update_def long_packets Reset_test_key by (simp add: round_simps)

lemma long_remainder: "UpdateRemainder (Update (Reset test_key) (take 32 (test_data 63))) (drop 32 (test_data 63)) 31 =
     \<lparr>v0 = [W 0xb9fb01dff496b3b2, W 0x1a8c490e372b0288, W 0x53ecb9736f0f1499, W 0x58e889ab830eb9b7],
      v1 = [W 0x99b1286d3eb77ba0, W 0x1bd521e3102a4c16, W 0xcd68f05a8d8c88af, W 0x34af2d3264bf749d],
      mul0 = [W 0x5f813ebd4f24d789, W 0x6cef70a36870e267, W 0x65427fb74a42efbc, W 0x415fa2c40a5d87ef],
      mul1 = [W 0x5a518f3b6eb3a312, W 0xadaa793048ed0790, W 0x9a054889798dc259, W 0xf77fde48e8bdaf93]\<rparr>"
proof -
  have "UpdateRemainder (Update (Reset test_key) (take 32 (test_data 63))) (drop 32 (test_data 63)) 31 = Update_lanes
      \<lparr>v0 = [W 0xdf332ec041b554ae, W 0x870ce579162fae72, W 0x8f05a3b75ccd1119, W 0x57a00fca98144729],
      v1 = [W 0x55a2e6fbfe068d03, W 0x2f08b89f6a6c31b7, W 0xe8e693e06f27a494, W 0x984ce2f46bcfe477],
      mul0 = [W 0x6acd68c11bf8be89, W 0x415411531681200, W 0x13f4125d3223077c, W 0xa6d214934a6e36b],
      mul1 = [W 0x2e6566d33ebf7ec7, W 0xab9fcd28f9fc7250, W 0x840637c436c58aac, W 0xcd2e69dfaa4900b3]\<rparr>
      [W 0x2726252423222120, W 0x2f2e2d2c2b2a2928, W 0x3736353433323130, W 0x3e3d3c3b3b3a3938]"
    unfolding long_update unfolding UpdateRemainder_def Update_def long_packets length_long
    by (simp add: Rotate32By_def rot32_def Let_def W_def)
  then show ?thesis by (simp add: round_simps)
qed

lemma long_rounds_1: "(PermuteAndUpdate ^^ 5)
     \<lparr>v0 = [W 0xb9fb01dff496b3b2, W 0x1a8c490e372b0288, W 0x53ecb9736f0f1499, W 0x58e889ab830eb9b7],
      v1 = [W 0x99b1286d3eb77ba0, W 0x1bd521e3102a4c16, W 0xcd68f05a8d8c88af, W 0x34af2d3264bf749d],
      mul0 = [W 0x5f813ebd4f24d789, W 0x6cef70a36870e267, W 0x65427fb74a42efbc, W 0x415fa2c40a5d87ef],
      mul1 = [W 0x5a518f3b6eb3a312, W 0xadaa793048ed0790, W 0x9a054889798dc259, W 0xf77fde48e8bdaf93]\<rparr> =
     \<lparr>v0 = [W 0x64d175ef30a2a1a2, W 0xd9d4b9bb714be1bf, W 0xaac5f508e1dffd0f, W 0x6f1d1d26104353ea],
      v1 = [W 0xc1943570b349c56f, W 0xb56633a0fbf71555, W 0xa2680118fef87f4a, W 0xea7e7bf20ad84e2f],
      mul0 = [W 0xa09f8ea1f7039135, W 0xa822770043beb53, W 0x1a85726370c6a747, W 0x5fb614c74b9cf6de],
      mul1 = [W 0x248a455428feb469, W 0xd4e9eb23783db7b8, W 0x59e11ca57f7570e9, W 0xd13c991077c359f0]\<rparr>"
  unfolding funpow_5 by (simp add: round_simps)

lemma long_rounds_2: "(PermuteAndUpdate ^^ 5)
     \<lparr>v0 = [W 0x64d175ef30a2a1a2, W 0xd9d4b9bb714be1bf, W 0xaac5f508e1dffd0f, W 0x6f1d1d26104353ea],
      v1 = [W 0xc1943570b349c56f, W 0xb56633a0fbf71555, W 0xa2680118fef87f4a, W 0xea7e7bf20ad84e2f],
      mul0 = [W 0xa09f8ea1f7039135, W 0xa822770043beb53, W 0x1a85726370c6a747, W 0x5fb614c74b9cf6de],
      mul1 = [W 0x248a455428feb469, W 0xd4e9eb23783db7b8, W 0x59e11ca57f7570e9, W 0xd13c991077c359f0]\<rparr> =
     \<lparr>v0 = [W 0x8a60e0eb9aa94fe2, W 0x8e88699061f12fa8, W 0x53dec64d169a9a3, W 0x6b6cf465a2ab0883],
      v1 = [W 0x1beb68606d4dc0ab, W 0x1372bee0846fd337, W 0xf8af0d95570c74f6, W 0xcde774030350e7a0],
      mul0 = [W 0xaa702fcea0808b39, W 0xa8bf0e2ba1a1ae3f, W 0xb60a3464f8fe5b01, W 0x43b2378d6c861c0e],
      mul1 = [W 0x4846b657a39b73f, W 0x62b6b7a05e7b0b54, W 0x291d46377090b58d, W 0xcd62c946d50c6fdd]\<rparr>"
  unfolding funpow_5 by (simp add: round_simps)

lemma highway_hash256_long:
  "highway_hash256 test_key (test_data 63) =
     [0xF5B1F8266A3AEB67, 0x83B040BE4DEC1ADD, 0x7FE1C8635B26FBAE, 0xF4A3A447DEFED79F]"
proof -
  have "highway_hash256 test_key (test_data 63) =
      [W 0xf5b1f8266a3aeb67, W 0x83b040be4dec1add, W 0x7fe1c8635b26fbae, W 0xf4a3a447defed79f]"
    unfolding hash_packet_remainder[of "test_data 63", unfolded length_long, simplified] Finalize256_def funpow_10 long_remainder long_rounds_1 long_rounds_2
    by (simp add: finalize_simps) (simp add: W_eq_mod)?
  then show ?thesis by (simp add: W_def)
qed

section \<open>Property\<close>

text \<open>
  The model of the hash agrees with the library's published test vectors for the empty input,
  for one zero byte, for three bytes, and for 63 bytes: no packet, one packet, and both ways in which
  a remainder is padded.
\<close>

theorem highway_hash256_test_vectors:
  "highway_hash256 test_key (test_data 0) =
     [0xDD44482AC2C874F5, 0xD946017313C7351F, 0xB3AEBECCB98714FF, 0x41DA233145751DF4] \<and>
   highway_hash256 test_key (test_data 1) =
     [0xEDB941BCE45F8254, 0xE20D44EF3DCAC60F, 0x72651B9BCB324A47, 0x2073624CB275E484] \<and>
   highway_hash256 test_key (test_data 3) =
     [0x480AA0D70DD1D95C, 0x89225E7C6911D1D0, 0x8EA8426B8BBB865A, 0xE23DFBC390E1C722] \<and>
   highway_hash256 test_key (test_data 63) =
     [0xF5B1F8266A3AEB67, 0x83B040BE4DEC1ADD, 0x7FE1C8635B26FBAE, 0xF4A3A447DEFED79F]"
proof -
  have "test_data 0 = []" "test_data 1 = [0]" "test_data 3 = [0, 1, 2]"
    by (simp_all add: test_data_def upt_rec)
  then show ?thesis
    by (simp only: highway_hash256_empty highway_hash256_zero_byte highway_hash256_three_bytes highway_hash256_long simp_thms)
qed

end
