(* ===== verification/Hash_Streaming.thy ===== *)
theory Hash_Streaming
  imports Highway_Hash
begin

text \<open>
  \<open>HighwayHashCatT\<close> of \<^verbatim>\<open>third_party/highwayhash/highwayhash/highwayhash.h\<close>: the hash of data that
  arrives in pieces, with its buffer of one packet.  What its comment promises, that the result
  is that of \<open>HighwayHashT\<close> on the concatenation, is proved for every state class whose
  \<open>AppendAndUpdate\<close> is \<open>Update\<close> of the joined packet, and so for the portable one.
\<close>

section \<open>The buffer\<close>

text \<open>
  The static functions of the state class that fill the buffer.  \<open>from\<close> are the bytes read,
  \<open>size_mod32\<close> of them.
\<close>

definition ZeroInitialize :: bytes where
  "ZeroInitialize = replicate 32 0"

definition CopyPartial :: "bytes \<Rightarrow> nat \<Rightarrow> bytes \<Rightarrow> bytes" where
  "CopyPartial from size_mod32 buffer = overwrite 0 (take size_mod32 from) buffer"

definition AppendPartial :: "bytes \<Rightarrow> nat \<Rightarrow> bytes \<Rightarrow> nat \<Rightarrow> bytes" where
  "AppendPartial from size_mod32 buffer buffer_valid = overwrite buffer_valid (take size_mod32 from) buffer"

lemma overwrite_props:
  assumes "off + length bs \<le> length p"
  shows "length (overwrite off bs p) = length p"
    and "take (off + length bs) (overwrite off bs p) = take off p @ bs"
  using assms by (simp_all add: overwrite_def)

section \<open>HighwayHashCatT, for any state class\<close>

record 's hash_cat =
  hc_buffer :: bytes
  hc_state :: 's
  hc_buffer_usage :: nat

definition new_HighwayHashCatT :: "(lanes \<Rightarrow> 's) \<Rightarrow> lanes \<Rightarrow> 's hash_cat" where
  "new_HighwayHashCatT reset key =
     \<lparr>hc_buffer = ZeroInitialize, hc_state = reset key, hc_buffer_usage = 0\<rparr>"

text \<open>\<open>Reset\<close> leaves the buffer as it is.\<close>

definition cat_Reset :: "(lanes \<Rightarrow> 's) \<Rightarrow> lanes \<Rightarrow> 's hash_cat \<Rightarrow> 's hash_cat" where
  "cat_Reset reset key h = h\<lparr>hc_state := reset key, hc_buffer_usage := 0\<rparr>"

text \<open>The loop over whole packets is that of \<open>HighwayHashT\<close>; it leaves the bytes that are left.\<close>

definition cat_Append ::
  "('s \<Rightarrow> bytes \<Rightarrow> 's) \<Rightarrow> ('s \<Rightarrow> bytes \<Rightarrow> bytes \<Rightarrow> nat \<Rightarrow> 's) \<Rightarrow> bytes \<Rightarrow> 's hash_cat \<Rightarrow> 's hash_cat" where
  "cat_Append upd append_upd bytes h =
     (let num_bytes = length bytes;
          capacity = 32 - hc_buffer_usage h
      in if num_bytes < capacity
         then h\<lparr>hc_buffer := AppendPartial bytes num_bytes (hc_buffer h) (hc_buffer_usage h),
                hc_buffer_usage := hc_buffer_usage h + num_bytes\<rparr>
         else
           (let (state_copy, bytes') =
                  (if hc_buffer_usage h \<noteq> 0
                   then (append_upd (hc_state h) (take capacity bytes) (hc_buffer h) (hc_buffer_usage h),
                         drop capacity bytes)
                   else (hc_state h, bytes));
                (state_copy', bytes'') = update_packets upd state_copy bytes'
            in h\<lparr>hc_buffer_usage := length bytes'', hc_state := state_copy',
                 hc_buffer := if length bytes'' \<noteq> 0 then CopyPartial bytes'' (length bytes'') (hc_buffer h)
                              else hc_buffer h\<rparr>))"

text \<open>\<open>Finalize\<close> hands its whole buffer to the state class, with the number of valid bytes.\<close>

definition cat_Finalize :: "('s \<Rightarrow> bytes \<Rightarrow> nat \<Rightarrow> 's) \<Rightarrow> ('s \<Rightarrow> 'r) \<Rightarrow> 's hash_cat \<Rightarrow> 'r" where
  "cat_Finalize upd_rem fin h =
     (let state_copy = hc_state h;
          buffer_usage = hc_buffer_usage h
      in fin (if buffer_usage \<noteq> 0 then upd_rem state_copy (hc_buffer h) buffer_usage else state_copy))"

section \<open>Whole packets\<close>

lemma update_packets_rest: "length (snd (update_packets upd s bs)) < 32"
proof (induction upd s bs rule: update_packets.induct)
  case (1 upd s bs)
  show ?case
  proof (cases "32 \<le> length bs")
    case True
    with 1 show ?thesis by (simp only: update_packets_long[OF True])
  qed (simp add: update_packets_short)
qed

lemma update_packets_append:
  "update_packets upd s (a @ b) = (let (s', r) = update_packets upd s a in update_packets upd s' (r @ b))"
proof (induction upd s a rule: update_packets.induct)
  case (1 upd s a)
  show ?case
  proof (cases "32 \<le> length a")
    case True
    then have "take 32 (a @ b) = take 32 a" "drop 32 (a @ b) = drop 32 a @ b" "32 \<le> length (a @ b)" by simp_all
    with 1[OF True] show ?thesis by (simp only: update_packets_long[OF True] update_packets_long[of "a @ b"])
  qed (simp add: update_packets_short)
qed

section \<open>The contract of the state class\<close>

text \<open>The buffer holds the bytes since the last whole packet.\<close>

definition cat_holds :: "('s \<Rightarrow> bytes \<Rightarrow> 's) \<Rightarrow> 's \<Rightarrow> bytes \<Rightarrow> 's hash_cat \<Rightarrow> bool" where
  "cat_holds upd s0 bs h \<longleftrightarrow>
     length (hc_buffer h) = 32 \<and> hc_buffer_usage h < 32 \<and>
     update_packets upd s0 bs = (hc_state h, take (hc_buffer_usage h) (hc_buffer h))"

locale packet_state =
  fixes upd :: "'s \<Rightarrow> bytes \<Rightarrow> 's" and append_upd :: "'s \<Rightarrow> bytes \<Rightarrow> bytes \<Rightarrow> nat \<Rightarrow> 's"
    and upd_rem :: "'s \<Rightarrow> bytes \<Rightarrow> nat \<Rightarrow> 's"
  assumes append_joins:
    "length buffer = 32 \<Longrightarrow> valid \<le> 32 \<Longrightarrow> length from = 32 - valid \<Longrightarrow>
      append_upd s from buffer valid = upd s (take valid buffer @ from)"
    and remainder_local: "upd_rem s (bs @ rest) (length bs) = upd_rem s bs (length bs)"
begin

lemma holds_new: "cat_holds upd (reset key) [] (new_HighwayHashCatT reset key)"
  by (simp add: cat_holds_def new_HighwayHashCatT_def ZeroInitialize_def update_packets_short)

lemma holds_reset: "cat_holds upd s0 bs h \<Longrightarrow> cat_holds upd (reset key) [] (cat_Reset reset key h)"
  by (simp add: cat_holds_def cat_Reset_def update_packets_short)

lemma holds_append:
  assumes "cat_holds upd s0 bs h"
  shows "cat_holds upd s0 (bs @ new) (cat_Append upd append_upd new h)"
proof -
  let ?u = "hc_buffer_usage h" and ?b = "hc_buffer h"
  have h: "length ?b = 32" "?u < 32" "update_packets upd s0 bs = (hc_state h, take ?u ?b)"
    using assms by (simp_all add: cat_holds_def)
  have next_state: "update_packets upd s0 (bs @ new) = update_packets upd (hc_state h) (take ?u ?b @ new)"
    unfolding update_packets_append[of upd s0 bs new] h(3) by simp
  show ?thesis
  proof (cases "length new < 32 - ?u")
    case True
    then show ?thesis
      using h(1,2) next_state overwrite_props[of ?u new ?b]
      by (simp add: cat_holds_def cat_Append_def AppendPartial_def update_packets_short)
  next
    case False
    obtain s1 r where r: "update_packets upd (hc_state h) (take ?u ?b @ new) = (s1, r)" by fastforce
    have r_short: "length r < 32"
      using update_packets_rest[of upd "hc_state h" "take ?u ?b @ new"] r by simp
    have split: "take 32 (take ?u ?b @ new) = take ?u ?b @ take (32 - ?u) new"
      "drop 32 (take ?u ?b @ new) = drop (32 - ?u) new" and long: "32 \<le> length (take ?u ?b @ new)"
      using False h(1,2) by simp_all
    have joined: "append_upd (hc_state h) (take (32 - ?u) new) ?b ?u = upd (hc_state h) (take ?u ?b @ take (32 - ?u) new)"
      using False h(1,2) by (intro append_joins) simp_all
    have "update_packets upd (append_upd (hc_state h) (take (32 - ?u) new) ?b ?u) (drop (32 - ?u) new) = (s1, r)"
      using r unfolding update_packets_long[OF long] split joined .
    moreover have "?u = 0 \<Longrightarrow> update_packets upd (hc_state h) new = (s1, r)" using r by simp
    ultimately show ?thesis
      using False r r_short h(1) next_state overwrite_props[of 0 r ?b]
      by (simp add: cat_holds_def cat_Append_def CopyPartial_def Let_def)
  qed
qed

lemma holds_finalize:
  assumes "cat_holds upd s0 bs h"
  shows "cat_Finalize upd_rem fin h = HighwayHashT upd upd_rem fin s0 bs"
proof -
  let ?u = "hc_buffer_usage h" and ?b = "hc_buffer h"
  have h: "length (take ?u ?b) = ?u" "update_packets upd s0 bs = (hc_state h, take ?u ?b)"
    using assms by (simp_all add: cat_holds_def)
  have "upd_rem (hc_state h) ?b ?u = upd_rem (hc_state h) (take ?u ?b) ?u"
    using remainder_local[of "hc_state h" "take ?u ?b" "drop ?u ?b"] unfolding h(1) append_take_drop_id .
  then show ?thesis using h by (auto simp: cat_Finalize_def HighwayHashT_def)
qed

end

section \<open>The portable state\<close>

text \<open>\<open>UpdateRemainder\<close> looks at the valid bytes only, though it reads some of them twice.\<close>

lemma bit_4_ge: "bit n 4 \<Longrightarrow> 16 \<le> n" for n :: nat
  by (rule ccontr) (simp add: bit_iff_odd)

lemma Load3_unordered_local: "Load3_unordered (bs @ rest) (length bs) = Load3_unordered bs (length bs)"
proof (cases "bs = []")
  case False
  then have "0 < length bs" "length bs div 2 < length bs" "length bs - 1 < length bs" by simp_all
  then show ?thesis by (simp add: Load3_unordered_def nth_append)
qed (simp add: Load3_unordered_def)

lemma remainder_packet_local: "remainder_packet (bs @ rest) (length bs) = remainder_packet bs (length bs)"
proof -
  let ?n = "length bs"
  have d: "drop (?n - ?n mod 4) (bs @ rest) = drop (?n - ?n mod 4) bs @ rest"
    "length (drop (?n - ?n mod 4) bs) = ?n mod 4" by simp_all
  have "Load3_read_before (bs @ rest) ?n = Load3_read_before bs ?n" if "16 \<le> ?n"
    using that by (simp add: Load3_read_before_def)
  then show ?thesis
    using Load3_unordered_local[of "drop (?n - ?n mod 4) bs" rest] bit_4_ge[of ?n]
    unfolding remainder_packet_def Let_def d by (simp add: d(2))
qed

lemma UpdateRemainder_local: "UpdateRemainder s (bs @ rest) (length bs) = UpdateRemainder s bs (length bs)"
  by (simp add: UpdateRemainder_def remainder_packet_local)

interpretation portable: packet_state Update AppendAndUpdate UpdateRemainder
  by unfold_locales (simp_all add: AppendAndUpdate_def UpdateRemainder_local)

text \<open>What can be done with a hasher, and the data it then stands for: the bytes since the last reset.\<close>

datatype cat_op = Cat_Reset lanes | Cat_Append bytes

fun cat_step :: "cat_op \<Rightarrow> hh_state hash_cat \<Rightarrow> hh_state hash_cat" where
  "cat_step (Cat_Reset key) h = cat_Reset Reset key h"
| "cat_step (Cat_Append bytes) h = cat_Append Update AppendAndUpdate bytes h"

fun cat_data :: "cat_op \<Rightarrow> lanes \<times> bytes \<Rightarrow> lanes \<times> bytes" where
  "cat_data (Cat_Reset key) d = (key, [])"
| "cat_data (Cat_Append bytes) (key, bs) = (key, bs @ bytes)"

lemma cat_step_holds:
  "cat_holds Update (Reset (fst d)) (snd d) h \<Longrightarrow>
   cat_holds Update (Reset (fst (cat_data op d))) (snd (cat_data op d)) (cat_step op h)"
  by (cases op; cases d) (auto intro: portable.holds_reset portable.holds_append)

lemma cat_steps_hold:
  "cat_holds Update (Reset (fst d)) (snd d) h \<Longrightarrow>
   cat_holds Update (Reset (fst (fold cat_data ops d))) (snd (fold cat_data ops d)) (fold cat_step ops h)"
  by (induction ops arbitrary: d h) (simp_all add: cat_step_holds)

text \<open>
  C34  Hashing in pieces is hashing at once.  Whatever a hasher is given, in pieces of any sizes
  and with any resets in between, \<open>Finalize\<close> returns what \<open>HighwayHashT\<close> computes of the
  concatenation of the pieces since the last reset, under the key of that reset; this holds of each
  of the three results.
\<close>

theorem streamed_hash_is_one_shot:
  "let h = fold cat_step ops (new_HighwayHashCatT Reset key);
       (key', data) = fold cat_data ops (key, [])
   in cat_Finalize UpdateRemainder Finalize64 h = highway_hash64 key' data \<and>
      cat_Finalize UpdateRemainder Finalize128 h = highway_hash128 key' data \<and>
      cat_Finalize UpdateRemainder Finalize256 h = highway_hash256 key' data"
proof -
  obtain key' data where d: "fold cat_data ops (key, []) = (key', data)" by fastforce
  have "cat_holds Update (Reset key') data (fold cat_step ops (new_HighwayHashCatT Reset key))"
    using cat_steps_hold[of "(key, [])" "new_HighwayHashCatT Reset key" ops] portable.holds_new d by simp
  then show ?thesis
    by (simp add: d portable.holds_finalize highway_hash64_def highway_hash128_def highway_hash256_def)
qed

end
