(* ===== verification/Hash_Bounds.thy ===== *)
theory Hash_Bounds
  imports Hash_Streaming
begin

text \<open>
  That the portable HighwayHash stays inside its arrays, and that the packet into which it pads the
  last bytes of the data still determines them: \<open>UpdateRemainder\<close>, \<open>CopyPartial\<close> and \<open>Load3\<close>.
  The models use lists for the arrays; that every list has the length of its array is proved here.
\<close>

section \<open>Lanes\<close>

definition hh_wf :: "hh_state \<Rightarrow> bool" where
  "hh_wf s \<longleftrightarrow> length (v0 s) = 4 \<and> length (v1 s) = 4 \<and> length (mul0 s) = 4 \<and> length (mul1 s) = 4"

lemma init_lengths [simp]: "length init0 = 4" "length init1 = 4"
  by (simp_all add: init0_def init1_def)

lemma Reset_wf [simp]: "length key = 4 \<Longrightarrow> hh_wf (Reset key)"
  by (simp add: hh_wf_def Reset_def Let_def)

lemma zipper_lanes_length [simp]: "length (zipper_lanes from dest) = 4"
  by (simp add: zipper_lanes_def split: prod.split)

lemma Update_lanes_wf: "hh_wf s \<Longrightarrow> length p = 4 \<Longrightarrow> hh_wf (Update_lanes s p)"
  by (simp add: hh_wf_def Update_lanes_def lane_loop_def Let_def)

lemma Update_wf [simp]: "hh_wf s \<Longrightarrow> hh_wf (Update s packet)"
  by (simp add: Update_def Update_lanes_wf packet_lanes_def)

lemma UpdateRemainder_wf [simp]: "hh_wf s \<Longrightarrow> hh_wf (UpdateRemainder s bs n)"
  unfolding UpdateRemainder_def Let_def by (rule Update_wf) (simp add: hh_wf_def Rotate32By_def)

lemma PermuteAndUpdate_wf: "hh_wf s \<Longrightarrow> hh_wf (PermuteAndUpdate s)"
  by (simp add: PermuteAndUpdate_def Update_lanes_wf Permute_def)

lemma rounds_wf [simp]: "hh_wf s \<Longrightarrow> hh_wf ((PermuteAndUpdate ^^ n) s)"
  by (induction n) (simp_all add: PermuteAndUpdate_wf)

lemma update_packets_wf: "hh_wf s \<Longrightarrow> hh_wf (fst (update_packets Update s bs))"
proof (induction Update s bs rule: update_packets.induct)
  case (1 s bs)
  show ?case
  proof (cases "32 \<le> length bs")
    case True
    with 1 show ?thesis by (simp only: update_packets_long[OF True] Update_wf)
  qed (simp add: update_packets_short 1)
qed

section \<open>The padded packet\<close>

lemma le_bytes_length [simp]: "length (le_bytes n w) = n"
  by (induction n arbitrary: w) simp_all

lemma overwrite_length [simp]: "off + length bs \<le> length p \<Longrightarrow> length (overwrite off bs p) = length p"
  by (simp add: overwrite_def)

lemma bit_4_iff: "n < 32 \<Longrightarrow> bit n 4 \<longleftrightarrow> 16 \<le> n" for n :: nat
  by (simp add: bit_iff_odd) presburger

text \<open>Where the copied bytes end, before the four or eight bytes that pad them.\<close>

lemma copied_in_packet: "n < 32 \<Longrightarrow> n - n mod 4 \<le> (if bit n 4 then 28 else 16)" for n :: nat
  by (auto simp: bit_4_iff) presburger+

lemma remainder_packet_length: "length bs < 32 \<Longrightarrow> length (remainder_packet bs (length bs)) = 32"
  using copied_in_packet[of "length bs"] by (simp add: remainder_packet_def Let_def)

section \<open>The padding determines the bytes\<close>

lemma bit_le_word: "bit (le_word bs :: 'a::len word) i \<Longrightarrow> i < 8 * length bs"
proof (induction bs arbitrary: i)
  case (Cons b bs)
  show ?case
  proof (cases "i < 8")
    case False
    then have "bit (le_word bs :: 'a word) (i - 8)" using Cons.prems by (auto simp: bit_simps dest: bit_imp_le_length)
    from Cons.IH[OF this] show ?thesis using False by simp
  qed simp
qed simp

lemma le_bytes_le_word: "8 * length bs \<le> LENGTH('a) \<Longrightarrow> le_bytes (length bs) (le_word bs :: 'a::len word) = bs"
proof (induction bs)
  case (Cons b bs)
  let ?w = "(ucast b OR push_bit 8 (le_word bs)) :: 'a word"
  have "ucast ?w = b" using Cons.prems by (intro bit_word_eqI) (auto simp: bit_simps)
  moreover have "drop_bit 8 ?w = le_word bs"
    using Cons.prems by (intro bit_word_eqI) (auto simp: bit_simps dest: bit_imp_le_length bit_le_word)
  ultimately show ?case using Cons by simp
qed simp

lemma bit_le_word_le_bytes: "bit (le_word (le_bytes n w) :: 'a word) i \<longleftrightarrow> i < 8 * n \<and> bit w i" for w :: "'a::len word"
proof (induction n arbitrary: w i)
  case (Suc n)
  show ?case using bit_imp_le_length[of w i] by (cases "i < 8") (auto simp: bit_simps Suc)
qed simp

lemma le_bytes_eqD: "le_bytes n v = le_bytes n w \<Longrightarrow> LENGTH('a) \<le> 8 * n \<Longrightarrow> v = w" for v w :: "'a::len word"
  by (rule bit_word_eqI) (metis bit_le_word_le_bytes less_le_trans)

lemma overwrite_parts:
  assumes "off + length bs \<le> length p"
  shows "take off (overwrite off bs p) = take off p" and "take (length bs) (drop off (overwrite off bs p)) = bs"
  using assms by (simp_all add: overwrite_def)

lemma three_digits:
  fixes a b c a' b' c' :: int
  assumes "a + 256 * b + 65536 * c = a' + 256 * b' + 65536 * c'"
    and "0 \<le> a" "a < 256" "0 \<le> a'" "a' < 256" "0 \<le> b" "b < 256" "0 \<le> b'" "b' < 256"
  shows "a = a' \<and> b = b' \<and> c = c'"
proof -
  have "(a + 256 * (b + 256 * c)) mod 256 = (a' + 256 * (b' + 256 * c')) mod 256"
    using assms(1) by (simp add: algebra_simps)
  then have a: "a = a'" using assms(2-5) by (simp only: mod_mult_self2 mod_pos_pos_trivial)
  then have "b + 256 * c = b' + 256 * c'" using assms(1) by linarith
  then have "(b + 256 * c) mod 256 = (b' + 256 * c') mod 256" by simp
  then have "b = b'" using assms(6-9) by (simp only: mod_mult_self2 mod_pos_pos_trivial)
  with a show ?thesis using assms(1) by simp
qed

lemma uint_three_bytes:
  "uint ((ucast a :: u64) + push_bit 8 (ucast b) + push_bit 16 (ucast c)) = uint a + 256 * uint b + 65536 * uint c"
  for a b c :: u8
proof -
  have "uint a < 256" "uint b < 256" "uint c < 256" using uint_lt2p[of a] uint_lt2p[of b] uint_lt2p[of c] by simp_all
  then have "0 \<le> uint a + 256 * uint b + 65536 * uint c" "uint a + 256 * uint b + 65536 * uint c < 2 ^ 64" by simp_all
  moreover have "(ucast a :: u64) + push_bit 8 (ucast b) + push_bit 16 (ucast c) =
      word_of_int (uint a + 256 * uint b + 65536 * uint c)"
    by (simp add: push_bit_eq_mult mult.commute)
  moreover have "uint (word_of_int z :: u64) = z" if "0 \<le> z" "z < 2 ^ 64" for z
    using that by (simp add: uint_word_of_int)
  ultimately show ?thesis by metis
qed

lemma three_bytes_inj:
  fixes a b c :: u8
  assumes "(ucast a :: u64) + push_bit 8 (ucast b) + push_bit 16 (ucast c) =
      ucast a' + push_bit 8 (ucast b') + push_bit 16 (ucast c')"
  shows "a = a' \<and> b = b' \<and> c = c'"
proof -
  have "uint a + 256 * uint b + 65536 * uint c = uint a' + 256 * uint b' + 65536 * uint c'"
    using arg_cong[OF assms, of uint] unfolding uint_three_bytes .
  from three_digits[OF this] show ?thesis
    using uint_lt2p[of a] uint_lt2p[of b] uint_lt2p[of a'] uint_lt2p[of b'] by (simp add: word_uint_eq_iff)
qed

lemma overwrite_before: "k \<le> off \<Longrightarrow> off \<le> length p \<Longrightarrow> take k (overwrite off bs p) = take k p"
  by (simp add: overwrite_def)

lemma Load3_unordered_inj:
  assumes eq: "Load3_unordered a m = Load3_unordered b m" and "m \<le> 3" and "length a = m" and "length b = m"
  shows "a = b"
proof (cases "m = 0")
  case False
  then have "a ! 0 = b ! 0 \<and> a ! (m div 2) = b ! (m div 2) \<and> a ! (m - 1) = b ! (m - 1)"
    using eq three_bytes_inj by (simp add: Load3_unordered_def)
  moreover have "i = 0 \<or> i = m div 2 \<or> i = m - 1" if "i < m" for i using that \<open>m \<le> 3\<close> by presburger
  ultimately show ?thesis using assms(3,4) by (intro nth_equalityI) metis+
qed (use assms in simp)

lemma remainder_packet_cases:
  assumes "length bs < 32"
  defines "n \<equiv> length bs"
  shows "take (n - n mod 4) (remainder_packet bs n) = take (n - n mod 4) bs"
    and "16 \<le> n \<Longrightarrow> take 4 (drop 28 (remainder_packet bs n)) = drop (n - 4) bs"
    and "n < 16 \<Longrightarrow> take 8 (drop 16 (remainder_packet bs n)) = le_bytes 8 (Load3_unordered (drop (n - n mod 4) bs) (n mod 4))"
proof -
  let ?p = "overwrite 0 (take (n - n mod 4) bs) (replicate 32 0)"
  have n: "n < 32" using assms by simp
  have p: "length ?p = 32" "take (n - n mod 4) ?p = take (n - n mod 4) bs"
    using n overwrite_parts(2)[of 0 "take (n - n mod 4) bs" "replicate 32 0"] by (simp_all add: n_def)
  show "take (n - n mod 4) (remainder_packet bs n) = take (n - n mod 4) bs"
    using p copied_in_packet[OF n]
    by (cases "bit n 4") (simp_all add: remainder_packet_def Let_def overwrite_before flip: n_def)
  show "take 4 (drop 28 (remainder_packet bs n)) = drop (n - 4) bs" if "16 \<le> n"
  proof -
    have "le_bytes 4 (Load3_read_before bs n) = drop (n - 4) bs"
      using that le_bytes_le_word[of "drop (n - 4) bs", where 'a = 32] by (simp add: Load3_read_before_def n_def)
    then show ?thesis
      using that n p(1) overwrite_parts(2)[of 28 "le_bytes 4 (Load3_read_before bs n)" ?p]
      by (simp add: remainder_packet_def Let_def bit_4_iff flip: n_def)
  qed
  show "take 8 (drop 16 (remainder_packet bs n)) = le_bytes 8 (Load3_unordered (drop (n - n mod 4) bs) (n mod 4))" if "n < 16"
    using that n p(1) overwrite_parts(2)[of 16 "le_bytes 8 (Load3_unordered (drop (n - n mod 4) bs) (n mod 4))" ?p]
    by (simp add: remainder_packet_def Let_def bit_4_iff flip: n_def)
qed

text \<open>
  C37  The padding of the last bytes loses nothing.  Two remainders of the same length below one
  packet that are padded to the same packet are the same bytes: what \<open>CopyPartial\<close> copies, the
  last four bytes that \<open>Load3\<close> reads from before the end, and its unordered read of up to three
  bytes, which reads some of them twice, together determine the data.
\<close>

theorem padding_keeps_bytes:
  assumes "length a < 32" and "length b = length a" and eq: "remainder_packet a (length a) = remainder_packet b (length b)"
  shows "a = b"
proof -
  let ?n = "length a"
  note eq = eq[unfolded assms(2)]
  note a = remainder_packet_cases[OF assms(1)] and b = remainder_packet_cases[of b, unfolded assms(2), OF assms(1)]
  have prefix: "take (?n - ?n mod 4) a = take (?n - ?n mod 4) b" using a(1) b(1) eq by simp
  show ?thesis
  proof (cases "16 \<le> ?n")
    case True
    then have "drop (?n - 4) a = drop (?n - 4) b" using a(2) b(2) eq by simp
    moreover have "take (?n - 4) a = take (?n - 4) b"
    proof -
      have "?n mod 4 \<le> 4" by simp
      then have "min (?n - 4) (?n - ?n mod 4) = ?n - 4" by linarith
      then show ?thesis using arg_cong[OF prefix, of "take (?n - 4)"] by simp
    qed
    ultimately show ?thesis by (metis append_take_drop_id)
  next
    case False
    then have "le_bytes 8 (Load3_unordered (drop (?n - ?n mod 4) a) (?n mod 4)) =
        le_bytes 8 (Load3_unordered (drop (?n - ?n mod 4) b) (?n mod 4))"
      using a(3) b(3) eq by simp
    then have "Load3_unordered (drop (?n - ?n mod 4) a) (?n mod 4) = Load3_unordered (drop (?n - ?n mod 4) b) (?n mod 4)"
      by (rule le_bytes_eqD) simp
    then have "drop (?n - ?n mod 4) a = drop (?n - ?n mod 4) b"
      by (rule Load3_unordered_inj) (simp_all add: assms(2))
    with prefix show ?thesis by (metis append_take_drop_id)
  qed
qed

theorem padding_keeps_bytes_witness:
  "remainder_packet [1, 2, 3, 4, 5] 5 = remainder_packet (map of_nat [1..<6]) 5 \<and>
   [1, 2, 3, 4, 5] = (map of_nat [1..<6] :: bytes)"
proof
  have e: "map of_nat [1..<6] = ([1, 2, 3, 4, 5] :: bytes)" by (simp add: upt_rec)
  show "remainder_packet [1, 2, 3, 4, 5] 5 = remainder_packet (map of_nat [1..<6]) 5" unfolding e ..
  show "[1, 2, 3, 4, 5] = (map of_nat [1..<6] :: bytes)"
    by (rule padding_keeps_bytes) (simp_all add: upt_rec)
qed

section \<open>A hasher in use\<close>

fun valid_op :: "cat_op \<Rightarrow> bool" where
  "valid_op (Cat_Reset key) = (length key = 4)"
| "valid_op (Cat_Append bytes) = True"

lemma cat_data_key: "length (fst d) = 4 \<Longrightarrow> list_all valid_op ops \<Longrightarrow> length (fst (fold cat_data ops d)) = 4"
proof (induction ops arbitrary: d)
  case (Cons op ops)
  then show ?case by (cases op; cases d) auto
qed simp

text \<open>
  C36  A hasher stays inside its arrays.  Whatever pieces and resets it is given, with keys of
  four lanes, its state is four lanes of each vector and its buffer one packet of 32 bytes that is
  never full; and when it is finalized, the padded packet is built inside its 32 bytes and from
  the valid bytes alone: whatever lies behind them in memory, \<open>CopyPartial\<close> and \<open>Load3\<close> give the same
  packet and \<open>Finalize\<close> the same three results, and the state keeps its shape through every
  number of rounds.
\<close>

theorem hasher_stays_in_bounds:
  assumes "length key = 4" and "list_all valid_op ops"
  shows "let h = fold cat_step ops (new_HighwayHashCatT Reset key);
      n = hc_buffer_usage h; bs = take n (hc_buffer h)
   in hh_wf (hc_state h) \<and> length (hc_buffer h) = 32 \<and> n < 32 \<and>
      length (remainder_packet (hc_buffer h) n) = 32 \<and>
      (\<forall>rest. remainder_packet (bs @ rest) n = remainder_packet bs n \<and>
         cat_Finalize UpdateRemainder Finalize64 (h\<lparr>hc_buffer := bs @ rest\<rparr>) = cat_Finalize UpdateRemainder Finalize64 h \<and>
         cat_Finalize UpdateRemainder Finalize128 (h\<lparr>hc_buffer := bs @ rest\<rparr>) = cat_Finalize UpdateRemainder Finalize128 h \<and>
         cat_Finalize UpdateRemainder Finalize256 (h\<lparr>hc_buffer := bs @ rest\<rparr>) = cat_Finalize UpdateRemainder Finalize256 h) \<and>
      (\<forall>k. hh_wf ((PermuteAndUpdate ^^ k) (UpdateRemainder (hc_state h) (hc_buffer h) n)))"
proof -
  let ?h = "fold cat_step ops (new_HighwayHashCatT Reset key)"
  let ?n = "hc_buffer_usage ?h"
  let ?bs = "take ?n (hc_buffer ?h)"
  obtain key' data where d: "fold cat_data ops (key, []) = (key', data)" by fastforce
  have "length key' = 4" using cat_data_key[of "(key, [])" ops] assms d by simp
  moreover have h: "cat_holds Update (Reset key') data ?h"
    using cat_steps_hold[of "(key, [])" "new_HighwayHashCatT Reset key" ops] portable.holds_new d by simp
  ultimately have wf: "hh_wf (hc_state ?h)"
    using update_packets_wf[of "Reset key'" data] by (simp add: cat_holds_def)
  have n: "length (hc_buffer ?h) = 32" "?n < 32" using h by (simp_all add: cat_holds_def)
  then have bs: "length ?bs = ?n" by simp
  note local = remainder_packet_local[of ?bs, unfolded bs] UpdateRemainder_local[of _ ?bs, unfolded bs]
  have buffer: "remainder_packet (hc_buffer ?h) ?n = remainder_packet ?bs ?n"
    "UpdateRemainder s (hc_buffer ?h) ?n = UpdateRemainder s ?bs ?n" for s
    using local(1)[of "drop ?n (hc_buffer ?h)"] local(2)[of s "drop ?n (hc_buffer ?h)"] by simp_all
  have "length (remainder_packet ?bs ?n) = 32" using remainder_packet_length[of ?bs] n bs by simp
  then show ?thesis
    using wf n by (simp add: Let_def buffer local cat_Finalize_def)
qed

theorem hasher_stays_in_bounds_witness:
  "hh_wf (hc_state (fold cat_step [Cat_Append [1, 2, 3], Cat_Reset [1, 2, 3, 4], Cat_Append [4]]
     (new_HighwayHashCatT Reset [0, 0, 0, 0])))"
  using hasher_stays_in_bounds[of "[0, 0, 0, 0]" "[Cat_Append [1, 2, 3], Cat_Reset [1, 2, 3, 4], Cat_Append [4]]"]
  unfolding Let_def by simp

end
