(* ===== verification/Url_Shortening.thy ===== *)
theory Url_Shortening
  imports Highway_Hash
begin

text \<open>
  The routines of \<^verbatim>\<open>url_shortener/url_shortening.cc\<close>: the alphabet of slugs and the
  recognisers of request paths.
\<close>

section \<open>Alphabet and request paths\<close>

definition alphabet :: string where
  "alphabet = ''123456789ABCDEFGHJKLMNPQRSTUVWXYZabcdefghijkmnopqrstuvwxyz''"

definition max_request_str_len :: nat where
  "max_request_str_len = 1000"

definition shortened_url_len :: nat where
  "shortened_url_len = 7"

text \<open>The inner loop of \<open>is_ok_request_path\<close>: advance \<open>j\<close> to the first occurrence of the character.\<close>

function scan_alphabet :: "char \<Rightarrow> nat \<Rightarrow> nat" where
  "scan_alphabet c j =
     (if j < length alphabet \<and> c \<noteq> alphabet ! j then scan_alphabet c (Suc j) else j)"
  by pat_completeness auto
termination by (relation "measure (\<lambda>(c, j). length alphabet - j)") auto

declare scan_alphabet.simps [simp del]

text \<open>The outer loop, from index \<open>i\<close> on; the first illegal character returns \<open>false\<close>.\<close>

function ok_path_from :: "string \<Rightarrow> nat \<Rightarrow> bool" where
  "ok_path_from src i =
     (if i < length src
      then (if scan_alphabet (src ! i) 0 = length alphabet then False else ok_path_from src (Suc i))
      else True)"
  by pat_completeness auto
termination by (relation "measure (\<lambda>(src, i). length src - i)") auto

declare ok_path_from.simps [simp del]

definition is_ok_request_path :: "string \<Rightarrow> bool" where
  "is_ok_request_path src =
     (if length src > max_request_str_len then False else ok_path_from src 0)"

text \<open>The inner loop of \<open>parse_out_request_str\<close>: is the character in the alphabet?\<close>

function included_from :: "char \<Rightarrow> nat \<Rightarrow> bool" where
  "included_from c j =
     (if j < length alphabet
      then (if alphabet ! j = c then True else included_from c (Suc j))
      else False)"
  by pat_completeness auto
termination by (relation "measure (\<lambda>(c, j). length alphabet - j)") auto

declare included_from.simps [simp del]

text \<open>
  The scan of \<open>parse_out_request_str\<close> over the characters after the leading slash: the
  characters in front of the end or of a question mark, or None at an illegal symbol.
\<close>

fun scan_request :: "string \<Rightarrow> string option" where
  "scan_request [] = Some []"
| "scan_request (c # cs) =
     (if included_from c 0 then map_option ((#) c) (scan_request cs)
      else if c = CHR ''?'' then Some []
      else None)"

text \<open>\<open>*it\<close> on an empty view reads past its end.\<close>

definition parse_out_request_str :: "string \<Rightarrow> string res" where
  "parse_out_request_str src =
     (if length src > max_request_str_len then Inr []
      else case src of
             [] \<Rightarrow> Inl Undefined
           | c # cs \<Rightarrow>
               (if c \<noteq> CHR ''/'' then Inr []
                else (case scan_request cs of None \<Rightarrow> Inr [] | Some s \<Rightarrow> Inr s)))"

section \<open>The hash key\<close>

text \<open>
  \<^verbatim>\<open>std::stoull(s, nullptr, 16)\<close>: white space, an optional sign, an optional 0x prefix, then
  the longest run of hexadecimal digits.  No digit: \<open>invalid_argument\<close>; a value above
  $2^{64}-1$: \<open>out_of_range\<close>; a minus sign negates modulo $2^{64}$.
\<close>

definition is_space :: "char \<Rightarrow> bool" where
  "is_space c \<longleftrightarrow> c = CHR '' '' \<or> (9 \<le> (of_char c :: nat) \<and> (of_char c :: nat) \<le> 13)"

definition hex_val :: "char \<Rightarrow> nat option" where
  "hex_val c =
     (let n = (of_char c :: nat)
      in if 48 \<le> n \<and> n \<le> 57 then Some (n - 48)
         else if 97 \<le> n \<and> n \<le> 102 then Some (n - 87)
         else if 65 \<le> n \<and> n \<le> 70 then Some (n - 55)
         else None)"

fun hex_digits :: "string \<Rightarrow> nat list" where
  "hex_digits [] = []"
| "hex_digits (c # cs) = (case hex_val c of None \<Rightarrow> [] | Some d \<Rightarrow> d # hex_digits cs)"

definition from_hex :: "nat list \<Rightarrow> nat" where
  "from_hex ds = foldl (\<lambda>acc d. 16 * acc + d) 0 ds"

definition strip_0x :: "string \<Rightarrow> string" where
  "strip_0x s =
     (case s of
        c # x # d # rest \<Rightarrow>
          (if c = CHR ''0'' \<and> (x = CHR ''x'' \<or> x = CHR ''X'') \<and> hex_val d \<noteq> None then d # rest else s)
      | _ \<Rightarrow> s)"

definition stoull16 :: "string \<Rightarrow> u64 res" where
  "stoull16 s =
     (let t = dropWhile is_space s;
          neg = (t \<noteq> [] \<and> hd t = CHR ''-'');
          u = (if t \<noteq> [] \<and> (hd t = CHR ''-'' \<or> hd t = CHR ''+'') then tl t else t);
          ds = hex_digits (strip_0x u);
          n = from_hex ds
      in if ds = [] then Inl (Throws Invalid_Argument)
         else if n \<ge> 2 ^ 64 then Inl (Throws Out_Of_Range)
         else Inr (if neg then - of_nat n else of_nat n))"

text \<open>The four iterations read the sixteen characters from index \<open>i * 16\<close> on.\<close>

definition create_highwayhash_key :: "string \<Rightarrow> u64 list res" where
  "create_highwayhash_key src =
     (if 64 \<noteq> length src then Inl (Throws Invalid_Argument)
      else res_list (map (\<lambda>i. stoull16 (take 16 (drop (i * 16) src))) [0, 1, 2, 3]))"

section \<open>Slugs of a fixed configuration\<close>

text \<open>
  \<open>generate_shortened_url\<close> hashes the characters from \<open>src.data()\<close> to the first null
  character.  \<open>mem\<close> is the readable memory at \<open>src.data()\<close>: without a null in it \<open>strlen\<close>
  reads past its end.
\<close>

definition c_strlen :: "string \<Rightarrow> nat res" where
  "c_strlen mem =
     (if CHR 0x00 \<in> set mem then Inr (length (takeWhile (\<lambda>c. c \<noteq> CHR 0x00) mem)) else Inl Undefined)"

text \<open>The output loop: \<open>n\<close> characters, least significant digit of \<open>result\<close> first.\<close>

fun emit_digits :: "nat \<Rightarrow> u64 \<Rightarrow> string" where
  "emit_digits 0 result = []"
| "emit_digits (Suc n) result =
     alphabet ! unat (result mod of_nat (length alphabet)) # emit_digits n (result div of_nat (length alphabet))"

definition generate_shortened_url :: "string \<Rightarrow> u64 list \<Rightarrow> string res" where
  "generate_shortened_url mem highwayhash_key =
     res_map (\<lambda>size. emit_digits shortened_url_len
                       (highway_hash64 highwayhash_key (bytes_of_string (take size mem))))
             (c_strlen mem)"

section \<open>The configurable slug generator\<close>

record UrlShorteningConfig =
  usc_slug_length :: u8
  usc_alphabet :: string
  usc_highwayhash_key :: "u64 list"

text \<open>The constructor copies four words of the key.\<close>

definition new_UrlShorteningConfig :: "string \<Rightarrow> u8 \<Rightarrow> u64 list \<Rightarrow> UrlShorteningConfig" where
  "new_UrlShorteningConfig alphabet0 slug_length key =
     \<lparr>usc_slug_length = slug_length, usc_alphabet = alphabet0,
      usc_highwayhash_key = [key ! 0, key ! 1, key ! 2, key ! 3]\<rparr>"

text \<open>
  One iteration of the inner loop of \<open>generate_slug\<close> on \<open>(result, result_idx, dst)\<close>.
  \<open>Inr None\<close> is \<open>return false\<close>.  The faults are the read of \<open>result[4]\<close>, the division by
  an empty alphabet's length, and the read past the end of the file's \<open>alphabet\<close>: the index
  is taken modulo the length of the member \<open>alphabet_\<close>, the character from the namespace's
  constant \<open>alphabet\<close>.
\<close>

type_synonym slug_state = "u64 list \<times> nat \<times> string"

definition slug_char :: "nat \<Rightarrow> slug_state \<Rightarrow> slug_state option res" where
  "slug_char alphabet_len st =
     (case st of (result, result_idx, dst) \<Rightarrow>
        if 4 \<le> result_idx then Inl Undefined
        else
          (let idx = (if result ! result_idx = 0 then result_idx + 1 else result_idx)
           in if result ! result_idx = 0 \<and> 4 < idx then Inr None
              else if 4 \<le> idx then Inl Undefined
              else if alphabet_len = 0 then Inl Undefined
              else
                (let alphabet_idx = unat (result ! idx mod of_nat alphabet_len)
                 in if length alphabet \<le> alphabet_idx then Inl Undefined
                    else Inr (Some (result[idx := result ! idx div of_nat alphabet_len], idx,
                                    dst @ [alphabet ! alphabet_idx])))))"

text \<open>\<open>for (i = 0; i < slug_length_; ++i)\<close>, with the number of iterations left.\<close>

fun slug_for :: "nat \<Rightarrow> nat \<Rightarrow> slug_state \<Rightarrow> slug_state option res" where
  "slug_for alphabet_len 0 st = Inr (Some st)"
| "slug_for alphabet_len (Suc n) st =
     res_bind (slug_char alphabet_len st)
       (\<lambda>r. case r of None \<Rightarrow> Inr None | Some st' \<Rightarrow> slug_for alphabet_len n st')"

text \<open>\<open>while (nth_try-- > 0)\<close>, with the number of rounds left.\<close>

fun slug_while :: "nat \<Rightarrow> nat \<Rightarrow> nat \<Rightarrow> slug_state \<Rightarrow> slug_state option res" where
  "slug_while alphabet_len slug_length 0 st = Inr (Some st)"
| "slug_while alphabet_len slug_length (Suc n) st =
     (case st of (result, result_idx, dst) \<Rightarrow>
        res_bind (slug_for alphabet_len slug_length (result, result_idx, []))
          (\<lambda>r. case r of None \<Rightarrow> Inr None | Some st' \<Rightarrow> slug_while alphabet_len slug_length n st'))"

text \<open>The result is the returned flag and, when it is true, the contents of \<open>dst\<close>.\<close>

definition generate_slug :: "UrlShorteningConfig \<Rightarrow> string \<Rightarrow> string \<Rightarrow> u8 \<Rightarrow> string option res" where
  "generate_slug cfg dst long_url nth_try =
     (let result = highway_hash256 (usc_highwayhash_key cfg) (bytes_of_string long_url)
      in res_map (map_option (\<lambda>(result, result_idx, dst). dst))
           (slug_while (length (usc_alphabet cfg)) (unat (usc_slug_length cfg)) (unat nth_try) (result, 0, dst)))"

subsection \<open>The loops are membership tests\<close>

lemma scan_alphabet_spec:
  "j \<le> length alphabet \<Longrightarrow> (scan_alphabet c j = length alphabet) = (c \<notin> set (drop j alphabet))"
proof (induction c j rule: scan_alphabet.induct)
  case (1 c j)
  show ?case
  proof (cases "j < length alphabet")
    case True
    then show ?thesis
      using 1 by (subst scan_alphabet.simps) (auto simp: Cons_nth_drop_Suc[symmetric])
  next
    case False
    then show ?thesis using 1 by (subst scan_alphabet.simps) simp
  qed
qed

lemma included_from_spec: "included_from c j = (c \<in> set (drop j alphabet))"
proof (induction c j rule: included_from.induct)
  case (1 c j)
  then show ?case
    by (cases "j < length alphabet";
        subst included_from.simps) (auto simp: Cons_nth_drop_Suc[symmetric])
qed

lemma included_from_0 [simp]: "included_from c 0 = (c \<in> set alphabet)"
  by (simp add: included_from_spec)

lemma ok_path_from_spec: "ok_path_from src i = (set (drop i src) \<subseteq> set alphabet)"
proof (induction src i rule: ok_path_from.induct)
  case (1 src i)
  have scan: "(scan_alphabet (src ! i) 0 = length alphabet) = (src ! i \<notin> set alphabet)"
    using scan_alphabet_spec[of 0 "src ! i"] by simp
  show ?case
    by (cases "i < length src"; subst ok_path_from.simps)
       (use 1 scan in \<open>auto simp: Cons_nth_drop_Suc[symmetric]\<close>)
qed

lemma scan_request_Some_iff:
  "scan_request cs = Some s \<longleftrightarrow>
     set s \<subseteq> set alphabet \<and> (\<exists>q. cs = s @ q \<and> (q = [] \<or> hd q = CHR ''?''))"
proof (induction cs arbitrary: s)
  case Nil
  then show ?case by auto
next
  case (Cons c cs)
  have q: "CHR ''?'' \<notin> set alphabet"
    by (simp add: alphabet_def)
  show ?case
  proof (cases "c \<in> set alphabet")
    case True
    then show ?thesis using q by (cases s) (auto simp: Cons.IH)
  next
    case False
    then show ?thesis by (cases s) auto
  qed
qed

section \<open>The slug generator reads one stream of digits\<close>

text \<open>
  The abstract view: the four hash words, written in base \<open>b\<close> with the least significant
  digit first, form one finite stream.  A word that is zero when it becomes current
  contributes the single digit 0, except the first word, which is skipped.
\<close>

definition word_digits :: "nat \<Rightarrow> u64 \<Rightarrow> nat list" where
  "word_digits b w = (if w = 0 then [0] else digits_of b (unat w))"

definition stream_from :: "nat \<Rightarrow> u64 list \<Rightarrow> nat \<Rightarrow> nat list" where
  "stream_from b ws i =
     digits_of b (unat (ws ! i)) @ concat (map (word_digits b) (drop (Suc i) ws))"

definition slug_stream :: "UrlShorteningConfig \<Rightarrow> string \<Rightarrow> nat list" where
  "slug_stream cfg long_url =
     stream_from (length (usc_alphabet cfg))
       (highway_hash256 (usc_highwayhash_key cfg) (bytes_of_string long_url)) 0"

definition slug_at :: "UrlShorteningConfig \<Rightarrow> string \<Rightarrow> nat \<Rightarrow> string" where
  "slug_at cfg long_url k =
     map ((!) alphabet)
       (take (unat (usc_slug_length cfg))
         (drop (k * unat (usc_slug_length cfg)) (slug_stream cfg long_url)))"

text \<open>Configurations whose alphabet length is usable as a base for the file's alphabet.\<close>

definition base_ok :: "UrlShorteningConfig \<Rightarrow> bool" where
  "base_ok cfg \<longleftrightarrow> 2 \<le> length (usc_alphabet cfg) \<and> length (usc_alphabet cfg) \<le> length alphabet"

lemma length_alphabet [simp]: "length alphabet = 58"
  by (simp add: alphabet_def)

lemma mod_base_less: "0 < b \<Longrightarrow> b \<le> 58 \<Longrightarrow> n mod b < (58::nat)"
  using mod_less_divisor[of b n] by linarith

lemma unat_mod_base: "0 < b \<Longrightarrow> b \<le> 58 \<Longrightarrow> unat ((w::u64) mod of_nat b) = unat w mod b"
  by (simp add: unat_mod_distrib unat_of_nat)

lemma unat_div_base: "0 < b \<Longrightarrow> b \<le> 58 \<Longrightarrow> unat ((w::u64) div of_nat b) = unat w div b"
  by (simp add: unat_div_distrib unat_of_nat)

lemma word_digits_Cons: "2 \<le> b \<Longrightarrow> word_digits b w = unat w mod b # digits_of b (unat w div b)"
  by (auto simp: word_digits_def digits_of_pos unat_gt_0)

lemma concat_word_digits_drop:
  "2 \<le> b \<Longrightarrow> i < length ws \<Longrightarrow>
   concat (map (word_digits b) (drop i ws)) =
     (unat (ws ! i) mod b) # digits_of b (unat (ws ! i) div b) @ concat (map (word_digits b) (drop (Suc i) ws))"
  by (simp add: Cons_nth_drop_Suc[symmetric] word_digits_Cons)

lemma stream_from_update:
  "i < length ws \<Longrightarrow>
   stream_from b (ws[i := w]) i = digits_of b (unat w) @ concat (map (word_digits b) (drop (Suc i) ws))"
  by (simp add: stream_from_def)

text \<open>One iteration consumes one digit of the stream, or is undefined at its end.\<close>

lemma slug_char_step:
  assumes b: "2 \<le> b" "b \<le> 58" and ws: "length ws = 4" "i < 4"
  shows "case stream_from b ws i of
           [] \<Rightarrow> slug_char b (ws, i, dst) = Inl Undefined
         | d # ds \<Rightarrow> (\<exists>ws' i'. slug_char b (ws, i, dst) = Inr (Some (ws', i', dst @ [alphabet ! d])) \<and>
                       length ws' = 4 \<and> i' < 4 \<and> stream_from b ws' i' = ds)"
proof (cases "ws ! i = 0")
  case False
  have d: "unat (ws ! i) mod b < 58"
    using b by (intro mod_base_less) auto
  have "stream_from b ws i =
      (unat (ws ! i) mod b) # digits_of b (unat (ws ! i) div b) @ concat (map (word_digits b) (drop (Suc i) ws))"
    using False b by (simp add: stream_from_def digits_of_pos unat_gt_0)
  then show ?thesis
    using False b ws d
    by (simp add: slug_char_def Let_def unat_mod_base unat_div_base stream_from_update)
next
  case True
  show ?thesis
  proof (cases "i = 3")
    case True
    then have "drop (Suc i) ws = []" using ws by simp
    then show ?thesis
      using \<open>ws ! i = 0\<close> True ws by (simp add: stream_from_def slug_char_def Let_def)
  next
    case False
    then have i: "Suc i < 4" using ws by simp
    have d: "unat (ws ! Suc i) mod b < 58"
      using b by (intro mod_base_less) auto
    have "stream_from b ws i =
        (unat (ws ! Suc i) mod b) # digits_of b (unat (ws ! Suc i) div b) @
        concat (map (word_digits b) (drop (Suc (Suc i)) ws))"
      using True b ws i by (simp add: stream_from_def concat_word_digits_drop)
    then show ?thesis
      using True b ws i d
      by (simp add: slug_char_def Let_def unat_mod_base unat_div_base stream_from_update)
  qed
qed

lemma slug_for_ok:
  assumes b: "2 \<le> b" "b \<le> 58"
  shows "length ws = 4 \<Longrightarrow> i < 4 \<Longrightarrow> n \<le> length (stream_from b ws i) \<Longrightarrow>
    \<exists>ws' i'. slug_for b n (ws, i, dst) =
               Inr (Some (ws', i', dst @ map ((!) alphabet) (take n (stream_from b ws i)))) \<and>
             length ws' = 4 \<and> i' < 4 \<and> stream_from b ws' i' = drop n (stream_from b ws i)"
proof (induction n arbitrary: ws i dst)
  case 0
  then show ?case by simp
next
  case (Suc n)
  then obtain d ds where st: "stream_from b ws i = d # ds" "n \<le> length ds"
    by (cases "stream_from b ws i") auto
  with slug_char_step[OF b Suc.prems(1,2), of dst] obtain ws' i' where
    "slug_char b (ws, i, dst) = Inr (Some (ws', i', dst @ [alphabet ! d]))"
    "length ws' = 4" "i' < 4" "stream_from b ws' i' = ds"
    by auto
  with Suc.IH[of ws' i' "dst @ [alphabet ! d]"] st show ?case by auto
qed

lemma slug_for_short:
  assumes b: "2 \<le> b" "b \<le> 58"
  shows "length ws = 4 \<Longrightarrow> i < 4 \<Longrightarrow> length (stream_from b ws i) < n \<Longrightarrow>
    slug_for b n (ws, i, dst) = Inl Undefined"
proof (induction n arbitrary: ws i dst)
  case 0
  then show ?case by simp
next
  case (Suc n)
  show ?case
  proof (cases "stream_from b ws i")
    case Nil
    with slug_char_step[OF b Suc.prems(1,2), of dst] show ?thesis by simp
  next
    case (Cons d ds)
    with slug_char_step[OF b Suc.prems(1,2), of dst] obtain ws' i' where
      "slug_char b (ws, i, dst) = Inr (Some (ws', i', dst @ [alphabet ! d]))"
      "length ws' = 4" "i' < 4" "stream_from b ws' i' = ds"
      by auto
    with Suc.IH[of ws' i'] Suc.prems Cons show ?thesis by simp
  qed
qed

lemma slug_while_stream:
  assumes b: "2 \<le> b" "b \<le> 58"
  shows "length ws = 4 \<Longrightarrow> i < 4 \<Longrightarrow>
    res_map (map_option (\<lambda>(ws, i, dst). dst)) (slug_while b L n (ws, i, dst)) =
      (if n = 0 then Inr (Some dst)
       else if n * L \<le> length (stream_from b ws i)
       then Inr (Some (map ((!) alphabet) (take L (drop ((n - 1) * L) (stream_from b ws i)))))
       else Inl Undefined)"
proof (induction n arbitrary: ws i dst)
  case 0
  then show ?case by simp
next
  case (Suc n)
  let ?s = "stream_from b ws i"
  show ?case
  proof (cases "L \<le> length ?s")
    case False
    then show ?thesis
      using slug_for_short[OF b Suc.prems, of L "[]"] by simp
  next
    case True
    from slug_for_ok[OF b Suc.prems True, of "[]"] obtain ws' i' where
      s: "slug_for b L (ws, i, []) = Inr (Some (ws', i', map ((!) alphabet) (take L ?s)))"
        "length ws' = 4" "i' < 4" "stream_from b ws' i' = drop L ?s"
      by auto
    have "n * L \<le> length (drop L ?s) \<longleftrightarrow> Suc n * L \<le> length ?s"
      using True by auto
    moreover have "n \<noteq> 0 \<Longrightarrow> drop ((n - 1) * L) (drop L ?s) = drop (n * L) ?s"
      by (cases n) (simp_all add: add.commute)
    ultimately show ?thesis
      using s Suc.IH[OF s(2,3)] True by auto
  qed
qed

lemma length_highway_hash256 [simp]: "length (highway_hash256 key bs) = 4"
  by (simp add: highway_hash256_def HighwayHashT_def Finalize256_def Let_def split: prod.splits)

lemma generate_slug_stream:
  assumes "base_ok cfg"
  shows "generate_slug cfg dst long_url n =
    (if n = 0 then Inr (Some dst)
     else if unat n * unat (usc_slug_length cfg) \<le> length (slug_stream cfg long_url)
     then Inr (Some (slug_at cfg long_url (unat n - 1)))
     else Inl Undefined)"
proof -
  have z: "(unat n = 0) = (n = 0)" by (simp add: unat_eq_0)
  show ?thesis
    using assms
    by (simp add: base_ok_def generate_slug_def Let_def slug_while_stream slug_stream_def slug_at_def z)
qed

lemma length_concat_le: "\<forall>x \<in> set xs. length (f x) \<le> k \<Longrightarrow> length (concat (map f xs)) \<le> length xs * k"
  by (induction xs) auto

text \<open>A stream holds at most four words' worth of digits.\<close>

lemma length_slug_stream:
  assumes b: "2 \<le> length (usc_alphabet cfg)" and k: "2 ^ 64 \<le> length (usc_alphabet cfg) ^ k"
  shows "length (slug_stream cfg long_url) \<le> 4 * k"
proof -
  let ?b = "length (usc_alphabet cfg)"
  let ?ws = "highway_hash256 (usc_highwayhash_key cfg) (bytes_of_string long_url)"
  have d: "length (digits_of ?b (unat w)) \<le> k" for w :: u64
    using u64_unat_less[of w] k by (intro length_digits_of b) simp
  have "0 < k" using k b by (cases k) auto
  then have "length (word_digits ?b w) \<le> k" for w
    using d[of w] by (simp add: word_digits_def)
  then have "length (concat (map (word_digits ?b) (drop (Suc 0) ?ws))) \<le> 3 * k"
    using length_concat_le[of "drop (Suc 0) ?ws" "word_digits ?b" k] by simp
  then show ?thesis
    using d[of "?ws ! 0"] by (simp add: slug_stream_def stream_from_def)
qed

lemma slug_stream_le_256:
  "2 \<le> length (usc_alphabet cfg) \<Longrightarrow> length (slug_stream cfg long_url) \<le> 256"
  using length_slug_stream[of cfg 64] power_mono[of 2 "length (usc_alphabet cfg)" 64] by simp

text \<open>The words after the first contribute at least one digit each.\<close>

lemma slug_stream_ge_3:
  assumes "2 \<le> length (usc_alphabet cfg)"
  shows "3 \<le> length (slug_stream cfg long_url)"
proof -
  let ?b = "length (usc_alphabet cfg)"
  have one: "1 \<le> length (word_digits ?b w)" for w
    using assms by (simp add: word_digits_Cons)
  obtain a b c d where
    ws: "highway_hash256 (usc_highwayhash_key cfg) (bytes_of_string long_url) = [a, b, c, d]"
    using length_highway_hash256[of "usc_highwayhash_key cfg" "bytes_of_string long_url"]
    by (auto simp: length_Suc_conv numeral_eq_Suc simp del: length_highway_hash256)
  show ?thesis
    using one[of b] one[of c] one[of d]
    by (simp add: slug_stream_def stream_from_def ws)
qed

lemma set_slug_stream:
  assumes "2 \<le> length (usc_alphabet cfg)" "d \<in> set (slug_stream cfg long_url)"
  shows "d < length (usc_alphabet cfg)"
  using assms
  by (auto simp: slug_stream_def stream_from_def word_digits_def dest: digits_of_less split: if_splits)

lemma set_slug_at:
  assumes "base_ok cfg" shows "set (slug_at cfg long_url k) \<subseteq> set alphabet"
proof -
  have "d < length alphabet" if "d \<in> set (slug_stream cfg long_url)" for d
    using set_slug_stream[OF _ that] assms by (simp add: base_ok_def)
  then show ?thesis
    by (auto simp: slug_at_def dest!: in_set_takeD in_set_dropD)
qed

lemma length_slug_at:
  "Suc k * unat (usc_slug_length cfg) \<le> length (slug_stream cfg long_url) \<Longrightarrow>
   length (slug_at cfg long_url k) = unat (usc_slug_length cfg)"
  by (simp add: slug_at_def)

section \<open>Printing and parsing the key\<close>

text \<open>The sixteen hexadecimal characters of a word, most significant first.\<close>

definition hex_char :: "nat \<Rightarrow> char" where
  "hex_char d = ''0123456789abcdef'' ! d"

definition nibbles :: "nat \<Rightarrow> nat \<Rightarrow> nat list" where
  "nibbles m n = map (\<lambda>k. n div 16 ^ k mod 16) (rev [0..<m])"

definition hex16 :: "u64 \<Rightarrow> string" where
  "hex16 w = map hex_char (nibbles 16 (unat w))"

lemma less_16_cases: "d < (16::nat) \<Longrightarrow> d \<in> {0, 1, 2, 3, 4, 5, 6, 7, 8, 9, 10, 11, 12, 13, 14, 15}"
  by (auto simp: numeral_eq_Suc less_Suc_eq)

lemma hex_val_hex_char [simp]: "d < 16 \<Longrightarrow> hex_val (hex_char d) = Some d"
  by (drule less_16_cases) (auto simp: hex_char_def hex_val_def)

lemma hex_char_not_special:
  assumes "d < 16"
  shows "\<not> is_space (hex_char d)" "hex_char d \<noteq> CHR ''-''" "hex_char d \<noteq> CHR ''+''"
    "hex_char d \<noteq> CHR ''x''" "hex_char d \<noteq> CHR ''X''"
  using less_16_cases[OF assms] by (auto simp: hex_char_def is_space_def)

lemma hex_digits_map: "\<forall>d \<in> set ds. d < 16 \<Longrightarrow> hex_digits (map hex_char ds) = ds"
  by (induction ds) auto

lemma foldl_hex: "foldl (\<lambda>acc d. 16 * acc + d) (a::nat) ds = a * 16 ^ length ds + from_hex ds"
proof (induction ds arbitrary: a)
  case Nil
  then show ?case by (simp add: from_hex_def)
next
  case (Cons d ds)
  have "from_hex (d # ds) = d * 16 ^ length ds + from_hex ds"
    using Cons.IH[of d] by (simp add: from_hex_def)
  moreover have "foldl (\<lambda>acc d. 16 * acc + d) a (d # ds) = (16 * a + d) * 16 ^ length ds + from_hex ds"
    using Cons.IH[of "16 * a + d"] by simp
  ultimately show ?case by (simp add: algebra_simps)
qed

lemma from_hex_Cons: "from_hex (d # ds) = d * 16 ^ length ds + from_hex ds"
  using foldl_hex[of d ds] by (simp add: from_hex_def)

lemma from_hex_nibbles: "from_hex (nibbles m n) = n mod 16 ^ m"
proof (induction m)
  case 0
  then show ?case by (simp add: nibbles_def from_hex_def)
next
  case (Suc m)
  have "n mod 16 ^ Suc m = n div 16 ^ m mod 16 * 16 ^ m + n mod 16 ^ m"
    by (metis add.commute mod_mult2_eq mult.commute power_Suc2)
  with Suc show ?case by (simp add: nibbles_def from_hex_Cons)
qed

lemma nibbles_less: "d \<in> set (nibbles m n) \<Longrightarrow> d < 16"
  by (auto simp: nibbles_def)

lemma length_hex16 [simp]: "length (hex16 w) = 16"
  by (simp add: hex16_def nibbles_def)

lemma stoull16_hex16: "stoull16 (hex16 w) = Inr w"
proof -
  obtain a b c ds where nb: "nibbles 16 (unat w) = a # b # c # ds"
    by (rule list_ge_3[of "nibbles 16 (unat w)"]) (simp add: nibbles_def)
  have less: "a < 16" "b < 16" "c < 16" "\<forall>d \<in> set ds. d < 16"
    using nibbles_less[of _ 16 "unat w"] by (auto simp: nb)
  have n: "from_hex (a # b # c # ds) = unat w"
    using from_hex_nibbles[of 16 "unat w"] u64_unat_less[of w] by (simp add: nb)
  show ?thesis
    using less n u64_unat_less[of w]
    by (simp add: stoull16_def hex16_def nb strip_0x_def hex_char_not_special Let_def hex_digits_map)
qed

lemma take_drop_concat_hex16:
  assumes "i < length ks"
  shows "take 16 (drop (i * 16) (concat (map hex16 ks))) = hex16 (ks ! i)"
  using assms
proof (induction ks arbitrary: i)
  case Nil
  then show ?case by simp
next
  case (Cons k ks)
  then show ?case by (cases i) auto
qed

lemma length_concat_hex16: "length (concat (map hex16 ks)) = 16 * length ks"
  by (induction ks) auto

section \<open>Slugs are words over the alphabet\<close>

lemma slug_char_Some:
  "slug_char b (ws, i, dst) = Inr (Some (ws', i', dst')) \<Longrightarrow>
   \<exists>d < length alphabet. dst' = dst @ [alphabet ! d]"
  by (auto simp: slug_char_def Let_def not_le simp del: length_alphabet split: if_splits)

lemma slug_for_Some:
  "slug_for b n (ws, i, dst) = Inr (Some (ws', i', dst')) \<Longrightarrow>
   \<exists>s. dst' = dst @ s \<and> length s = n \<and> set s \<subseteq> set alphabet"
proof (induction n arbitrary: ws i dst)
  case 0
  then show ?case by simp
next
  case (Suc n)
  from Suc.prems obtain ws1 i1 dst1 where
    c: "slug_char b (ws, i, dst) = Inr (Some (ws1, i1, dst1))" and
    r: "slug_for b n (ws1, i1, dst1) = Inr (Some (ws', i', dst'))"
    by (auto simp: res_bind_eq_Inr split: option.splits)
  from slug_char_Some[OF c] obtain d where "d < length alphabet" "dst1 = dst @ [alphabet ! d]"
    by blast
  with Suc.IH[OF r] show ?case
    using nth_mem by (fastforce intro: exI[of _ "alphabet ! d # s" for s] simp del: length_alphabet)
qed

lemma slug_while_Some:
  "slug_while b L n (ws, i, dst) = Inr (Some (ws', i', dst')) \<Longrightarrow> n \<noteq> 0 \<Longrightarrow>
   length dst' = L \<and> set dst' \<subseteq> set alphabet"
proof (induction n arbitrary: ws i dst)
  case 0
  then show ?case by simp
next
  case (Suc n)
  from Suc.prems obtain ws1 i1 dst1 where
    f: "slug_for b L (ws, i, []) = Inr (Some (ws1, i1, dst1))" and
    r: "slug_while b L n (ws1, i1, dst1) = Inr (Some (ws', i', dst'))"
    by (auto simp: res_bind_eq_Inr split: option.splits)
  from slug_for_Some[OF f] have "length dst1 = L \<and> set dst1 \<subseteq> set alphabet" by auto
  with r Suc.IH[OF r] show ?case by (cases "n = 0") auto
qed

lemma slug_char_not_None: "slug_char b st \<noteq> Inr None"
  by (auto simp: slug_char_def Let_def split: prod.splits if_splits)

lemma slug_for_not_None: "slug_for b n st \<noteq> Inr None"
  by (induction n arbitrary: st)
     (auto simp: res_bind_eq_Inr slug_char_not_None split: option.splits)

lemma slug_while_not_None: "slug_while b L n st \<noteq> Inr None"
  by (induction n arbitrary: st)
     (auto simp: res_bind_eq_Inr slug_for_not_None split: option.splits prod.splits)

lemma generate_slug_not_None: "generate_slug cfg dst long_url n \<noteq> Inr None"
proof
  assume "generate_slug cfg dst long_url n = Inr None"
  then obtain r where
    "slug_while (length (usc_alphabet cfg)) (unat (usc_slug_length cfg)) (unat n)
       (highway_hash256 (usc_highwayhash_key cfg) (bytes_of_string long_url), 0, dst) = Inr r"
    "map_option (\<lambda>(ws, i, d). d) r = None"
    by (auto simp: generate_slug_def Let_def res_map_eq_Inr)
  then show False using slug_while_not_None by (cases r) auto
qed

section \<open>Base 58 digits of a 64-bit hash\<close>

lemma distinct_alphabet: "distinct alphabet"
  by (simp add: alphabet_def)

lemma nth_alphabet_eq [simp]: "a < 58 \<Longrightarrow> b < 58 \<Longrightarrow> alphabet ! a = alphabet ! b \<longleftrightarrow> a = b"
  using nth_eq_iff_index_eq[OF distinct_alphabet] by simp

lemma mod_58_power_Suc:
  "(m :: nat) mod 58 ^ Suc k = n mod 58 ^ Suc k \<longleftrightarrow>
     m mod 58 = n mod 58 \<and> m div 58 mod 58 ^ k = n div 58 mod 58 ^ k"
proof -
  have e: "j mod 58 ^ Suc k = 58 * (j div 58 mod 58 ^ k) + j mod 58" for j :: nat
    by (simp only: power_Suc mod_mult2_eq)
  have r: "j mod 58 < 58" for j :: nat by simp
  have pair: "58 * p + a = 58 * q + b \<longleftrightarrow> a = b \<and> p = q" if "a < 58" "b < 58" for p q a b :: nat
  proof -
    have "(58 * p + a) mod 58 = a" "(58 * p + a) div 58 = p"
      "(58 * q + b) mod 58 = b" "(58 * q + b) div 58 = q"
      using that by simp_all
    then show ?thesis by metis
  qed
  show ?thesis
    unfolding e[of m] e[of n] by (rule pair[OF r r])
qed

lemma emit_digits_eq_iff:
  "emit_digits k a = emit_digits k b \<longleftrightarrow> unat a mod 58 ^ k = unat b mod 58 ^ k"
proof (induction k arbitrary: a b)
  case 0
  then show ?case by simp
next
  case (Suc k)
  have "unat (x div 58) = unat x div 58" "unat (x mod 58) = unat x mod 58" for x :: u64
    using unat_div_base[of 58 x] unat_mod_base[of 58 x] by simp_all
  then show ?case
    using Suc by (simp add: mod_58_power_Suc mod_base_less del: power_Suc)
qed

lemma c_strlen_terminated:
  "CHR 0x00 \<notin> set s \<Longrightarrow> c_strlen (s @ CHR 0x00 # rest) = Inr (length s)"
  by (induction s) (auto simp: c_strlen_def)

lemma create_highwayhash_key_concat:
  "create_highwayhash_key (concat (map hex16 [a, b, c, d])) = Inr [a, b, c, d]"
  using take_drop_concat_hex16[of 0 "[a, b, c, d]"] take_drop_concat_hex16[of 1 "[a, b, c, d]"]
    take_drop_concat_hex16[of 2 "[a, b, c, d]"] take_drop_concat_hex16[of 3 "[a, b, c, d]"]
  by (simp only: create_highwayhash_key_def length_concat_hex16) (simp add: stoull16_hex16)

section \<open>Slugs and their requests\<close>

text \<open>A path that asks for a slug: a slash, the slug over the alphabet, and nothing or a query.\<close>

definition slug_request :: "string \<Rightarrow> string \<Rightarrow> bool" where
  "slug_request src s \<longleftrightarrow>
     length src \<le> 1000 \<and> s \<noteq> [] \<and> set s \<subseteq> set alphabet \<and>
     (\<exists>q. src = CHR ''/'' # s @ q \<and> (q = [] \<or> hd q = CHR ''?''))"

lemma parse_slug_request: "parse_out_request_str src = Inr s \<and> s \<noteq> [] \<longleftrightarrow> slug_request src s"
proof (cases src)
  case Nil
  then show ?thesis by (simp add: parse_out_request_str_def slug_request_def)
next
  case (Cons c cs)
  have "parse_out_request_str src = Inr s \<and> s \<noteq> [] \<longleftrightarrow>
      length src \<le> 1000 \<and> s \<noteq> [] \<and> c = CHR ''/'' \<and> scan_request cs = Some s"
    by (auto simp: Cons parse_out_request_str_def max_request_str_len_def split: option.splits)
  then show ?thesis by (auto simp: Cons scan_request_Some_iff slug_request_def)
qed

lemma parse_out_request_str_total: "src \<noteq> [] \<Longrightarrow> \<exists>s. parse_out_request_str src = Inr s"
  by (cases src) (auto simp: parse_out_request_str_def split: option.split)

lemma slug_request_plain: "slug_request (CHR ''/'' # s) s" if "s \<noteq> []" "set s \<subseteq> set alphabet" "length s < 256"
  using that by (auto simp: slug_request_def)

lemma generated_slug_wf:
  assumes "generate_slug cfg dst long_url n = Inr (Some s)" and "n \<noteq> 0"
  shows "length s = unat (usc_slug_length cfg) \<and> length s < 256 \<and> set s \<subseteq> set alphabet"
proof -
  have "unat n \<noteq> 0" using assms(2) by (simp add: unat_eq_0)
  moreover from assms(1) obtain ws i where
    "slug_while (length (usc_alphabet cfg)) (unat (usc_slug_length cfg)) (unat n)
       (highway_hash256 (usc_highwayhash_key cfg) (bytes_of_string long_url), 0, dst) = Inr (Some (ws, i, s))"
    by (auto simp: generate_slug_def Let_def res_map_eq_Inr eq_commute[of "Some s"])
  ultimately have "length s = unat (usc_slug_length cfg)" "set s \<subseteq> set alphabet"
    using slug_while_Some by blast+
  then show ?thesis using unsigned_less[of "usc_slug_length cfg"] by simp
qed

section \<open>Properties\<close>

text \<open>
  A path is accepted by \<open>is_ok_request_path\<close> exactly if it has at most 1000 characters,
  all of them in the alphabet.
\<close>

theorem is_ok_request_path_iff:
  "is_ok_request_path src \<longleftrightarrow> length src \<le> 1000 \<and> set src \<subseteq> set alphabet"
  by (simp add: is_ok_request_path_def max_request_str_len_def ok_path_from_spec)

text \<open>
  C30  \<open>parse_out_request_str\<close> returns a non-empty slug exactly for the paths of at most 1000
  characters that are a slash, the slug over the alphabet, and then nothing or a query.
\<close>

theorem parse_out_request_str_iff:
  "parse_out_request_str src = Inr s \<and> s \<noteq> [] \<longleftrightarrow>
     length src \<le> 1000 \<and> s \<noteq> [] \<and> set s \<subseteq> set alphabet \<and>
     (\<exists>q. src = CHR ''/'' # s @ q \<and> (q = [] \<or> hd q = CHR ''?''))"
  by (simp add: parse_slug_request slug_request_def)

text \<open>
  C32  Parsing the key undoes printing it: four words written as 64 hexadecimal characters,
  each word with its most significant digit first, are read back in the same order.
\<close>

theorem create_highwayhash_key_hex:
  "create_highwayhash_key (hex16 a @ hex16 b @ hex16 c @ hex16 d) = Inr [a, b, c, d]"
  using create_highwayhash_key_concat[of a b c d] by simp

text \<open>The configuration of sample_app_config.yml: slugs of seven characters, the default alphabet.\<close>

definition default_svc :: "u64 list \<Rightarrow> UrlShorteningConfig" where
  "default_svc key = new_UrlShorteningConfig alphabet 7 key"

definition tiny_svc :: UrlShorteningConfig where
  "tiny_svc = new_UrlShorteningConfig ''12'' 1 [1, 2, 3, 4]"

lemma base_ok_default [simp]: "base_ok (default_svc key)"
  by (simp add: base_ok_def default_svc_def new_UrlShorteningConfig_def)

lemma base_ok_tiny [simp]: "base_ok tiny_svc"
  by (simp add: base_ok_def tiny_svc_def new_UrlShorteningConfig_def)

lemma slug_length_tiny [simp]: "usc_slug_length tiny_svc = 1"
  by (simp add: tiny_svc_def new_UrlShorteningConfig_def)

lemma tiny_stream: "3 \<le> length (slug_stream tiny_svc long_url)"
  by (rule slug_stream_ge_3) (simp add: tiny_svc_def new_UrlShorteningConfig_def)

text \<open>
  C14  Refinement: for an alphabet of 2 to 58 characters, the n-th slug is the n-th block of
  \<open>slug_length\<close> digits of the stream of the four hash words, mapped to the file's alphabet.
  When the stream is too short for it the code reads \<open>result[4]\<close>, past the array.
\<close>

theorem generate_slug_refines_stream:
  assumes "base_ok cfg" and "n \<noteq> 0"
  shows "generate_slug cfg dst long_url n =
    (if unat n * unat (usc_slug_length cfg) \<le> length (slug_stream cfg long_url)
     then Inr (Some (slug_at cfg long_url (unat n - 1)))
     else Inl Undefined)"
  using assms by (simp add: generate_slug_stream)

theorem generate_slug_refines_stream_witness:
  "base_ok tiny_svc \<and> (2 :: u8) \<noteq> 0 \<and>
   generate_slug tiny_svc [] ''http://a'' 2 = Inr (Some (slug_at tiny_svc ''http://a'' 1))"
  using generate_slug_refines_stream[OF base_ok_tiny, of 2 "[]" "''http://a''"]
    tiny_stream[of "''http://a''"] by simp

text \<open>
  \<open>generate_slug\<close> never returns false: the test \<open>result_idx > 4\<close> comes one index too late,
  so the branch for exhausted hashes is dead code for every configuration and input.
\<close>

theorem generate_slug_never_false: "generate_slug cfg dst long_url n \<noteq> Inr None"
  by (rule generate_slug_not_None)

text \<open>
  With the sample configuration (58 characters, slugs of length 7) the seventh and every
  later slug of a URL is read past the hash: the four words hold at most 44 digits.
\<close>

theorem default_slug_exhausted:
  assumes "7 \<le> n"
  shows "generate_slug (default_svc key) dst long_url n = Inl Undefined"
proof -
  have "length (slug_stream (default_svc key) long_url) \<le> 44"
    using length_slug_stream[of "default_svc key" 11 long_url]
    by (simp add: default_svc_def new_UrlShorteningConfig_def)
  moreover have "7 \<le> unat n"
    using assms by (simp add: word_le_nat_alt)
  moreover have "n \<noteq> 0" using assms by (auto simp: word_le_nat_alt)
  ultimately show ?thesis
    by (simp add: generate_slug_stream) (simp add: default_svc_def new_UrlShorteningConfig_def)
qed

theorem default_slug_exhausted_witness:
  "(7 :: u8) \<le> 100 \<and> generate_slug (default_svc [1, 2, 3, 4]) [] ''http://a'' 100 = Inl Undefined"
  using default_slug_exhausted[of 100 "[1, 2, 3, 4]" "[]" "''http://a''"] by (simp add: word_le_nat_alt)

text \<open>
  C31  Every slug that is generated, under any configuration, has the configured length, and a
  request for it (a slash and the slug) is parsed back to it.
\<close>

theorem generated_slug_is_routable:
  assumes "generate_slug cfg dst long_url n = Inr (Some s)" and "n \<noteq> 0"
  shows "length s = unat (usc_slug_length cfg) \<and> parse_out_request_str (CHR ''/'' # s) = Inr s"
proof -
  note wf = generated_slug_wf[OF assms]
  then have "scan_request s = Some s" by (auto simp: scan_request_Some_iff)
  with wf show ?thesis by (simp add: parse_out_request_str_def max_request_str_len_def)
qed

theorem generated_slug_is_routable_witness:
  "parse_out_request_str (CHR ''/'' # slug_at tiny_svc ''http://a'' 1) =
     Inr (slug_at tiny_svc ''http://a'' 1)"
proof -
  have "generate_slug tiny_svc [] ''http://a'' 2 = Inr (Some (slug_at tiny_svc ''http://a'' 1))"
    using tiny_stream[of "''http://a''"] by (simp add: generate_slug_stream)
  then show ?thesis
    using generated_slug_is_routable[of tiny_svc "[]" "''http://a''" 2] by simp
qed

text \<open>
  Two null-terminated URLs get the same fixed-length slug from \<open>generate_shortened_url\<close>
  exactly if their 64-bit hashes agree modulo \<open>58 ^ 7\<close>: no digit of the slug is wasted.
\<close>

theorem generate_shortened_url_collision:
  assumes "CHR 0x00 \<notin> set s" and "CHR 0x00 \<notin> set t"
  shows "generate_shortened_url (s @ CHR 0x00 # r) key = generate_shortened_url (t @ CHR 0x00 # q) key \<longleftrightarrow>
    unat (highway_hash64 key (bytes_of_string s)) mod 58 ^ 7 =
    unat (highway_hash64 key (bytes_of_string t)) mod 58 ^ 7"
  using assms
  by (simp add: generate_shortened_url_def c_strlen_terminated shortened_url_len_def
      emit_digits_eq_iff del: emit_digits.simps)

theorem generate_shortened_url_collision_witness:
  "CHR 0x00 \<notin> set ''a'' \<and>
   (generate_shortened_url (''a'' @ CHR 0x00 # ''x'') [1, 2, 3, 4] =
    generate_shortened_url (''a'' @ CHR 0x00 # []) [1, 2, 3, 4])"
  using generate_shortened_url_collision[of "''a''" "''a''" "''x''" "[1, 2, 3, 4]" "[]"] by simp

end
