(* ===== verification/Cpp_Std.thy ===== *)
theory Cpp_Std
  imports Prelude
begin

text \<open>
  The parts of the C++ standard library that the repository's own code computes with: string
  searches, \<open>atoi\<close>, integer division, and the lexical operations of \<^verbatim>\<open>std::filesystem::path\<close>
  on a POSIX system, where a path is its string.
\<close>

section \<open>Strings\<close>

definition starts_with :: "string \<Rightarrow> string \<Rightarrow> bool" where
  "starts_with s p \<longleftrightarrow> take (length p) s = p"

text \<open>\<open>s.find(p, i)\<close>: the first index at or after \<open>i\<close> where \<open>p\<close> occurs, None for npos.\<close>

function str_find :: "string \<Rightarrow> string \<Rightarrow> nat \<Rightarrow> nat option" where
  "str_find s p i =
     (if length s < i + length p then None
      else if take (length p) (drop i s) = p then Some i
      else str_find s p (Suc i))"
  by pat_completeness auto
termination by (relation "measure (\<lambda>(s, p, i). Suc (length s) - i)") auto

declare str_find.simps [simp del]

definition str_contains :: "string \<Rightarrow> string \<Rightarrow> bool" where
  "str_contains s p \<longleftrightarrow> str_find s p 0 \<noteq> None"

text \<open>\<open>s.rfind(p, 0)\<close> is 0 exactly if \<open>p\<close> is a prefix of \<open>s\<close>; otherwise it is npos.\<close>

definition rfind_0 :: "string \<Rightarrow> string \<Rightarrow> nat option" where
  "rfind_0 s p = (if starts_with s p then Some 0 else None)"

lemma str_find_None_iff:
  "str_find s p i = None \<longleftrightarrow> (\<forall>j. i \<le> j \<longrightarrow> j + length p \<le> length s \<longrightarrow> take (length p) (drop j s) \<noteq> p)"
proof (induction s p i rule: str_find.induct)
  case (1 s p i)
  show ?case
  proof (cases "length s < i + length p")
    case True
    then show ?thesis by (subst str_find.simps) auto
  next
    case False
    show ?thesis
    proof (cases "take (length p) (drop i s) = p")
      case True
      then show ?thesis using False by (subst str_find.simps) auto
    next
      case neq: False
      have "(\<forall>j\<ge>i. j + length p \<le> length s \<longrightarrow> take (length p) (drop j s) \<noteq> p) \<longleftrightarrow>
          (\<forall>j\<ge>Suc i. j + length p \<le> length s \<longrightarrow> take (length p) (drop j s) \<noteq> p)"
        using neq by (metis Suc_leD le_antisym not_less_eq_eq)
      then show ?thesis
        using 1[OF False neq] False neq by (subst str_find.simps) simp
    qed
  qed
qed

lemma not_str_contains_append: "\<not> str_contains s p \<Longrightarrow> s \<noteq> a @ p @ b"
proof
  assume "\<not> str_contains s p" and s: "s = a @ p @ b"
  then have "\<forall>j. j + length p \<le> length s \<longrightarrow> take (length p) (drop j s) \<noteq> p"
    by (simp add: str_contains_def str_find_None_iff)
  then have "length a + length p \<le> length s \<longrightarrow> take (length p) (drop (length a) s) \<noteq> p"
    by (rule spec)
  then have "take (length p) (drop (length a) s) \<noteq> p"
    by (simp add: s)
  then show False by (simp add: s)
qed

lemma str_contains_iff: "str_contains s p \<longleftrightarrow> (\<exists>a b. s = a @ p @ b)"
proof
  assume "str_contains s p"
  then obtain j where j: "j + length p \<le> length s" "take (length p) (drop j s) = p"
    by (auto simp: str_contains_def str_find_None_iff)
  then have "s = take j s @ p @ drop (length p) (drop j s)"
    by (metis append_take_drop_id)
  then show "\<exists>a b. s = a @ p @ b" by blast
next
  assume "\<exists>a b. s = a @ p @ b"
  then show "str_contains s p" using not_str_contains_append by blast
qed

lemma starts_with_iff: "starts_with s p \<longleftrightarrow> (\<exists>t. s = p @ t)"
  by (auto simp: starts_with_def) (metis append_take_drop_id)

lemma str_find_Some:
  "str_find s p i = Some j \<Longrightarrow> i \<le> j \<and> j + length p \<le> length s \<and> take (length p) (drop j s) = p"
proof (induction s p i rule: str_find.induct)
  case (1 s p i)
  from 1(2) show ?case
    by (subst (asm) str_find.simps) (auto split: if_splits dest: 1(1)[rotated 2])
qed

section \<open>std::filesystem::path\<close>

type_synonym path = string

definition is_absolute :: "path \<Rightarrow> bool" where
  "is_absolute p \<longleftrightarrow> p \<noteq> [] \<and> hd p = CHR ''/''"

text \<open>The file names of a path: its maximal runs of other characters than slashes.\<close>

function path_names :: "path \<Rightarrow> string list" where
  "path_names p =
     (let t = dropWhile (\<lambda>c. c = CHR ''/'') p
      in if t = [] then []
         else takeWhile (\<lambda>c. c \<noteq> CHR ''/'') t # path_names (dropWhile (\<lambda>c. c \<noteq> CHR ''/'') t))"
  by pat_completeness auto
termination
proof (relation "measure length", goal_cases)
  case (2 p t)
  then have "t \<noteq> []" by simp
  moreover have "hd t \<noteq> CHR ''/''" using hd_dropWhile[of "\<lambda>c. c = CHR ''/''" p] 2 by simp
  ultimately have "length (dropWhile (\<lambda>c. c \<noteq> CHR ''/'') t) < length t"
    by (cases t) (simp_all add: le_imp_less_Suc length_dropWhile_le)
  also have "length t \<le> length p" using 2 by (simp add: length_dropWhile_le)
  finally show ?case by simp
qed simp

declare path_names.simps [simp del]

text \<open>
  The sequence that \<open>begin()\<close> and \<open>end()\<close> delimit: the root directory of an absolute path, the
  file names, and an empty element after a trailing slash that follows a file name.
\<close>

definition path_elems :: "path \<Rightarrow> string list" where
  "path_elems p =
     (if is_absolute p then [''/''] else []) @ path_names p @
     (if path_names p \<noteq> [] \<and> last p = CHR ''/'' then [''''] else [])"

definition has_filename :: "path \<Rightarrow> bool" where
  "has_filename p \<longleftrightarrow> p \<noteq> [] \<and> last p \<noteq> CHR ''/''"

text \<open>\<open>p / q\<close>\<close>

definition path_append :: "path \<Rightarrow> path \<Rightarrow> path" where
  "path_append p q =
     (if is_absolute q then q else if has_filename p then p @ ''/'' @ q else p @ q)"

definition path_filename :: "path \<Rightarrow> string" where
  "path_filename p = (if has_filename p then last (path_names p) else '''')"

text \<open>\<open>extension()\<close>: from the last dot of the file name, unless it is the name's first character.\<close>

definition path_extension :: "path \<Rightarrow> string" where
  "path_extension p =
     (let f = path_filename p;
          stem = rev (dropWhile (\<lambda>c. c \<noteq> CHR ''.'') (rev f))
      in if f = ''.'' \<or> f = ''..'' \<or> length stem \<le> 1 then ''''
         else ''.'' @ drop (length stem) f)"

subsection \<open>File names and extensions\<close>

lemma path_names_none: "dropWhile (\<lambda>c. c = CHR ''/'') p = [] \<Longrightarrow> path_names p = []"
  by (subst path_names.simps) (simp only: Let_def if_True simp_thms)

lemma path_names_some:
  "dropWhile (\<lambda>c. c = CHR ''/'') p = t \<Longrightarrow> t \<noteq> [] \<Longrightarrow>
   path_names p = takeWhile (\<lambda>c. c \<noteq> CHR ''/'') t # path_names (dropWhile (\<lambda>c. c \<noteq> CHR ''/'') t)"
  by (subst path_names.simps) (simp only: Let_def if_False simp_thms)

lemma dropWhile_all_append: "dropWhile P xs = [] \<Longrightarrow> dropWhile P (xs @ ys) = dropWhile P ys"
  by (induction xs) (auto split: if_splits)

lemma dropWhile_some_append: "dropWhile P xs \<noteq> [] \<Longrightarrow> dropWhile P (xs @ ys) = dropWhile P xs @ ys"
  by (induction xs) auto

lemma takeWhile_stop_append: "\<not> P y \<Longrightarrow> takeWhile P (xs @ y # ys) = takeWhile P xs"
  by (induction xs) auto

lemma has_filename_slash_free: "f \<noteq> [] \<Longrightarrow> CHR ''/'' \<notin> set f \<Longrightarrow> last f \<noteq> CHR ''/''"
  by (metis last_in_set)

lemma path_names_slash_free:
  "f \<noteq> [] \<Longrightarrow> CHR ''/'' \<notin> set f \<Longrightarrow> path_names f = [f]"
proof -
  assume f: "f \<noteq> []" "CHR ''/'' \<notin> set f"
  have d: "dropWhile (\<lambda>c. c = CHR ''/'') f = f" using f by (cases f) auto
  have t: "takeWhile (\<lambda>c. c \<noteq> CHR ''/'') f = f" unfolding takeWhile_eq_all_conv using f(2) by blast
  have e: "dropWhile (\<lambda>c. c \<noteq> CHR ''/'') f = []" unfolding dropWhile_eq_Nil_conv using f(2) by blast
  show ?thesis using path_names_some[OF d f(1)] by (simp add: t e path_names_none)
qed

lemma path_names_drop_slashes: "path_names (dropWhile (\<lambda>c. c = CHR ''/'') p) = path_names p"
proof (cases "dropWhile (\<lambda>c. c = CHR ''/'') p = []")
  case True
  have "path_names [] = []" by (rule path_names_none) simp
  then show ?thesis by (simp only: True path_names_none[OF True])
next
  case False
  have "dropWhile (\<lambda>c. c = CHR ''/'') (dropWhile (\<lambda>c. c = CHR ''/'') p) = dropWhile (\<lambda>c. c = CHR ''/'') p"
    by (rule dropWhile_idem)
  then show ?thesis
    using path_names_some[OF _ False] path_names_some[OF refl False] by metis
qed

lemma path_names_append: "path_names (d @ CHR ''/'' # f) = path_names d @ path_names f"
proof (induction d rule: path_names.induct)
  case (1 p)
  let ?ns = "\<lambda>c. c = CHR ''/''" and ?nf = "\<lambda>c. c \<noteq> CHR ''/''"
  let ?t = "dropWhile ?ns p"
  show ?case
  proof (cases "?t = []")
    case True
    have "dropWhile ?ns (p @ CHR ''/'' # f) = dropWhile ?ns f"
      by (subst dropWhile_all_append[OF True]) (simp only: dropWhile.simps if_True simp_thms)
    then have "path_names (p @ CHR ''/'' # f) = path_names f"
      using path_names_drop_slashes[of "p @ CHR ''/'' # f"] path_names_drop_slashes[of f] by metis
    moreover have "path_names p = []" using True by (rule path_names_none)
    ultimately show ?thesis by simp
  next
    case False
    have d: "dropWhile ?ns (p @ CHR ''/'' # f) = ?t @ CHR ''/'' # f"
      using False by (rule dropWhile_some_append)
    have tk: "takeWhile ?nf (?t @ CHR ''/'' # f) = takeWhile ?nf ?t"
      by (simp add: takeWhile_stop_append)
    have dr: "path_names (dropWhile ?nf (?t @ CHR ''/'' # f)) = path_names (dropWhile ?nf ?t) @ path_names f"
    proof (cases "dropWhile ?nf ?t = []")
      case True
      have "dropWhile ?nf (?t @ CHR ''/'' # f) = CHR ''/'' # f"
        by (subst dropWhile_all_append[OF True]) (simp only: dropWhile.simps simp_thms if_False)
      then show ?thesis using 1(1)[OF refl False] by (simp only: True append_Nil)
    next
      case ne: False
      then have "dropWhile ?nf (?t @ CHR ''/'' # f) = dropWhile ?nf ?t @ CHR ''/'' # f"
        by (rule dropWhile_some_append)
      then show ?thesis using 1(1)[OF refl False] by (simp only:)
    qed
    show ?thesis
      using path_names_some[OF d] path_names_some[OF refl False] tk dr by simp
  qed
qed

lemma path_names_append_file:
  "f \<noteq> [] \<Longrightarrow> CHR ''/'' \<notin> set f \<Longrightarrow> path_names (d @ CHR ''/'' # f) = path_names d @ [f]"
  by (simp add: path_names_append path_names_slash_free)

lemma path_names_infix: "n \<in> set (path_names p) \<Longrightarrow> \<exists>a b. p = a @ n @ b"
proof (induction p rule: path_names.induct)
  case (1 p)
  let ?ns = "\<lambda>c. c = CHR ''/''" and ?nf = "\<lambda>c. c \<noteq> CHR ''/''"
  let ?t = "dropWhile ?ns p"
  show ?case
  proof (cases "?t = []")
    case True
    then show ?thesis using path_names_none[OF True] 1(2) by simp
  next
    case False
    have p: "p = takeWhile ?ns p @ takeWhile ?nf ?t @ dropWhile ?nf ?t" by simp
    from 1(2) path_names_some[OF refl False]
    have "n = takeWhile ?nf ?t \<or> n \<in> set (path_names (dropWhile ?nf ?t))" by simp
    then show ?thesis
    proof
      assume "n = takeWhile ?nf ?t"
      then show ?thesis using p by blast
    next
      assume "n \<in> set (path_names (dropWhile ?nf ?t))"
      then obtain a b where "dropWhile ?nf ?t = a @ n @ b" using 1(1)[OF refl False] by blast
      then have "p = (takeWhile ?ns p @ takeWhile ?nf ?t @ a) @ n @ b" using p by simp
      then show ?thesis by blast
    qed
  qed
qed

lemma path_filename_append:
  "f \<noteq> [] \<Longrightarrow> CHR ''/'' \<notin> set f \<Longrightarrow> path_filename (d @ CHR ''/'' # f) = f"
  by (auto simp: path_filename_def path_names_append_file has_filename_def dest: has_filename_slash_free)

lemma path_filename_slash_free:
  "CHR ''/'' \<notin> set f \<Longrightarrow> path_filename f = f"
  by (cases "f = []") (auto simp: path_filename_def path_names_slash_free has_filename_def dest: has_filename_slash_free)

lemma path_extension_dot:
  assumes "path_filename p = s @ CHR ''.'' # e" and "s \<noteq> []" and "e \<noteq> []" and "CHR ''.'' \<notin> set e"
  shows "path_extension p = CHR ''.'' # e"
proof -
  have "dropWhile (\<lambda>c. c \<noteq> CHR ''.'') (rev e @ CHR ''.'' # rev s) = CHR ''.'' # rev s"
    using assms(4) by (subst dropWhile_append2) auto
  moreover have "s @ CHR ''.'' # e \<noteq> ''.''" "s @ CHR ''.'' # e \<noteq> ''..''"
    using assms(2-4) by (auto simp: append_eq_Cons_conv)
  ultimately show ?thesis
    using assms(1-3) by (cases s rule: rev_cases) (auto simp: path_extension_def Let_def)
qed

lemma path_extension_no_dot:
  "CHR ''.'' \<notin> set (path_filename p) \<Longrightarrow> path_extension p = ''''"
proof -
  assume "CHR ''.'' \<notin> set (path_filename p)"
  then have "dropWhile (\<lambda>c. c \<noteq> CHR ''.'') (rev (path_filename p)) = []"
    unfolding dropWhile_eq_Nil_conv by auto
  then show ?thesis by (simp only: path_extension_def Let_def) simp
qed

text \<open>\<open>parent_path()\<close>: everything before the last element; a root directory is its own parent.\<close>

definition path_parent :: "path \<Rightarrow> path" where
  "path_parent p =
     (let d = rev (dropWhile (\<lambda>c. c \<noteq> CHR ''/'') (rev p));
          t = rev (dropWhile (\<lambda>c. c = CHR ''/'') (rev d))
      in if path_names p = [] then p
         else if t = [] then (if is_absolute p then ''/'' else '''')
         else t)"

section \<open>Calls to the operating system\<close>

text \<open>
  \<open>status(p)\<close> of \<^verbatim>\<open>std::filesystem\<close>, the part that is read; a parameter of the model gives
  None where the call throws \<open>filesystem_error\<close>.  A missing file is a status, not an error.
\<close>

record file_status =
  st_exists :: bool
  st_is_directory :: bool
  st_owner_write :: bool

type_synonym fs_status = "path \<Rightarrow> file_status option"

definition fs_exists :: "fs_status \<Rightarrow> path \<Rightarrow> bool res" where
  "fs_exists status p =
     (case status p of
        None \<Rightarrow> Inl (Throws (Runtime_Error ''filesystem_error''))
      | Some st \<Rightarrow> Inr (st_exists st))"

text \<open>\<open>CHECK(c)\<close> of glog ends the process when the condition is false.\<close>

definition check_that :: "bool \<Rightarrow> unit res" where
  "check_that c = (if c then Inr () else Inl Aborts)"

lemma check_that_simps [simp, res_simps]: "check_that True = Inr ()" "check_that False = Inl Aborts"
  by (simp_all add: check_that_def)

lemma check_that_eq_Inr [simp]: "check_that c = Inr u \<longleftrightarrow> c"
  by (simp add: check_that_def)

end
