(* ===== verification/App_Config.thy ===== *)
theory App_Config
  imports Url_Shortening Cpp_Std
begin

text \<open>
  \<^verbatim>\<open>url_shortener/app_config.h\<close> and \<^verbatim>\<open>app_config.cc\<close>: the configuration of the server and the
  two ways it is read, from a YAML file and from the environment.

  The type of an address range \<open>'net\<close> (\<open>folly::CIDRNetwork\<close>), its parser
  \<open>tryCreateNetwork\<close>, the file system, the environment and the typed accessors of a YAML node
  are parameters.
\<close>

section \<open>Data\<close>

record 'net ReadOnlyAppConfig =
  highwayhash_key :: "u64 list option"
  urls_db_path :: path
  grpc_service_port :: u16
  web_server_port :: u16
  slug_length :: u8
  cfg_alphabet :: string
  static_file_doc_root :: path
  frontend_doc_root :: path
  static_file_request_path_prefix :: string
  rate_limit_per_minute :: u32
  ip_rate_limiter_seconds_ttl :: u32
  url_shortener_service_base_url :: string
  web_server_bind_host :: string
  trusted_certificates_path :: path
  captcha_service_api_key :: string
  known_cloudflare_cidrs :: "string list"
  cf_cidrs :: "'net list"
  allowed_reverse_proxy_cidrs :: "string list"
  reverse_proxy_cidrs :: "'net list"
  server_user_agent :: string

text \<open>The default member initialisers.\<close>

definition initial_config :: "'net ReadOnlyAppConfig" where
  "initial_config =
     \<lparr>highwayhash_key = None, urls_db_path = '''', grpc_service_port = 50051,
      web_server_port = 60022, slug_length = 7,
      cfg_alphabet = ''123456789ABCDEFGHJKLMNPQRSTUVWXYZabcdefghijkmnopqrstuvwxyz'',
      static_file_doc_root = '''', frontend_doc_root = '''',
      static_file_request_path_prefix = ''/static/'', rate_limit_per_minute = 60,
      ip_rate_limiter_seconds_ttl = 86400,
      url_shortener_service_base_url = ''https://prv.ec/'',
      web_server_bind_host = ''127.0.0.1'',
      trusted_certificates_path = ''/etc/ssl/certs/ca-certificates.crt'',
      captcha_service_api_key = '''', known_cloudflare_cidrs = [], cf_cidrs = [],
      allowed_reverse_proxy_cidrs = [], reverse_proxy_cidrs = [],
      server_user_agent = ''prv.ec - an open source url shortener web service''\<rparr>"

section \<open>Parsing helpers\<close>

text \<open>
  \<^verbatim>\<open>std::atoi\<close>: white space, an optional sign, decimal digits; no digit is 0, and a value
  that no \<open>int\<close> holds is undefined.
\<close>

definition dec_val :: "char \<Rightarrow> nat option" where
  "dec_val c = (let n = (of_char c :: nat) in if 48 \<le> n \<and> n \<le> 57 then Some (n - 48) else None)"

fun dec_digits :: "string \<Rightarrow> nat list" where
  "dec_digits [] = []"
| "dec_digits (c # cs) = (case dec_val c of None \<Rightarrow> [] | Some d \<Rightarrow> d # dec_digits cs)"

definition atoi :: "string \<Rightarrow> int res" where
  "atoi s =
     (let t = dropWhile is_space s;
          neg = (t \<noteq> [] \<and> hd t = CHR ''-'');
          u = (if t \<noteq> [] \<and> (hd t = CHR ''-'' \<or> hd t = CHR ''+'') then tl t else t);
          n = int (foldl (\<lambda>acc d. 10 * acc + d) 0 (dec_digits u));
          v = (if neg then - n else n)
      in if - (2 ^ 31) \<le> v \<and> v < 2 ^ 31 then Inr v else Inl Undefined)"

text \<open>The key parser of this file, a second copy of the one in \<^verbatim>\<open>url_shortening.cc\<close>.\<close>

definition parse_highwayhash_key :: "string \<Rightarrow> u64 list res" where
  "parse_highwayhash_key src =
     (let len = length src
      in if 64 \<noteq> len then Inl (Throws Invalid_Argument)
         else res_list (map (\<lambda>i. stoull16 (take 16 (drop (i * 16) src))) [0, 1, 2, 3]))"

text \<open>
  \<open>split_csv_string\<close>, from index \<open>i\<close> on.  The next search starts one character after the
  match, whatever the length of the delimiter.
\<close>

function split_from :: "string \<Rightarrow> string \<Rightarrow> nat \<Rightarrow> string list" where
  "split_from csv_string delim i =
     (case str_find csv_string delim i of
        Some j \<Rightarrow> take (j - i) (drop i csv_string) # split_from csv_string delim (j + 1)
      | None \<Rightarrow> if i < length csv_string then [drop i csv_string] else [])"
  by pat_completeness auto
termination by (relation "measure (\<lambda>(s, p, i). Suc (length s) - i)") (auto dest!: str_find_Some)

declare split_from.simps [simp del]

definition split_csv_string :: "string \<Rightarrow> string list" where
  "split_csv_string csv_string = split_from csv_string '','' 0"

definition can_write_to_dir :: "fs_status \<Rightarrow> path \<Rightarrow> bool" where
  "can_write_to_dir status directory =
     (case status directory of
        None \<Rightarrow> False
      | Some st \<Rightarrow> if st_exists st \<and> st_is_directory st \<and> st_owner_write st then True else False)"

text \<open>The loops over the configured ranges keep those that parse and log the others.\<close>

fun push_networks :: "(string \<Rightarrow> 'net option) \<Rightarrow> string list \<Rightarrow> 'net list" where
  "push_networks tryCreateNetwork [] = []"
| "push_networks tryCreateNetwork (r # rs) =
     (case tryCreateNetwork r of
        Some net \<Rightarrow> net # push_networks tryCreateNetwork rs
      | None \<Rightarrow> push_networks tryCreateNetwork rs)"

section \<open>Reading the configuration\<close>

text \<open>
  The typed reads \<open>config[key].as<T>()\<close> of a loaded YAML file; each may throw.
\<close>

record yaml_node =
  as_u8 :: "string \<Rightarrow> u8 res"
  as_u16 :: "string \<Rightarrow> u16 res"
  as_u32 :: "string \<Rightarrow> u32 res"
  as_string :: "string \<Rightarrow> string res"
  as_strings :: "string \<Rightarrow> string list res"

definition new_from_yaml ::
  "fs_status \<Rightarrow> (string \<Rightarrow> 'net option) \<Rightarrow> (path \<Rightarrow> yaml_node res) \<Rightarrow> path \<Rightarrow> 'net ReadOnlyAppConfig res" where
  "new_from_yaml status tryCreateNetwork LoadFile yaml_filename =
     res_bind (LoadFile yaml_filename) (\<lambda>config.
     res_bind (as_u16 config ''web_server_port'') (\<lambda>port.
     res_bind (as_string config ''static_file_doc_root'') (\<lambda>static_root.
     res_bind (as_string config ''urls_db_path'') (\<lambda>db_path.
     res_bind (check_that (can_write_to_dir status (path_parent db_path))) (\<lambda>_.
     res_bind (as_string config ''frontend_doc_root'') (\<lambda>frontend_root.
     res_bind (as_string config ''web_server_bind_host'') (\<lambda>bind_host.
     res_bind (as_string config ''public_base_url'') (\<lambda>base_url.
     res_bind (as_u8 config ''slug_length'') (\<lambda>slug_len.
     res_bind (as_string config ''alphabet'') (\<lambda>alphabet0.
     res_bind (as_u32 config ''rate_limit_per_minute'') (\<lambda>rate.
     res_bind (as_u32 config ''rate_limiter_ttl_seconds'') (\<lambda>ttl.
     res_bind (as_string config ''captcha_service_api_key'') (\<lambda>captcha.
     res_bind (as_string config ''trusted_certificates_path'') (\<lambda>certs.
     res_bind (as_string config ''url_generator_salt'') (\<lambda>hk.
     res_bind (parse_highwayhash_key hk) (\<lambda>key.
     res_bind (as_strings config ''known_cloudflare_ip_ranges'') (\<lambda>cf_ip_ranges.
     res_bind (as_strings config ''known_reverse_proxy_ip_ranges'') (\<lambda>rp_ip_ranges.
     Inr (initial_config
       \<lparr>web_server_port := port, urls_db_path := db_path, static_file_doc_root := static_root,
        frontend_doc_root := frontend_root, web_server_bind_host := bind_host,
        url_shortener_service_base_url := base_url, slug_length := slug_len,
        cfg_alphabet := alphabet0, rate_limit_per_minute := rate,
        ip_rate_limiter_seconds_ttl := ttl, captcha_service_api_key := captcha,
        trusted_certificates_path := certs, highwayhash_key := Some key,
        cf_cidrs := push_networks tryCreateNetwork cf_ip_ranges,
        reverse_proxy_cidrs := push_networks tryCreateNetwork rp_ip_ranges\<rparr>)))))))))))))))))))"

text \<open>\<open>getenv\<close> with the prefix that every variable of the program carries.\<close>

definition env_name :: "string \<Rightarrow> string" where
  "env_name suffix = ''EC_PRV_URL_SHORTENER__'' @ suffix"

text \<open>
  A numeric variable that is optional: \<open>atoi\<close> if it is set.  Its value is then converted to
  the unsigned type of the member, modulo the width.
\<close>

definition env_int :: "(string \<Rightarrow> string option) \<Rightarrow> string \<Rightarrow> int option res" where
  "env_int getenv name = (case getenv (env_name name) of None \<Rightarrow> Inr None | Some s \<Rightarrow> res_map Some (atoi s))"

definition store_int :: "int option \<Rightarrow> ('w::len) word \<Rightarrow> 'w word" where
  "store_int v old = (case v of None \<Rightarrow> old | Some n \<Rightarrow> word_of_int n)"

text \<open>An optional path that must exist when it is set.\<close>

definition env_existing_path ::
  "(string \<Rightarrow> string option) \<Rightarrow> fs_status \<Rightarrow> string \<Rightarrow> path \<Rightarrow> path res" where
  "env_existing_path getenv status name old =
     (case getenv (env_name name) of
        None \<Rightarrow> Inr old
      | Some p \<Rightarrow> res_bind (fs_exists status p) (\<lambda>ex. res_bind (check_that ex) (\<lambda>_. Inr p)))"

text \<open>A list of ranges that must be set.\<close>

definition env_csv :: "(string \<Rightarrow> string option) \<Rightarrow> string \<Rightarrow> string list res" where
  "env_csv getenv name =
     (case getenv (env_name name) of None \<Rightarrow> Inl Aborts | Some s \<Rightarrow> Inr (split_csv_string s))"

text \<open>Assigning a null pointer to a \<open>std::string\<close> is undefined, before any \<open>CHECK\<close> sees it.\<close>

definition env_captcha_key :: "(string \<Rightarrow> string option) \<Rightarrow> string res" where
  "env_captcha_key getenv =
     (case getenv (env_name ''CAPTCHA_SERVICE_API_KEY'') of
        None \<Rightarrow> Inl Undefined
      | Some s \<Rightarrow> res_bind (check_that (length s > 0)) (\<lambda>_. Inr s))"

text \<open>The key and the frontend directory must be set.\<close>

definition env_key :: "(string \<Rightarrow> string option) \<Rightarrow> u64 list res" where
  "env_key getenv =
     (case getenv (env_name ''HIGHWAYHASH_KEY'') of
        None \<Rightarrow> Inl (Throws (Runtime_Error ''Missing environment variable for highwayhash key''))
      | Some highwayhash_key_inp \<Rightarrow> parse_highwayhash_key highwayhash_key_inp)"

definition env_frontend_doc_root :: "(string \<Rightarrow> string option) \<Rightarrow> fs_status \<Rightarrow> path res" where
  "env_frontend_doc_root getenv status =
     (case getenv (env_name ''FRONTEND_DOC_ROOT'') of
        None \<Rightarrow> Inl Aborts
      | Some p \<Rightarrow> res_bind (fs_exists status p) (\<lambda>ex. res_bind (check_that ex) (\<lambda>_. Inr p)))"

text \<open>An optional string, taken if it is acceptable.\<close>

definition env_string :: "(string \<Rightarrow> string option) \<Rightarrow> string \<Rightarrow> (string \<Rightarrow> bool) \<Rightarrow> string \<Rightarrow> string" where
  "env_string getenv name accept old =
     (case getenv (env_name name) of None \<Rightarrow> old | Some s \<Rightarrow> if accept s then s else old)"

definition new_from_env ::
  "(string \<Rightarrow> string option) \<Rightarrow> fs_status \<Rightarrow> (string \<Rightarrow> 'net option) \<Rightarrow> 'net ReadOnlyAppConfig res" where
  "new_from_env getenv status tryCreateNetwork =
     (let dst = (initial_config :: 'net ReadOnlyAppConfig) in
     res_bind (env_key getenv) (\<lambda>hhkey.
     res_bind (env_int getenv ''RPC_PORT'') (\<lambda>rpc_port.
     res_bind (env_int getenv ''IP_RATE_LIMITER_TTL_SECONDS'') (\<lambda>ttl.
     res_bind (env_int getenv ''WEB_SERVER_PORT'') (\<lambda>port.
     let bind_host = env_string getenv ''WEB_SERVER_BIND_HOST'' (\<lambda>h. length h > 0) (web_server_bind_host dst) in
     res_bind (env_existing_path getenv status ''STATIC_FILE_DOC_ROOT'' (static_file_doc_root dst)) (\<lambda>static_root.
     res_bind (env_frontend_doc_root getenv status) (\<lambda>frontend_root.
     let prefix = env_string getenv ''STATIC_FILE_REQUEST_PATH_PREFIX'' (\<lambda>_. True)
                    (static_file_request_path_prefix dst);
         base_url = env_string getenv ''URL_SHORTENER_SERVICE_BASE_URL'' (\<lambda>_. True)
                      (url_shortener_service_base_url dst) in
     res_bind (env_existing_path getenv status ''CA_CERTS_PATH'' (trusted_certificates_path dst)) (\<lambda>certs.
     res_bind (env_captcha_key getenv) (\<lambda>captcha.
     res_bind (env_csv getenv ''KNOWN_CLOUDFLARE_CIDRS'') (\<lambda>cf_strs.
     res_bind (env_csv getenv ''ALLOWED_REVERSE_PROXY_CIDRS'') (\<lambda>rp_strs.
     res_bind (env_int getenv ''SLUG_LENGTH'') (\<lambda>slug_len.
     let slug_len' = store_int slug_len (slug_length dst) in
     res_bind (check_that (slug_len' > 0)) (\<lambda>_.
     let alphabet' = env_string getenv ''ALPHABET'' (\<lambda>a. length a > 1) (cfg_alphabet dst) in
     res_bind (check_that (length alphabet' > 0)) (\<lambda>_.
     Inr (dst
       \<lparr>highwayhash_key := Some hhkey,
        grpc_service_port := store_int rpc_port (grpc_service_port dst),
        ip_rate_limiter_seconds_ttl := store_int ttl (ip_rate_limiter_seconds_ttl dst),
        web_server_port := store_int port (web_server_port dst),
        web_server_bind_host := bind_host, static_file_doc_root := static_root,
        frontend_doc_root := frontend_root, static_file_request_path_prefix := prefix,
        url_shortener_service_base_url := base_url, trusted_certificates_path := certs,
        captcha_service_api_key := captcha,
        known_cloudflare_cidrs := cf_strs, cf_cidrs := push_networks tryCreateNetwork cf_strs,
        allowed_reverse_proxy_cidrs := rp_strs,
        reverse_proxy_cidrs := push_networks tryCreateNetwork rp_strs,
        slug_length := slug_len', cfg_alphabet := alphabet'\<rparr>)))))))))))))))"

text \<open>
  The deleter frees the key with the scalar \<open>delete\<close>, although \<open>new[]\<close> allocated it, which is
  undefined; the configuration object itself is never freed.
\<close>

definition ReadOnlyAppConfigDeleter :: "'net ReadOnlyAppConfig \<Rightarrow> unit res" where
  "ReadOnlyAppConfigDeleter that = (if highwayhash_key that \<noteq> None then Inl Undefined else Inr ())"

section \<open>Lists of ranges\<close>

fun join_csv :: "string list \<Rightarrow> string" where
  "join_csv [] = ''''"
| "join_csv [x] = x"
| "join_csv (x # y # xs) = x @ '','' @ join_csv (y # xs)"

lemma str_find_char_None: "c \<notin> set (drop i s) \<Longrightarrow> str_find s [c] i = None"
proof -
  assume a: "c \<notin> set (drop i s)"
  have "take 1 (drop j s) \<noteq> [c]" if "i \<le> j" "j + 1 \<le> length s" for j
  proof
    assume "take 1 (drop j s) = [c]"
    then have "c \<in> set (drop j s)" by (metis in_set_takeD list.set_intros(1))
    moreover have "set (drop j s) \<subseteq> set (drop i s)" using that(1) by (rule set_drop_subset_set_drop)
    ultimately show False using a by blast
  qed
  then show ?thesis by (simp add: str_find_None_iff)
qed

lemma str_find_char_next:
  "c \<notin> set x \<Longrightarrow> str_find (pre @ x @ c # rest) [c] (length pre) = Some (length pre + length x)"
proof (induction x arbitrary: pre)
  case Nil
  then show ?case by (subst str_find.simps) simp
next
  case (Cons d x)
  have "str_find (pre @ (d # x) @ c # rest) [c] (length pre) =
        str_find ((pre @ [d]) @ x @ c # rest) [c] (length (pre @ [d]))"
    using Cons.prems by (subst str_find.simps) auto
  also have "\<dots> = Some (length (pre @ [d]) + length x)"
    using Cons.prems by (intro Cons.IH) simp
  finally show ?case by simp
qed

lemma split_from_join:
  "\<forall>x\<in>set xs. CHR '','' \<notin> set x \<Longrightarrow> xs \<noteq> [] \<Longrightarrow> last xs \<noteq> [] \<Longrightarrow>
   split_from (pre @ join_csv xs) '','' (length pre) = xs"
proof (induction xs arbitrary: pre rule: join_csv.induct)
  case (2 x)
  then have "str_find (pre @ x) '','' (length pre) = None"
    by (intro str_find_char_None) simp
  with 2 show ?case by (subst split_from.simps) simp
next
  case (3 x y xs)
  let ?s = "pre @ x @ CHR '','' # join_csv (y # xs)"
  have "str_find ?s '','' (length pre) = Some (length pre + length x)"
    using 3(2) by (intro str_find_char_next) simp
  moreover have "split_from ((pre @ x @ '','') @ join_csv (y # xs)) '','' (length (pre @ x @ '','')) = y # xs"
    using 3 by (intro 3(1)) simp_all
  ultimately show ?case by (subst split_from.simps) simp
qed simp

text \<open>
  Splitting undoes joining: a list of ranges without commas in them, written with commas
  between them, is read back as it was, empty entries in the middle included, provided the
  last entry is not empty; a trailing comma adds no entry.
\<close>

theorem split_csv_string_join:
  assumes "\<forall>x\<in>set xs. CHR '','' \<notin> set x" and "xs \<noteq> []" and "last xs \<noteq> []"
  shows "split_csv_string (join_csv xs) = xs \<and> split_csv_string (join_csv xs @ '','') = xs"
proof
  show "split_csv_string (join_csv xs) = xs"
    using split_from_join[of xs "[]"] assms by (simp add: split_csv_string_def)
  obtain ys z where xs: "xs = ys @ [z]" using assms(2) by (metis append_butlast_last_id)
  have "split_from (pre @ join_csv (ys @ [z]) @ '','') '','' (length pre) = ys @ [z]"
    if "\<forall>x\<in>set (ys @ [z]). CHR '','' \<notin> set x" for pre
    using that
  proof (induction ys arbitrary: pre)
    case Nil
    have "str_find (pre @ z @ CHR '','' # '''') '','' (length pre) = Some (length pre + length z)"
      using Nil by (intro str_find_char_next) simp
    moreover have "str_find (pre @ z @ '','') '','' (Suc (length pre + length z)) = None"
      by (subst str_find.simps) simp
    ultimately show ?case by (subst split_from.simps, simp, subst split_from.simps) simp
  next
    case (Cons y ys)
    have j: "join_csv (y # ys @ [z]) = y @ CHR '','' # join_csv (ys @ [z])" by (cases ys) simp_all
    have "str_find (pre @ y @ CHR '','' # (join_csv (ys @ [z]) @ '','')) '','' (length pre) =
          Some (length pre + length y)"
      using Cons.prems by (intro str_find_char_next) simp
    moreover have "split_from ((pre @ y @ '','') @ join_csv (ys @ [z]) @ '','') '','' (length (pre @ y @ '','')) = ys @ [z]"
      using Cons.prems by (intro Cons.IH) simp
    ultimately show ?case by (subst split_from.simps) (simp add: j)
  qed
  from this[of "[]"] show "split_csv_string (join_csv xs @ '','') = xs"
    using assms(1) by (simp add: split_csv_string_def xs)
qed

theorem split_csv_string_join_witness:
  "split_csv_string ''10.0.0.0/8,,fd00::/8'' = [''10.0.0.0/8'', [], ''fd00::/8''] \<and>
   split_csv_string ''10.0.0.0/8,,fd00::/8,'' = [''10.0.0.0/8'', [], ''fd00::/8'']"
proof -
  have "split_csv_string (join_csv [''10.0.0.0/8'', [], ''fd00::/8'']) = [''10.0.0.0/8'', [], ''fd00::/8''] \<and>
        split_csv_string (join_csv [''10.0.0.0/8'', [], ''fd00::/8''] @ '','') = [''10.0.0.0/8'', [], ''fd00::/8'']"
    by (rule split_csv_string_join) simp_all
  then show ?thesis by simp
qed

section \<open>What a loaded configuration satisfies\<close>

lemma parse_highwayhash_key_eq: "parse_highwayhash_key src = create_highwayhash_key src"
  by (simp add: parse_highwayhash_key_def create_highwayhash_key_def Let_def)

lemma parse_highwayhash_key_length: "parse_highwayhash_key src = Inr key \<Longrightarrow> length key = 4"
  by (auto simp: parse_highwayhash_key_def Let_def res_bind_eq_Inr res_map_eq_Inr split: if_splits)

lemma push_networks_filter: "push_networks f rs = List.map_filter f rs"
  by (induction rs) (auto simp: List.map_filter_simps split: option.split)

lemma env_existing_path_Inr:
  "env_existing_path getenv status name old = Inr p \<longleftrightarrow>
     (case getenv (env_name name) of
        None \<Rightarrow> p = old | Some q \<Rightarrow> p = q \<and> fs_exists status q = Inr True)"
  by (auto simp: env_existing_path_def res_bind_eq_Inr split: option.split)

lemma env_csv_Inr:
  "env_csv getenv name = Inr xs \<longleftrightarrow> (\<exists>s. getenv (env_name name) = Some s \<and> xs = split_csv_string s)"
  by (auto simp: env_csv_def split: option.split)

lemma env_captcha_key_Inr:
  "env_captcha_key getenv = Inr s \<longleftrightarrow> getenv (env_name ''CAPTCHA_SERVICE_API_KEY'') = Some s \<and> s \<noteq> []"
  by (auto simp: env_captcha_key_def res_bind_eq_Inr split: option.split)

text \<open>The value an optional numeric variable gives to a member.\<close>

definition env_int_ok :: "(string \<Rightarrow> string option) \<Rightarrow> string \<Rightarrow> bool" where
  "env_int_ok getenv name = (case getenv (env_name name) of None \<Rightarrow> True | Some s \<Rightarrow> atoi s \<noteq> Inl Undefined)"

lemma atoi_cases: "atoi s = Inl Undefined \<or> (\<exists>n. atoi s = Inr n)"
  by (simp add: atoi_def Let_def)

lemma env_int_ok_iff: "env_int_ok getenv name \<longleftrightarrow> (\<exists>v. env_int getenv name = Inr v)"
proof (cases "getenv (env_name name)")
  case (Some s)
  then show ?thesis using atoi_cases[of s] by (auto simp: env_int_ok_def env_int_def)
qed (simp add: env_int_ok_def env_int_def)

definition env_slug_length :: "(string \<Rightarrow> string option) \<Rightarrow> u8" where
  "env_slug_length getenv =
     (case getenv (env_name ''SLUG_LENGTH'') of
        None \<Rightarrow> 7 | Some s \<Rightarrow> (case atoi s of Inr n \<Rightarrow> word_of_int n | Inl e \<Rightarrow> 7))"

lemma env_slug_length_store:
  "env_int getenv ''SLUG_LENGTH'' = Inr v \<Longrightarrow>
   store_int v (slug_length (initial_config :: 'net ReadOnlyAppConfig)) = env_slug_length getenv"
  by (auto simp: env_int_def env_slug_length_def store_int_def initial_config_def res_map_eq_Inr
      split: option.splits)

lemma env_key_Inr:
  "env_key getenv = Inr key \<longleftrightarrow>
     (\<exists>s. getenv (env_name ''HIGHWAYHASH_KEY'') = Some s \<and> parse_highwayhash_key s = Inr key)"
  by (simp add: env_key_def split: option.split)

lemma env_frontend_doc_root_Inr:
  "env_frontend_doc_root getenv status = Inr p \<longleftrightarrow>
     getenv (env_name ''FRONTEND_DOC_ROOT'') = Some p \<and> fs_exists status p = Inr True"
  by (auto simp: env_frontend_doc_root_def res_bind_eq_Inr split: option.split)

lemma env_string_cases: "env_string getenv name accept old = old \<or> accept (env_string getenv name accept old)"
  by (simp add: env_string_def split: option.split)

lemmas env_Inr = env_key_Inr env_frontend_doc_root_Inr env_existing_path_Inr env_csv_Inr env_captcha_key_Inr

lemma env_alphabet_length:
  "2 \<le> length (env_string getenv ''ALPHABET'' (\<lambda>a. length a > 1)
                 (cfg_alphabet (initial_config :: 'net ReadOnlyAppConfig)))"
  using env_string_cases[of getenv "''ALPHABET''" "\<lambda>a. length a > 1"
      "cfg_alphabet (initial_config :: 'net ReadOnlyAppConfig)"]
  by (auto simp: initial_config_def)

text \<open>What \<open>stoull\<close> reads a number from, base 16: white space, a sign or none, a hexadecimal digit.\<close>

definition reads_hex :: "string \<Rightarrow> bool" where
  "reads_hex s \<longleftrightarrow>
     (\<exists>blank sign d rest. s = blank @ sign @ d # rest \<and> list_all is_space blank \<and>
        sign \<in> {'''', ''+'', ''-''} \<and> hex_val d \<noteq> None)"

lemma hex_val_not_special: "hex_val c \<noteq> None \<Longrightarrow> \<not> is_space c \<and> c \<noteq> CHR ''-'' \<and> c \<noteq> CHR ''+''"
  by (auto simp: hex_val_def is_space_def Let_def split: if_splits)

lemma hex_digits_bound: "length (hex_digits s) \<le> length s \<and> (\<forall>d \<in> set (hex_digits s). d < 16)"
  by (induction s) (auto simp: hex_val_def Let_def split: if_splits option.splits)

lemma from_hex_bound: "\<forall>d \<in> set ds. d < 16 \<Longrightarrow> from_hex ds < 16 ^ length ds"
proof (induction ds rule: rev_induct)
  case (snoc d ds)
  then have "from_hex ds < 16 ^ length ds" "d < 16" by simp_all
  then show ?case by (simp add: from_hex_def)
qed (simp add: from_hex_def)

lemma strip_0x_digits: "hex_digits (strip_0x u) = [] \<longleftrightarrow> (u = [] \<or> hex_val (hd u) = None)"
proof (cases "\<exists>d rest x. u = CHR ''0'' # x # d # rest \<and> (x = CHR ''x'' \<or> x = CHR ''X'') \<and> hex_val d \<noteq> None")
  case True
  moreover have "hex_val (CHR ''0'') \<noteq> None" by (simp add: hex_val_def)
  ultimately show ?thesis by (auto simp: strip_0x_def)
next
  case False
  then have "strip_0x u = u" by (auto simp: strip_0x_def split: list.splits)
  then show ?thesis by (cases u) (auto split: option.splits)
qed

lemma stoull16_reads:
  assumes "length s \<le> 16"
  shows "(\<exists>w. stoull16 s = Inr w) \<longleftrightarrow> reads_hex s"
proof -
  define t where "t = dropWhile is_space s"
  define u where "u = (if t \<noteq> [] \<and> (hd t = CHR ''-'' \<or> hd t = CHR ''+'') then tl t else t)"
  have "length (strip_0x u) \<le> length u" by (auto simp: strip_0x_def split: list.splits)
  also have "length u \<le> length t" by (simp add: u_def)
  also have "length t \<le> 16" using assms length_dropWhile_le[of is_space s] by (simp add: t_def)
  finally have "length (hex_digits (strip_0x u)) \<le> 16" using hex_digits_bound[of "strip_0x u"] by linarith
  moreover have "from_hex (hex_digits (strip_0x u)) < 16 ^ length (hex_digits (strip_0x u))"
    using hex_digits_bound[of "strip_0x u"] from_hex_bound by blast
  moreover have "(16 :: nat) ^ length (hex_digits (strip_0x u)) \<le> 16 ^ 16"
    by (rule power_increasing) (use calculation(1) in simp_all)
  ultimately have "from_hex (hex_digits (strip_0x u)) < 16 ^ 16" by (metis less_le_trans)
  then have "(\<exists>w. stoull16 s = Inr w) \<longleftrightarrow> u \<noteq> [] \<and> hex_val (hd u) \<noteq> None"
    using strip_0x_digits[of u] by (simp add: stoull16_def Let_def t_def[symmetric] u_def[symmetric])
  also have "\<dots> \<longleftrightarrow> reads_hex s"
  proof
    assume h: "u \<noteq> [] \<and> hex_val (hd u) \<noteq> None"
    let ?sign = "if t \<noteq> [] \<and> (hd t = CHR ''-'' \<or> hd t = CHR ''+'') then [hd t] else []"
    have "t = ?sign @ hd u # tl u" using h by (auto simp: u_def)
    then have "s = takeWhile is_space s @ ?sign @ hd u # tl u"
      using takeWhile_dropWhile_id[of is_space s] by (simp add: t_def)
    moreover have "list_all is_space (takeWhile is_space s)" by (auto simp: list_all_iff dest: set_takeWhileD)
    moreover have "?sign \<in> {'''', ''+'', ''-''}" by auto
    ultimately show "reads_hex s" using h unfolding reads_hex_def by blast
  next
    assume "reads_hex s"
    then obtain blank sign d rest where s: "s = blank @ sign @ d # rest" "list_all is_space blank"
      "sign \<in> {'''', ''+'', ''-''}" "hex_val d \<noteq> None"
      unfolding reads_hex_def by blast
    note d = hex_val_not_special[OF s(4)]
    have "t = dropWhile is_space (sign @ d # rest)"
      using s(1,2) by (simp add: t_def dropWhile_append2 list_all_iff)
    then have "t = sign @ d # rest" using s(3) d by (auto simp: is_space_def)
    then have "u = d # rest" using s(3) d by (auto simp: u_def)
    then show "u \<noteq> [] \<and> hex_val (hd u) \<noteq> None" using s(4) by simp
  qed
  finally show ?thesis .
qed

lemma parse_highwayhash_key_reads:
  "(\<exists>key. parse_highwayhash_key src = Inr key) \<longleftrightarrow>
     length src = 64 \<and> (\<forall>i < 4. reads_hex (take 16 (drop (i * 16) src)))"
proof -
  have w: "(\<exists>w. stoull16 (take 16 x) = Inr w) \<longleftrightarrow> reads_hex (take 16 x)" for x by (rule stoull16_reads) simp
  have four: "(\<forall>i < 4. P i) \<longleftrightarrow> P 0 \<and> P 1 \<and> P 2 \<and> P (3 :: nat)" for P
    by (auto simp: numeral_eq_Suc less_Suc_eq)
  show ?thesis
    unfolding four w[symmetric]
    by (auto simp: parse_highwayhash_key_def Let_def res_bind_eq_Inr res_map_eq_Inr)
qed

text \<open>
  The conditions under which the environment gives a configuration, of the variables, of the
  file system and of what \<open>stoull\<close> and \<open>atoi\<close> can read.
\<close>

definition env_acceptable :: "(string \<Rightarrow> string option) \<Rightarrow> fs_status \<Rightarrow> bool" where
  "env_acceptable getenv status \<longleftrightarrow>
     (let var = (\<lambda>name. getenv (''EC_PRV_URL_SHORTENER__'' @ name)) in
        (\<exists>s. var ''HIGHWAYHASH_KEY'' = Some s \<and> length s = 64 \<and>
           (\<forall>i < 4. reads_hex (take 16 (drop (i * 16) s)))) \<and>
        (\<forall>name \<in> {''RPC_PORT'', ''IP_RATE_LIMITER_TTL_SECONDS'', ''WEB_SERVER_PORT'', ''SLUG_LENGTH''}.
           \<forall>s. var name = Some s \<longrightarrow> atoi s \<noteq> Inl Undefined) \<and>
        (\<forall>name \<in> {''STATIC_FILE_DOC_ROOT'', ''CA_CERTS_PATH''}.
           \<forall>p. var name = Some p \<longrightarrow> fs_exists status p = Inr True) \<and>
        (\<exists>p. var ''FRONTEND_DOC_ROOT'' = Some p \<and> fs_exists status p = Inr True) \<and>
        (\<exists>s. var ''CAPTCHA_SERVICE_API_KEY'' = Some s \<and> s \<noteq> []) \<and>
        var ''KNOWN_CLOUDFLARE_CIDRS'' \<noteq> None \<and> var ''ALLOWED_REVERSE_PROXY_CIDRS'' \<noteq> None \<and>
        (\<forall>s n. var ''SLUG_LENGTH'' = Some s \<longrightarrow> atoi s = Inr n \<longrightarrow> \<not> 256 dvd n))"

lemma env_slug_length_pos:
  "0 < env_slug_length getenv \<longleftrightarrow>
     (\<forall>s n. getenv (env_name ''SLUG_LENGTH'') = Some s \<longrightarrow> atoi s = Inr n \<longrightarrow> \<not> 256 dvd n)"
proof -
  have "(word_of_int n :: u8) = 0 \<longleftrightarrow> 256 dvd n" for n
    by (simp add: word_of_int_eq_0_iff)
  then show ?thesis
    by (auto simp: env_slug_length_def word_neq_0_conv[symmetric] split: option.split sum.split)
qed

lemma env_int_ok_all: "env_int_ok getenv name \<longleftrightarrow> (\<forall>s. getenv (env_name name) = Some s \<longrightarrow> atoi s \<noteq> Inl Undefined)"
  by (simp add: env_int_ok_def split: option.split)

lemma env_acceptable_steps:
  "env_acceptable getenv status \<longleftrightarrow>
     (\<exists>key. env_key getenv = Inr key) \<and>
     env_int_ok getenv ''RPC_PORT'' \<and> env_int_ok getenv ''IP_RATE_LIMITER_TTL_SECONDS'' \<and>
     env_int_ok getenv ''WEB_SERVER_PORT'' \<and> env_int_ok getenv ''SLUG_LENGTH'' \<and>
     (\<exists>p. env_existing_path getenv status ''STATIC_FILE_DOC_ROOT'' '''' = Inr p) \<and>
     (\<exists>p. env_frontend_doc_root getenv status = Inr p) \<and>
     (\<exists>p. env_existing_path getenv status ''CA_CERTS_PATH'' '''' = Inr p) \<and>
     (\<exists>s. env_captcha_key getenv = Inr s) \<and>
     (\<exists>xs. env_csv getenv ''KNOWN_CLOUDFLARE_CIDRS'' = Inr xs) \<and>
     (\<exists>xs. env_csv getenv ''ALLOWED_REVERSE_PROXY_CIDRS'' = Inr xs) \<and>
     0 < env_slug_length getenv"
proof -
  have key: "(\<exists>key. env_key getenv = Inr key) \<longleftrightarrow>
      (\<exists>s. getenv (env_name ''HIGHWAYHASH_KEY'') = Some s \<and> length s = 64 \<and>
         (\<forall>i < 4. reads_hex (take 16 (drop (i * 16) s))))"
    using parse_highwayhash_key_reads by (auto simp: env_key_Inr)
  have path: "(\<exists>p. env_existing_path getenv status name '''' = Inr p) \<longleftrightarrow>
      (\<forall>p. getenv (env_name name) = Some p \<longrightarrow> fs_exists status p = Inr True)" for name
    by (cases "getenv (env_name name)") (simp_all add: env_existing_path_Inr)
  have csv: "(\<exists>xs. env_csv getenv name = Inr xs) \<longleftrightarrow> getenv (env_name name) \<noteq> None" for name
    by (auto simp: env_csv_Inr)
  show ?thesis
    unfolding key path csv env_int_ok_all env_slug_length_pos env_frontend_doc_root_Inr env_captcha_key_Inr
      env_acceptable_def Let_def env_name_def
    by auto
qed

definition config_valid :: "fs_status \<Rightarrow> (string \<Rightarrow> 'net option) \<Rightarrow> 'net ReadOnlyAppConfig \<Rightarrow> bool" where
  "config_valid status tryCreateNetwork cfg \<longleftrightarrow>
     (case highwayhash_key cfg of None \<Rightarrow> False | Some key \<Rightarrow> length key = 4) \<and>
     0 < slug_length cfg \<and> 2 \<le> length (cfg_alphabet cfg) \<and>
     fs_exists status (frontend_doc_root cfg) = Inr True \<and>
     (static_file_doc_root cfg = '''' \<or> fs_exists status (static_file_doc_root cfg) = Inr True) \<and>
     captcha_service_api_key cfg \<noteq> [] \<and> web_server_bind_host cfg \<noteq> [] \<and>
     cf_cidrs cfg = List.map_filter tryCreateNetwork (known_cloudflare_cidrs cfg) \<and>
     reverse_proxy_cidrs cfg = List.map_filter tryCreateNetwork (allowed_reverse_proxy_cidrs cfg)"

lemma new_from_env_InrE:
  assumes "(new_from_env getenv status tryCreateNetwork :: 'net ReadOnlyAppConfig res) = Inr cfg"
  obtains hhkey rpc_port ttl port static_root frontend_root certs captcha cf_strs rp_strs slug_len
  where "env_key getenv = Inr hhkey" "env_int getenv ''RPC_PORT'' = Inr rpc_port"
    "env_int getenv ''IP_RATE_LIMITER_TTL_SECONDS'' = Inr ttl"
    "env_int getenv ''WEB_SERVER_PORT'' = Inr port"
    "env_existing_path getenv status ''STATIC_FILE_DOC_ROOT'' '''' = Inr static_root"
    "env_frontend_doc_root getenv status = Inr frontend_root"
    "env_existing_path getenv status ''CA_CERTS_PATH''
       (trusted_certificates_path (initial_config :: 'net ReadOnlyAppConfig)) = Inr certs"
    "env_captcha_key getenv = Inr captcha" "env_csv getenv ''KNOWN_CLOUDFLARE_CIDRS'' = Inr cf_strs"
    "env_csv getenv ''ALLOWED_REVERSE_PROXY_CIDRS'' = Inr rp_strs"
    "env_int getenv ''SLUG_LENGTH'' = Inr slug_len"
    "0 < store_int slug_len (slug_length (initial_config :: 'net ReadOnlyAppConfig))"
    "highwayhash_key cfg = Some hhkey" "slug_length cfg = store_int slug_len (slug_length (initial_config :: 'net ReadOnlyAppConfig))"
    "static_file_doc_root cfg = static_root" "frontend_doc_root cfg = frontend_root"
    "captcha_service_api_key cfg = captcha"
    "known_cloudflare_cidrs cfg = cf_strs" "cf_cidrs cfg = push_networks tryCreateNetwork cf_strs"
    "allowed_reverse_proxy_cidrs cfg = rp_strs"
    "reverse_proxy_cidrs cfg = push_networks tryCreateNetwork rp_strs"
    "cfg_alphabet cfg = env_string getenv ''ALPHABET'' (\<lambda>a. length a > 1)
                          (cfg_alphabet (initial_config :: 'net ReadOnlyAppConfig))"
    "web_server_bind_host cfg = env_string getenv ''WEB_SERVER_BIND_HOST'' (\<lambda>h. length h > 0) ''127.0.0.1''"
    "urls_db_path cfg = ''''"
proof -
  have root: "static_file_doc_root (initial_config :: 'net ReadOnlyAppConfig) = ''''"
    "web_server_bind_host (initial_config :: 'net ReadOnlyAppConfig) = ''127.0.0.1''"
    "urls_db_path (initial_config :: 'net ReadOnlyAppConfig) = ''''"
    by (simp_all add: initial_config_def)
  show ?thesis
    using assms unfolding new_from_env_def Let_def res_bind_eq_Inr check_that_eq_Inr root
    by (elim exE conjE) (rule that, assumption+, (drule Inr_inject, hypsubst, simp add: root)+)
qed

lemma env_existing_path_Inr_old:
  "(\<exists>p. env_existing_path getenv status name old = Inr p) \<longleftrightarrow>
   (\<exists>p. env_existing_path getenv status name old' = Inr p)"
  by (cases "getenv (env_name name)") (simp_all add: env_existing_path_def)


lemma new_from_env_valid:
  assumes "(new_from_env getenv status tryCreateNetwork :: 'net ReadOnlyAppConfig res) = Inr cfg"
  shows "config_valid status tryCreateNetwork cfg"
  using assms
proof (rule new_from_env_InrE, goal_cases)
  case 1
  have "length hhkey = 4" if "env_key getenv = Inr hhkey" for hhkey
    using that parse_highwayhash_key_length by (auto simp: env_key_Inr)
  with 1 show ?case
    using env_alphabet_length[of getenv, where 'net = 'net]
      env_string_cases[of getenv "''WEB_SERVER_BIND_HOST''" "\<lambda>h. length h > 0" "''127.0.0.1''"]
    by (auto simp: config_valid_def push_networks_filter env_Inr split: option.splits)
qed

text \<open>
  A configuration read from the environment is complete: a key of four words, a positive
  slug length, an alphabet of at least two characters, existing document roots, a reCAPTCHA
  key, and exactly the parsable ranges.  With an alphabet no longer than the built-in one the
  slug service that \<open>main\<close> builds from it has a base its digits are defined for.
\<close>

theorem new_from_env_usable:
  assumes "(new_from_env getenv status tryCreateNetwork :: 'net ReadOnlyAppConfig res) = Inr cfg"
    and "length (cfg_alphabet cfg) \<le> length alphabet"
  shows "config_valid status tryCreateNetwork cfg \<and>
         base_ok (new_UrlShorteningConfig (cfg_alphabet cfg) (slug_length cfg) (the (highwayhash_key cfg))) \<and>
         slug_length cfg = env_slug_length getenv"
proof (intro conjI)
  show v: "config_valid status tryCreateNetwork cfg" using assms(1) by (rule new_from_env_valid)
  then show "base_ok (new_UrlShorteningConfig (cfg_alphabet cfg) (slug_length cfg) (the (highwayhash_key cfg)))"
    using assms(2) by (simp add: config_valid_def base_ok_def new_UrlShorteningConfig_def)
  show "slug_length cfg = env_slug_length getenv"
    using assms(1) by (rule new_from_env_InrE) (simp add: env_slug_length_store)
qed

text \<open>An environment with the required variables, and a file system where every path exists.\<close>

definition sample_env :: "string \<Rightarrow> string option" where
  "sample_env name =
     map_of [(env_name ''HIGHWAYHASH_KEY'', concat (map hex16 [1, 2, 3, 4])),
             (env_name ''FRONTEND_DOC_ROOT'', ''/srv/www''),
             (env_name ''CAPTCHA_SERVICE_API_KEY'', ''key''),
             (env_name ''KNOWN_CLOUDFLARE_CIDRS'', ''10.0.0.0/8,x''),
             (env_name ''ALLOWED_REVERSE_PROXY_CIDRS'', ''''),
             (env_name ''SLUG_LENGTH'', ''260'')] name"

definition all_exist :: fs_status where
  "all_exist p = Some \<lparr>st_exists = True, st_is_directory = True, st_owner_write = True\<rparr>"

lemma sample_env_simps:
  "env_key sample_env = Inr [1, 2, 3, 4]"
  "env_int sample_env ''RPC_PORT'' = Inr None"
  "env_int sample_env ''IP_RATE_LIMITER_TTL_SECONDS'' = Inr None"
  "env_int sample_env ''WEB_SERVER_PORT'' = Inr None"
  "env_int sample_env ''SLUG_LENGTH'' = Inr (Some 260)"
  "env_existing_path sample_env all_exist ''STATIC_FILE_DOC_ROOT'' p = Inr p"
  "env_frontend_doc_root sample_env all_exist = Inr ''/srv/www''"
  "env_existing_path sample_env all_exist ''CA_CERTS_PATH'' p = Inr p"
  "env_captcha_key sample_env = Inr ''key''"
  "env_csv sample_env ''KNOWN_CLOUDFLARE_CIDRS'' = Inr [''10.0.0.0/8'', ''x'']"
  "env_csv sample_env ''ALLOWED_REVERSE_PROXY_CIDRS'' = Inr []"
  "env_string sample_env ''ALPHABET'' accept old = old"
proof -
  have "atoi ''260'' = Inr 260" "split_csv_string ''10.0.0.0/8,x'' = [''10.0.0.0/8'', ''x'']"
    "split_csv_string '''' = []"
    by code_simp+
  then show "env_int sample_env ''SLUG_LENGTH'' = Inr (Some 260)"
    "env_csv sample_env ''KNOWN_CLOUDFLARE_CIDRS'' = Inr [''10.0.0.0/8'', ''x'']"
    "env_csv sample_env ''ALLOWED_REVERSE_PROXY_CIDRS'' = Inr []"
    by (simp_all add: env_int_def env_csv_def sample_env_def env_name_def)
  show "env_key sample_env = Inr [1, 2, 3, 4]"
    using create_highwayhash_key_concat[of 1 2 3 4]
    by (simp add: env_key_def sample_env_def env_name_def parse_highwayhash_key_eq del: concat.simps list.map)
qed (simp_all add: env_int_def env_existing_path_def env_frontend_doc_root_def env_captcha_key_def
    env_string_def sample_env_def env_name_def all_exist_def fs_exists_def)

lemma sample_env_loads:
  obtains cfg :: "nat ReadOnlyAppConfig"
  where "new_from_env sample_env all_exist (\<lambda>s. if s = ''x'' then None else Some 10) = Inr cfg"
    and "cfg_alphabet cfg = alphabet" and "env_slug_length sample_env = 4" and "slug_length cfg = 4"
proof -
  have d: "cfg_alphabet (initial_config :: nat ReadOnlyAppConfig) = alphabet"
    "slug_length (initial_config :: nat ReadOnlyAppConfig) = 7"
    by (simp_all add: initial_config_def alphabet_def)
  have s: "store_int (Some 260) (7 :: u8) = 4" by (simp add: store_int_def)
  have c: "check_that (0 < (4 :: u8)) = Inr ()" "check_that (0 < length alphabet) = Inr ()" by simp_all
  have "env_slug_length sample_env = 4"
    using env_slug_length_store[OF sample_env_simps(5), where 'net = nat] s d by simp
  moreover have "\<exists>cfg :: nat ReadOnlyAppConfig.
      new_from_env sample_env all_exist (\<lambda>s. if s = ''x'' then None else Some 10) = Inr cfg \<and>
      cfg_alphabet cfg = alphabet \<and> slug_length cfg = 4"
    unfolding new_from_env_def Let_def sample_env_simps res_bind_simps d s c
    by (intro exI conjI, rule refl) simp_all
  ultimately show ?thesis using that by blast
qed

theorem new_from_env_usable_witness:
  "\<exists>cfg :: nat ReadOnlyAppConfig.
     new_from_env sample_env all_exist (\<lambda>s. if s = ''x'' then None else Some 10) = Inr cfg \<and>
     config_valid all_exist (\<lambda>s. if s = ''x'' then None else Some 10) cfg \<and> slug_length cfg = 4"
proof -
  obtain cfg :: "nat ReadOnlyAppConfig"
    where l: "new_from_env sample_env all_exist (\<lambda>s. if s = ''x'' then None else Some 10) = Inr cfg"
      "cfg_alphabet cfg = alphabet" "slug_length cfg = 4"
    by (rule sample_env_loads)
  then have "length (cfg_alphabet cfg) \<le> length alphabet" by simp
  from new_from_env_usable[OF l(1) this] l show ?thesis by blast
qed

section \<open>What the YAML file is not checked for, and how a configuration ends\<close>

text \<open>A file that gives the listed slug length and alphabet and is in order otherwise.\<close>

definition sample_yaml :: "u8 \<Rightarrow> string \<Rightarrow> yaml_node" where
  "sample_yaml n alphabet0 =
     \<lparr>as_u8 = (\<lambda>_. Inr n), as_u16 = (\<lambda>_. Inr 8080), as_u32 = (\<lambda>_. Inr 60),
      as_string = (\<lambda>k. if k = ''alphabet'' then Inr alphabet0
                       else if k = ''url_generator_salt'' then Inr (concat (map hex16 [1, 2, 3, 4]))
                       else Inr ''/srv/www/db''),
      as_strings = (\<lambda>_. Inr [])\<rparr>"

lemma sample_yaml_loads:
  obtains cfg :: "'net ReadOnlyAppConfig"
  where "new_from_yaml all_exist f (\<lambda>_. Inr (sample_yaml n alphabet0)) file = Inr cfg"
    and "slug_length cfg = n" and "cfg_alphabet cfg = alphabet0" and "highwayhash_key cfg = Some [1, 2, 3, 4]"
proof -
  have k: "parse_highwayhash_key (concat (map hex16 [1, 2, 3, 4])) = Inr [1, 2, 3, 4]"
    unfolding parse_highwayhash_key_eq by (rule create_highwayhash_key_concat)
  have y: "as_u8 (sample_yaml n alphabet0) key = Inr n" "as_u16 (sample_yaml n alphabet0) key = Inr 8080"
    "as_u32 (sample_yaml n alphabet0) key = Inr 60" "as_strings (sample_yaml n alphabet0) key = Inr []"
    "as_string (sample_yaml n alphabet0) ''alphabet'' = Inr alphabet0"
    "as_string (sample_yaml n alphabet0) ''url_generator_salt'' = Inr (concat (map hex16 [1, 2, 3, 4]))"
    "key \<noteq> ''alphabet'' \<Longrightarrow> key \<noteq> ''url_generator_salt'' \<Longrightarrow>
     as_string (sample_yaml n alphabet0) key = Inr ''/srv/www/db''" for key
    by (simp_all add: sample_yaml_def)
  have "\<exists>cfg :: 'net ReadOnlyAppConfig.
      new_from_yaml all_exist f (\<lambda>_. Inr (sample_yaml n alphabet0)) file = Inr cfg \<and>
      slug_length cfg = n \<and> cfg_alphabet cfg = alphabet0 \<and> highwayhash_key cfg = Some [1, 2, 3, 4]"
    by (simp add: new_from_yaml_def y k all_exist_def can_write_to_dir_def del: concat.simps list.map)
  then show ?thesis using that by blast
qed

text \<open>A slug length of 0 gives every URL the empty slug; an empty alphabet divides by zero.\<close>

lemma slug_while_length_0: "slug_while b 0 (Suc n) (ws, i, dst) = Inr (Some (ws, i, []))"
  by (induction n arbitrary: dst) simp_all

lemma generate_slug_length_0:
  assumes "usc_slug_length cfg = 0" and "0 < nth_try"
  shows "generate_slug cfg dst long_url nth_try = Inr (Some '''')"
proof -
  obtain n where "unat nth_try = Suc n" using assms(2) by (cases "unat nth_try") (auto simp: unat_eq_0)
  then show ?thesis by (simp add: generate_slug_def assms(1) slug_while_length_0 del: slug_while.simps)
qed

lemma generate_slug_no_alphabet:
  assumes "usc_alphabet cfg = []" and "0 < usc_slug_length cfg" and "0 < nth_try"
  shows "generate_slug cfg dst long_url nth_try = Inl Undefined"
proof -
  obtain n where n: "unat nth_try = Suc n" using assms(3) by (cases "unat nth_try") (auto simp: unat_eq_0)
  obtain l where l: "unat (usc_slug_length cfg) = Suc l"
    using assms(2) by (cases "unat (usc_slug_length cfg)") (auto simp: unat_eq_0)
  have "slug_char 0 (ws, 0, []) = Inl Undefined" for ws :: "u64 list"
    by (simp add: slug_char_def)
  then show ?thesis by (simp add: generate_slug_def assms(1) n l)
qed

text \<open>
  The YAML file is not checked the way the environment is: for every slug length and every
  alphabet there is a file that loads with exactly these.  With slug length 0 the slug
  service built from it gives every URL the same empty slug; with an empty alphabet and a
  positive length its first use divides by zero.
\<close>

theorem new_from_yaml_unchecked:
  "\<exists>cfg :: 'net ReadOnlyAppConfig.
     new_from_yaml all_exist f (\<lambda>_. Inr (sample_yaml n alphabet0)) file = Inr cfg \<and>
     (let svc = new_UrlShorteningConfig (cfg_alphabet cfg) (slug_length cfg) (the (highwayhash_key cfg))
      in usc_slug_length svc = n \<and> usc_alphabet svc = alphabet0 \<and>
         (if n = 0 then generate_slug svc dst long_url 1 = Inr (Some '''')
          else if alphabet0 = '''' then generate_slug svc dst long_url 1 = Inl Undefined
          else base_ok svc = (2 \<le> length alphabet0 \<and> length alphabet0 \<le> 58)))"
proof -
  obtain cfg :: "'net ReadOnlyAppConfig"
    where cfg: "new_from_yaml all_exist f (\<lambda>_. Inr (sample_yaml n alphabet0)) file = Inr cfg"
      "slug_length cfg = n" "cfg_alphabet cfg = alphabet0"
    by (rule sample_yaml_loads)
  let ?svc = "new_UrlShorteningConfig (cfg_alphabet cfg) (slug_length cfg) (the (highwayhash_key cfg))"
  have s: "usc_slug_length ?svc = n" "usc_alphabet ?svc = alphabet0"
    by (simp_all add: new_UrlShorteningConfig_def cfg)
  have "n = 0 \<Longrightarrow> generate_slug ?svc dst long_url 1 = Inr (Some '''')"
    using s by (intro generate_slug_length_0) simp_all
  moreover have "n \<noteq> 0 \<Longrightarrow> alphabet0 = '''' \<Longrightarrow> generate_slug ?svc dst long_url 1 = Inl Undefined"
    using s by (intro generate_slug_no_alphabet) (simp_all add: word_neq_0_conv)
  ultimately show ?thesis
    using cfg s by (intro exI[of _ cfg]) (simp add: Let_def base_ok_def)
qed

lemma new_from_yaml_key:
  "new_from_yaml status f LoadFile file = Inr cfg \<Longrightarrow> \<exists>key. highwayhash_key cfg = Some key \<and> length key = 4"
  by (auto simp: new_from_yaml_def res_bind_eq_Inr dest: parse_highwayhash_key_length)

text \<open>
  Every configuration either loader returns is destroyed with undefined behaviour: the key
  is always present, was allocated as an array and is freed as a single object.
\<close>

theorem config_deleter_undefined:
  assumes "new_from_env getenv status f = Inr cfg \<or> new_from_yaml status f LoadFile file = Inr cfg"
  shows "ReadOnlyAppConfigDeleter cfg = Inl Undefined"
  using assms
proof
  assume "new_from_env getenv status f = Inr cfg"
  then have "config_valid status f cfg" by (rule new_from_env_valid)
  then show ?thesis by (auto simp: ReadOnlyAppConfigDeleter_def config_valid_def split: option.splits)
next
  assume "new_from_yaml status f LoadFile file = Inr cfg"
  then show ?thesis using new_from_yaml_key by (fastforce simp: ReadOnlyAppConfigDeleter_def)
qed

theorem config_deleter_undefined_witness:
  "\<exists>cfg :: nat ReadOnlyAppConfig.
     new_from_yaml all_exist (\<lambda>_. None) (\<lambda>_. Inr (sample_yaml 7 alphabet)) ''prv.yaml'' = Inr cfg \<and>
     ReadOnlyAppConfigDeleter cfg = Inl Undefined"
proof -
  obtain cfg :: "nat ReadOnlyAppConfig"
    where "new_from_yaml all_exist (\<lambda>_. None) (\<lambda>_. Inr (sample_yaml 7 alphabet)) ''prv.yaml'' = Inr cfg"
    by (rule sample_yaml_loads)
  then show ?thesis
    using config_deleter_undefined[of "\<lambda>_. None" all_exist "\<lambda>_. None" cfg
        "\<lambda>_. Inr (sample_yaml 7 alphabet)" "''prv.yaml''"] by blast
qed

end
