(* ===== verification/Http.thy ===== *)
theory Http
  imports Prelude
begin

text \<open>
  What the request handlers use of proxygen: the message they are given, the calls they make on
  the downstream side, and the callbacks they receive.  Parsing of HTTP is proxygen's; a
  message offers the tests and the values the program reads.
\<close>

section \<open>Messages and responses\<close>

datatype http_method = GET | POST | PUT | DELETE | HEAD | OPTIONS | CONNECT | TRACE | PATCH

text \<open>
  \<open>msg_header_exists\<close> and \<open>msg_header_single\<close> are \<open>getHeaders().exists(name)\<close> and
  \<open>getSingleOrEmpty(name)\<close>; \<open>msg_method\<close> is None for a method proxygen does not know.
\<close>

record 'ip http_message =
  msg_method :: "http_method option"
  msg_path :: string
  msg_client_ip :: 'ip
  msg_header_exists :: "string \<Rightarrow> bool"
  msg_header_single :: "string \<Rightarrow> string"

text \<open>
  A response as \<open>ResponseBuilder\<close> sends it: \<open>send\<close> may be followed by more of the body,
  \<open>sendWithEOM\<close> ends the message.
\<close>

datatype downstream_op =
    Send nat string "(string \<times> string) list" string
  | Send_With_EOM nat string "(string \<times> string) list" string
  | Send_Body string
  | Send_EOM
  | Send_Abort

text \<open>The calls that open a response; proxygen allows one of them in a transaction.\<close>

fun starts_response :: "downstream_op \<Rightarrow> bool" where
  "starts_response (Send status what headers body) = True"
| "starts_response (Send_With_EOM status what headers body) = True"
| "starts_response _ = False"

definition responses :: "downstream_op list \<Rightarrow> nat" where
  "responses out = length (filter starts_response out)"

lemma responses_simps [simp]:
  "responses [] = 0" "responses (out @ out') = responses out + responses out'"
  "responses (op # out) = (if starts_response op then Suc (responses out) else responses out)"
  by (simp_all add: responses_def)

lemma responses_le: "responses out \<le> length out"
  by (simp add: responses_def)

section \<open>Callbacks and event-driven handlers\<close>

text \<open>
  What proxygen calls on a handler.  A handler that has deleted itself must not be called any
  more; the models answer \<open>Undefined\<close> if it is.
\<close>

datatype 'ip callback =
    On_Request "'ip http_message"
  | On_Body string
  | On_EOM
  | On_Upgrade
  | On_Egress_Paused
  | On_Egress_Resumed
  | Request_Complete
  | On_Error

fun is_request :: "'ip callback \<Rightarrow> bool" where
  "is_request (On_Request msg) = True"
| "is_request _ = False"

fun ends_handler :: "'ip callback \<Rightarrow> bool" where
  "ends_handler Request_Complete = True"
| "ends_handler On_Error = True"
| "ends_handler _ = False"

text \<open>
  The order in which proxygen calls a handler: one request, then the other callbacks, then
  exactly one of \<open>requestComplete\<close> and \<open>onError\<close>, and nothing after it.  A filter in front of
  the handler may report an error before the request.
\<close>

datatype phase = Fresh | Serving | Ended

fun next_phase :: "'ip callback \<Rightarrow> phase \<Rightarrow> phase option" where
  "next_phase (On_Request msg) ph = (if ph = Fresh then Some Serving else None)"
| "next_phase Request_Complete ph = (if ph = Ended then None else Some Ended)"
| "next_phase On_Error ph = (if ph = Ended then None else Some Ended)"
| "next_phase _ ph = (if ph = Serving then Some Serving else None)"

fun follows_protocol :: "('e \<Rightarrow> 'ip callback option) \<Rightarrow> 'e list \<Rightarrow> phase \<Rightarrow> bool" where
  "follows_protocol callback_of [] ph = True"
| "follows_protocol callback_of (e # es) ph =
     (case callback_of e of
        None \<Rightarrow> follows_protocol callback_of es ph
      | Some c \<Rightarrow>
          (case next_phase c ph of
             None \<Rightarrow> False
           | Some ph' \<Rightarrow> follows_protocol callback_of es ph'))"

text \<open>The phases are passed in this order.\<close>

instantiation phase :: linorder
begin

definition less_eq_phase :: "phase \<Rightarrow> phase \<Rightarrow> bool" where
  "less_eq_phase p q \<longleftrightarrow> p = q \<or> p = Fresh \<or> q = Ended"

definition less_phase :: "phase \<Rightarrow> phase \<Rightarrow> bool" where
  "less_phase p q \<longleftrightarrow> p \<le> q \<and> p \<noteq> (q :: phase)"

instance
proof
  fix p q r :: phase
  show "p < q \<longleftrightarrow> p \<le> q \<and> \<not> q \<le> p" by (cases p; cases q) (simp_all add: less_phase_def less_eq_phase_def)
  show "p \<le> p" by (simp add: less_eq_phase_def)
  show "p \<le> q \<Longrightarrow> q \<le> r \<Longrightarrow> p \<le> r" by (auto simp: less_eq_phase_def)
  show "p \<le> q \<Longrightarrow> q \<le> p \<Longrightarrow> p = q" by (auto simp: less_eq_phase_def)
  show "p \<le> q \<or> q \<le> p" by (cases p; cases q) (simp_all add: less_eq_phase_def)
qed

end

lemma next_phase_mono: "next_phase c ph = Some ph' \<Longrightarrow> ph \<le> ph'"
  by (cases c) (auto simp: less_eq_phase_def split: if_splits)

lemma next_phase_request: "is_request c \<Longrightarrow> next_phase c ph = Some ph' \<Longrightarrow> ph < Serving \<and> Serving \<le> ph'"
  by (cases c) (auto simp: less_eq_phase_def less_phase_def split: if_splits)

text \<open>In this order a handler is given one request at most, and none once it has been served one.\<close>

lemma protocol_requests:
  "follows_protocol callback_of es ph \<Longrightarrow>
   length (filter (\<lambda>e. \<exists>c. callback_of e = Some c \<and> is_request c) es) \<le> (if ph < Serving then 1 else 0)"
proof (induction es arbitrary: ph)
  case (Cons e es)
  show ?case
  proof (cases "callback_of e")
    case (Some c)
    then obtain ph' where ph': "next_phase c ph = Some ph'" "follows_protocol callback_of es ph'"
      using Cons.prems by (auto split: option.splits)
    note ih = Cons.IH[OF ph'(2)]
    have "ph' < Serving \<Longrightarrow> ph < Serving" using next_phase_mono[OF ph'(1)] by simp
    then show ?thesis
      using ih Some next_phase_request[OF _ ph'(1)] by (cases "is_request c") (auto split: if_splits)
  qed (use Cons in auto)
qed simp

text \<open>A sequence of events, stopped by the first fault.\<close>

fun run :: "('e \<Rightarrow> 's \<Rightarrow> 's res) \<Rightarrow> 'e list \<Rightarrow> 's \<Rightarrow> 's res" where
  "run step [] s = Inr s"
| "run step (e # es) s = res_bind (step e s) (run step es)"

text \<open>The states some sequence of events leads to.\<close>

inductive reach :: "('e \<Rightarrow> 's \<Rightarrow> 's res) \<Rightarrow> 's \<Rightarrow> 's \<Rightarrow> bool" for step where
  reach_refl: "reach step s s"
| reach_step: "reach step s s' \<Longrightarrow> step e s' = Inr s'' \<Longrightarrow> reach step s s''"

inductive_cases reachE: "reach step s s'"

lemma run_single: "run step [e] s = step e s"
  by (simp add: res_bind_def split: sum.split)

lemma run_append: "run step (es @ es') s = res_bind (run step es s) (run step es')"
  by (induction es arbitrary: s) (auto simp: res_bind_def split: sum.splits)

text \<open>A run that changes something has a step that changes it.\<close>

lemma run_change:
  "run step es s = Inr s' \<Longrightarrow> f s' \<noteq> f s \<Longrightarrow>
   \<exists>es1 ev s1 s2. run step es1 s = Inr s1 \<and> step ev s1 = Inr s2 \<and> f s2 \<noteq> f s1"
proof (induction es arbitrary: s)
  case (Cons e es)
  then obtain t where t: "step e s = Inr t" "run step es t = Inr s'" by (auto simp: res_bind_eq_Inr)
  show ?case
  proof (cases "f t = f s")
    case True
    then obtain es1 ev s1 s2 where "run step es1 t = Inr s1" "step ev s1 = Inr s2" "f s2 \<noteq> f s1"
      using Cons.IH[OF t(2)] Cons.prems(2) by metis
    moreover from this have "run step (e # es1) s = Inr s1" using t(1) by simp
    ultimately show ?thesis by blast
  next
    case False
    moreover have "run step [] s = Inr s" by simp
    ultimately show ?thesis using t(1) by blast
  qed
qed simp

lemma reach_iff_run: "reach step s s' \<longleftrightarrow> (\<exists>es. run step es s = Inr s')"
proof
  show "reach step s s' \<Longrightarrow> \<exists>es. run step es s = Inr s'"
  proof (induction rule: reach.induct)
    case (reach_refl s)
    show ?case by (rule exI[of _ "[]"]) simp
  next
    case (reach_step s s' e s'')
    then obtain es where "run step es s = Inr s'" by blast
    with reach_step(2) have "run step (es @ [e]) s = Inr s''" by (simp add: run_append)
    then show ?case by blast
  qed
next
  have "run step es s0 = Inr s' \<Longrightarrow> reach step s s0 \<Longrightarrow> reach step s s'" for es s0
  proof (induction es arbitrary: s0)
    case (Cons e es)
    then obtain s1 where "step e s0 = Inr s1" "run step es s1 = Inr s'"
      by (auto simp: res_bind_eq_Inr)
    with Cons show ?case by (blast intro: reach.reach_step)
  qed simp
  then show "\<exists>es. run step es s = Inr s' \<Longrightarrow> reach step s s'"
    by (blast intro: reach.reach_refl)
qed

text \<open>
  The contract of a handler: an invariant of its state that every step keeps, and a weight
  that only a request can raise, by one.  The weight counts the responses a handler has sent
  or is committed to send.
\<close>

locale handler =
  fixes step :: "'e \<Rightarrow> 's \<Rightarrow> 's res"
    and inv :: "'s \<Rightarrow> bool"
    and weight :: "'s \<Rightarrow> nat"
    and starts :: "'e \<Rightarrow> bool"
  assumes step_inv: "inv s \<Longrightarrow> step e s = Inr s' \<Longrightarrow> inv s'"
    and step_weight: "inv s \<Longrightarrow> step e s = Inr s' \<Longrightarrow> weight s' \<le> weight s + (if starts e then 1 else 0)"
begin

lemma run_inv: "inv s \<Longrightarrow> run step es s = Inr s' \<Longrightarrow> inv s'"
  by (induction es arbitrary: s) (auto simp: res_bind_eq_Inr dest: step_inv)

lemma reach_inv: "reach step s s' \<Longrightarrow> inv s \<Longrightarrow> inv s'"
  by (induction rule: reach.induct) (auto dest: step_inv)

lemma run_weight:
  "inv s \<Longrightarrow> run step es s = Inr s' \<Longrightarrow> weight s' \<le> weight s + length (filter starts es)"
proof (induction es arbitrary: s)
  case (Cons e es)
  then obtain s1 where s1: "step e s = Inr s1" "run step es s1 = Inr s'"
    by (auto simp: res_bind_eq_Inr)
  have "weight s' \<le> weight s1 + length (filter starts es)"
    using Cons.IH[of s1] step_inv[OF Cons.prems(1) s1(1)] s1(2) by blast
  then show ?case using step_weight[OF Cons.prems(1) s1(1)] by (auto split: if_splits)
qed simp

end

text \<open>
  A coarse machine whose steps a fine one makes in several: what the coarse one can do, the fine
  one can do too.
\<close>

locale step_refinement =
  fixes coarse :: "'e \<Rightarrow> 's \<Rightarrow> 's res"
    and fine :: "'f \<Rightarrow> 't \<Rightarrow> 't res"
    and conc :: "'s \<Rightarrow> 't"
  assumes step_refined: "coarse e s = Inr s' \<Longrightarrow> \<exists>fs. run fine fs (conc s) = Inr (conc s')"
begin

lemma run_refined: "run coarse es s = Inr s' \<Longrightarrow> \<exists>fs. run fine fs (conc s) = Inr (conc s')"
proof (induction es arbitrary: s)
  case Nil
  then have "run fine [] (conc s) = Inr (conc s')" by simp
  then show ?case by blast
next
  case (Cons e es)
  then obtain s1 where s1: "coarse e s = Inr s1" "run coarse es s1 = Inr s'"
    by (auto simp: res_bind_eq_Inr)
  obtain fs1 fs2 where "run fine fs1 (conc s) = Inr (conc s1)" "run fine fs2 (conc s1) = Inr (conc s')"
    using step_refined[OF s1(1)] Cons.IH[OF s1(2)] by blast
  then have "run fine (fs1 @ fs2) (conc s) = Inr (conc s')" by (simp add: run_append)
  then show ?case by blast
qed

end

end
