(* ===== verification/Ddos_Protection.thy ===== *)
theory Ddos_Protection
  imports App_Config Http "HOL-Library.Signed_Division"
begin

text \<open>
  \<^verbatim>\<open>url_shortener/ddos_protection.h\<close> and \<^verbatim>\<open>ddos_protection.cc\<close>: the counters of the rate limiter,
  the filter that answers for a limited client, and the decision which requests it gets.

  Times are nanoseconds of \<open>system_clock\<close>; every call of \<open>now()\<close> is an argument.  The type of
  an address \<open>'ip\<close>, the test \<open>inSubnet\<close> and the parser \<open>tryFromString\<close> are folly's and are
  parameters.
\<close>

section \<open>IPAccessCountService\<close>

record 'ip IPAccessCountService =
  ip_access_count :: "'ip \<rightharpoonup> u32"
  time_last_recycled :: int
  time_last_added :: int
  svc_ttl :: int

definition time_point_min :: int where
  "time_point_min = - (2 ^ 63)"

definition new_IPAccessCountService :: "int \<Rightarrow> int \<Rightarrow> 'ip IPAccessCountService" where
  "new_IPAccessCountService ttl now =
     \<lparr>ip_access_count = Map.empty, time_last_recycled = now, time_last_added = time_point_min, svc_ttl = ttl\<rparr>"

text \<open>\<open>duration_cast<seconds>\<close> truncates toward zero.\<close>

definition to_seconds :: "int \<Rightarrow> int" where
  "to_seconds ns = ns sdiv 1000000000"

definition recycle :: "int \<Rightarrow> 'ip IPAccessCountService \<Rightarrow> 'ip IPAccessCountService" where
  "recycle now svc = svc\<lparr>ip_access_count := Map.empty, time_last_recycled := now\<rparr>"

text \<open>\<open>now2\<close> is read for the age, \<open>now3\<close> by \<open>recycle\<close>.\<close>

definition check_recycle :: "int \<Rightarrow> int \<Rightarrow> 'ip IPAccessCountService \<Rightarrow> 'ip IPAccessCountService" where
  "check_recycle now2 now3 svc =
     (let age = to_seconds (now2 - time_last_recycled svc)
      in if age > svc_ttl svc then recycle now3 svc else svc)"

definition log_access :: "int \<times> int \<times> int \<Rightarrow> 'ip \<Rightarrow> 'ip IPAccessCountService \<Rightarrow> 'ip IPAccessCountService" where
  "log_access clock ip svc =
     (case clock of (now1, now2, now3) \<Rightarrow>
        let counts = (case ip_access_count svc ip of
                        None \<Rightarrow> (ip_access_count svc)(ip \<mapsto> 1)
                      | Some n \<Rightarrow> (ip_access_count svc)(ip \<mapsto> n + 1))
        in check_recycle now2 now3 (svc\<lparr>ip_access_count := counts, time_last_added := now1\<rparr>))"

definition hits_per_minute :: "'ip IPAccessCountService \<Rightarrow> 'ip \<Rightarrow> u32" where
  "hits_per_minute svc ip =
     (if time_last_added svc < time_last_recycled svc then 0
      else case ip_access_count svc ip of
             None \<Rightarrow> 0
           | Some hits \<Rightarrow>
               if hits = 0 then 0
               else
                 (let over_seconds = to_seconds (time_last_added svc - time_last_recycled svc)
                  in if over_seconds = 0 then 0
                     else word_of_int (uint hits sdiv
                            (if over_seconds sdiv 60 > 0 then over_seconds sdiv 60 else 1))))"

section \<open>AntiAbuseProtection\<close>

definition can_trust_x_forwarded_for ::
  "('ip \<Rightarrow> 'net \<Rightarrow> bool) \<Rightarrow> 'net ReadOnlyAppConfig \<Rightarrow> 'ip http_message \<Rightarrow> bool" where
  "can_trust_x_forwarded_for inSubnet cfg msg = list_ex (inSubnet (msg_client_ip msg)) (reverse_proxy_cidrs cfg)"

definition can_trust_cf_connecting_ip ::
  "('ip \<Rightarrow> 'net \<Rightarrow> bool) \<Rightarrow> 'net ReadOnlyAppConfig \<Rightarrow> 'ip http_message \<Rightarrow> bool" where
  "can_trust_cf_connecting_ip inSubnet cfg msg = list_ex (inSubnet (msg_client_ip msg)) (cf_cidrs cfg)"

definition is_protected :: "'ip http_message \<Rightarrow> bool" where
  "is_protected msg \<longleftrightarrow>
     msg_method msg = Some POST \<or> msg_method msg = Some PUT \<or> msg_method msg = Some DELETE \<or>
     starts_with (msg_path msg) ''/api/''"

text \<open>
  The address a protected request is counted under; None where the code returns a
  \<open>RateLimitFilter\<close> before it counts.
\<close>

definition resolve_client_ip ::
  "('ip \<Rightarrow> 'net \<Rightarrow> bool) \<Rightarrow> (string \<Rightarrow> 'ip option) \<Rightarrow> 'net ReadOnlyAppConfig \<Rightarrow> 'ip http_message \<Rightarrow> 'ip option" where
  "resolve_client_ip inSubnet tryFromString cfg msg =
     (if msg_header_exists msg ''CF-Connecting-IP'' then
        (if \<not> can_trust_cf_connecting_ip inSubnet cfg msg then None
         else tryFromString (msg_header_single msg ''CF-Connecting-IP''))
      else if msg_header_exists msg ''X-Forwarded-For'' then
        (if \<not> can_trust_x_forwarded_for inSubnet cfg msg then None
         else tryFromString (msg_header_single msg ''X-Forwarded-For''))
      else Some (msg_client_ip msg))"

datatype verdict = Pass | Limited

definition protect ::
  "('ip \<Rightarrow> 'net \<Rightarrow> bool) \<Rightarrow> (string \<Rightarrow> 'ip option) \<Rightarrow> 'net ReadOnlyAppConfig \<Rightarrow> int \<times> int \<times> int \<Rightarrow>
   'ip http_message \<Rightarrow> 'ip IPAccessCountService \<Rightarrow> verdict \<times> 'ip IPAccessCountService" where
  "protect inSubnet tryFromString cfg clock msg svc =
     (if is_protected msg then
        (case resolve_client_ip inSubnet tryFromString cfg msg of
           None \<Rightarrow> (Limited, svc)
         | Some client_ip \<Rightarrow>
             (let svc' = log_access clock client_ip svc
              in if hits_per_minute svc' client_ip > rate_limit_per_minute cfg then (Limited, svc')
                 else (Pass, svc')))
      else (Pass, svc))"

text \<open>
  The factory's pointer to the counters.  Every server thread runs \<open>onServerStart\<close> and
  \<open>onServerStop\<close> on the same factory.
\<close>

datatype 'ip svc_ptr = Null_Svc | Live_Svc "'ip IPAccessCountService" | Freed_Svc

definition aap_onServerStart :: "'net ReadOnlyAppConfig \<Rightarrow> int \<Rightarrow> 'ip svc_ptr \<Rightarrow> 'ip svc_ptr" where
  "aap_onServerStart cfg now ptr =
     Live_Svc (new_IPAccessCountService (uint (ip_rate_limiter_seconds_ttl cfg)) now)"

definition aap_onServerStop :: "'ip svc_ptr \<Rightarrow> 'ip svc_ptr res" where
  "aap_onServerStop ptr =
     (case ptr of Null_Svc \<Rightarrow> Inl Aborts | Live_Svc svc \<Rightarrow> Inr Freed_Svc | Freed_Svc \<Rightarrow> Inl Undefined)"

text \<open>A request that is counted dereferences the pointer; the others do not look at it.\<close>

definition aap_onRequest ::
  "('ip \<Rightarrow> 'net \<Rightarrow> bool) \<Rightarrow> (string \<Rightarrow> 'ip option) \<Rightarrow> 'net ReadOnlyAppConfig \<Rightarrow> int \<times> int \<times> int \<Rightarrow>
   'ip http_message \<Rightarrow> 'ip svc_ptr \<Rightarrow> (verdict \<times> 'ip svc_ptr) res" where
  "aap_onRequest inSubnet tryFromString cfg clock msg ptr =
     (if is_protected msg \<and> resolve_client_ip inSubnet tryFromString cfg msg \<noteq> None then
        (case ptr of
           Live_Svc svc \<Rightarrow>
             (case protect inSubnet tryFromString cfg clock msg svc of (v, svc') \<Rightarrow> Inr (v, Live_Svc svc'))
         | _ \<Rightarrow> Inl Undefined)
      else Inr (if is_protected msg then Limited else Pass, ptr))"

section \<open>RateLimitFilter\<close>

text \<open>
  The filter stands in front of the handler the router has made, its upstream.  The upstream is an
  object of its own; \<open>upcall\<close> are its callbacks, on the object and what it shares with the rest
  of the server.  \<open>rl_upstream\<close> says whether the pointer \<open>upstream_\<close> still leads to it.
\<close>

record 'u rate_limit_filter =
  rl_alive :: bool
  rl_upstream :: bool
  rl_object :: 'u
  rl_out :: "downstream_op list"

definition new_RateLimitFilter :: "'u \<Rightarrow> 'u rate_limit_filter" where
  "new_RateLimitFilter upstream =
     \<lparr>rl_alive = True, rl_upstream = True, rl_object = upstream, rl_out = []\<rparr>"

text \<open>A call through \<open>upstream_\<close>; the pointer is null after the upstream has been dropped.\<close>

definition call_upstream ::
  "('ip callback \<Rightarrow> 'u \<times> 'w \<Rightarrow> ('u \<times> 'w) res) \<Rightarrow> 'ip callback \<Rightarrow> 'u rate_limit_filter \<times> 'w \<Rightarrow>
   ('u rate_limit_filter \<times> 'w) res" where
  "call_upstream upcall e fw =
     (case fw of (f, w) \<Rightarrow>
        if rl_upstream f then res_map (\<lambda>(u, w'). (f\<lparr>rl_object := u\<rparr>, w')) (upcall e (rl_object f, w))
        else Inl Undefined)"

definition drop_upstream :: "'u rate_limit_filter \<times> 'w \<Rightarrow> 'u rate_limit_filter \<times> 'w" where
  "drop_upstream = apfst (rl_upstream_update (\<lambda>_. False))"

definition rl_onRequest ::
  "('ip callback \<Rightarrow> 'u \<times> 'w \<Rightarrow> ('u \<times> 'w) res) \<Rightarrow> 'u rate_limit_filter \<times> 'w \<Rightarrow>
   ('u rate_limit_filter \<times> 'w) res" where
  "rl_onRequest upcall fw =
     res_map (\<lambda>fw'. apfst (rl_out_update (\<lambda>out. out @ [Send_With_EOM 429 ''Too Many Requests'' [] '''']))
                      (drop_upstream fw'))
       (call_upstream upcall On_Error fw)"

definition rl_onError ::
  "('ip callback \<Rightarrow> 'u \<times> 'w \<Rightarrow> ('u \<times> 'w) res) \<Rightarrow> 'u rate_limit_filter \<times> 'w \<Rightarrow>
   ('u rate_limit_filter \<times> 'w) res" where
  "rl_onError upcall fw =
     res_map (apfst (rl_alive_update (\<lambda>_. False)))
       (if rl_upstream (fst fw) then res_map drop_upstream (call_upstream upcall On_Error fw) else Inr fw)"

definition rl_requestComplete :: "'u rate_limit_filter \<Rightarrow> 'u rate_limit_filter" where
  "rl_requestComplete f = f\<lparr>rl_alive := False\<rparr>"

text \<open>
  \<open>onUpgrade\<close> is the one callback the class leaves to \<open>proxygen::Filter\<close>, which forwards it to
  \<open>upstream_\<close>.
\<close>

fun rl_callback ::
  "('ip callback \<Rightarrow> 'u \<times> 'w \<Rightarrow> ('u \<times> 'w) res) \<Rightarrow> 'ip callback \<Rightarrow> 'u rate_limit_filter \<times> 'w \<Rightarrow>
   ('u rate_limit_filter \<times> 'w) res" where
  "rl_callback upcall (On_Request msg) fw = rl_onRequest upcall fw"
| "rl_callback upcall On_Error fw = rl_onError upcall fw"
| "rl_callback upcall Request_Complete fw = Inr (apfst rl_requestComplete fw)"
| "rl_callback upcall On_Upgrade fw = call_upstream upcall On_Upgrade fw"
| "rl_callback upcall On_EOM fw = Inr fw"
| "rl_callback upcall (On_Body body) fw = Inr fw"
| "rl_callback upcall On_Egress_Paused fw = Inr fw"
| "rl_callback upcall On_Egress_Resumed fw = Inr fw"

definition rl_step ::
  "('ip callback \<Rightarrow> 'u \<times> 'w \<Rightarrow> ('u \<times> 'w) res) \<Rightarrow> 'ip callback \<Rightarrow> 'u rate_limit_filter \<times> 'w \<Rightarrow>
   ('u rate_limit_filter \<times> 'w) res" where
  "rl_step upcall e fw = (if rl_alive (fst fw) then rl_callback upcall e fw else Inl Undefined)"

lemmas rl_defs = new_RateLimitFilter_def call_upstream_def drop_upstream_def rl_onRequest_def rl_onError_def
  rl_requestComplete_def rl_step_def

text \<open>After its request the filter is safe as long as the connection is not upgraded.\<close>

lemma rl_step_dropped:
  assumes "rl_alive f" and "\<not> rl_upstream f" and "\<not> is_request e" and "e \<noteq> On_Upgrade"
  shows "rl_step upcall e (f, w) = Inr (f\<lparr>rl_alive := \<not> ends_handler e\<rparr>, w)"
  using assms by (cases e) (auto simp: rl_defs)

lemma rl_step_upgrade: "rl_alive f \<Longrightarrow> \<not> rl_upstream f \<Longrightarrow> rl_step upcall On_Upgrade (f, w) = Inl Undefined"
  by (simp add: rl_defs)

section \<open>The counters are a window of the history\<close>

text \<open>
  The abstract limiter keeps the accesses since it was last recycled.  An access older than the
  time to live empties the window, that access included.
\<close>

record 'ip rate_window =
  rw_start :: int
  rw_last :: int
  rw_hits :: "'ip list"

definition window_log :: "int \<Rightarrow> int \<times> int \<times> int \<Rightarrow> 'ip \<Rightarrow> 'ip rate_window \<Rightarrow> 'ip rate_window" where
  "window_log ttl clock ip w =
     (case clock of (now1, now2, now3) \<Rightarrow>
        if to_seconds (now2 - rw_start w) > ttl
        then \<lparr>rw_start = now3, rw_last = now1, rw_hits = []\<rparr>
        else w\<lparr>rw_last := now1, rw_hits := ip # rw_hits w\<rparr>)"

definition window_rate :: "'ip rate_window \<Rightarrow> 'ip \<Rightarrow> nat" where
  "window_rate w ip =
     (let secs = (rw_last w - rw_start w) div 1000000000
      in if rw_last w < rw_start w \<or> secs = 0 then 0
         else count_list (rw_hits w) ip mod 2 ^ 32 div nat (max 1 (secs div 60)))"

definition counts_window :: "'ip IPAccessCountService \<Rightarrow> 'ip rate_window \<Rightarrow> bool" where
  "counts_window svc w \<longleftrightarrow>
     time_last_recycled svc = rw_start w \<and> time_last_added svc = rw_last w \<and>
     (\<forall>ip. ip_access_count svc ip =
        (let n = count_list (rw_hits w) ip in if n = 0 then None else Some (of_nat n)))"

lemma to_seconds_nonneg: "0 \<le> ns \<Longrightarrow> to_seconds ns = ns div 1000000000"
  by (simp add: to_seconds_def signed_divide_int_def sgn_if)

lemma sdiv_nonneg_int: "0 \<le> a \<Longrightarrow> 0 < b \<Longrightarrow> a sdiv b = a div (b :: int)"
  by (simp add: signed_divide_int_def sgn_if)

lemma div_le_self_int: "0 \<le> a \<Longrightarrow> 1 \<le> k \<Longrightarrow> a div k \<le> a" "0 \<le> a \<Longrightarrow> 1 \<le> k \<Longrightarrow> 0 \<le> a div k"
  for a k :: int
  using zdiv_mono2[of a 1 k] by (simp_all add: pos_imp_zdiv_nonneg_iff)

lemma unat_word_of_int_le:
  fixes v :: u32
  assumes "0 \<le> z" and "z \<le> uint v"
  shows "unat (word_of_int z :: u32) = nat z"
proof -
  have "z < 2 ^ 32" using assms uint_lt2p[of v] by simp
  then show ?thesis using assms(1) 
    unfolding unat_eq_nat_uint uint_word_of_int by simp
qed

lemma unat_div_clamped:
  "unat (word_of_int (uint v div max 1 m) :: u32) = unat v div nat (max 1 m)" for v :: u32
proof -
  have "unat (word_of_int (uint v div max 1 m) :: u32) = nat (uint v div max 1 m)"
    by (rule unat_word_of_int_le[of _ v]) (rule div_le_self_int, simp, simp)+
  then show ?thesis by (simp add: nat_div_distrib)
qed

lemma log_access_simps [simp]:
  "svc_ttl (log_access clock ip svc) = svc_ttl svc"
  by (simp add: log_access_def check_recycle_def recycle_def Let_def split: prod.split)

lemma log_access_window:
  assumes "counts_window svc w"
  shows "counts_window (log_access clock ip svc) (window_log (svc_ttl svc) clock ip w)"
  using assms
  by (auto simp: counts_window_def log_access_def window_log_def check_recycle_def recycle_def Let_def
      split: prod.split option.split)

lemma hits_per_minute_window:
  assumes "counts_window svc w"
  shows "unat (hits_per_minute svc ip) = window_rate w ip"
proof -
  let ?n = "count_list (rw_hits w) ip"
  let ?s = "(rw_last w - rw_start w) div 1000000000"
  have eq: "time_last_recycled svc = rw_start w" "time_last_added svc = rw_last w"
    "ip_access_count svc ip = (if ?n = 0 then None else Some (of_nat ?n))"
    using assms by (simp_all add: counts_window_def Let_def)
  show ?thesis
  proof (cases "rw_last w < rw_start w \<or> ?s = 0 \<or> (of_nat ?n :: u32) = 0")
    case True
    then show ?thesis
      using to_seconds_nonneg[of "rw_last w - rw_start w"]
      by (auto simp: hits_per_minute_def window_rate_def eq Let_def word_of_nat_eq_0_iff)
  next
    case False
    then have s: "0 \<le> ?s" "to_seconds (rw_last w - rw_start w) = ?s"
      using to_seconds_nonneg[of "rw_last w - rw_start w"] by (simp_all add: pos_imp_zdiv_nonneg_iff)
    have d: "(if ?s sdiv 60 > 0 then ?s sdiv 60 else 1) = max 1 (?s div 60)"
      using s(1) by (auto simp: sdiv_nonneg_int max_def)
    have q: "uint (of_nat ?n :: u32) sdiv max 1 (?s div 60) = uint (of_nat ?n :: u32) div max 1 (?s div 60)"
      by (intro sdiv_nonneg_int) auto
    have "hits_per_minute svc ip = word_of_int (uint (of_nat ?n :: u32) div max 1 (?s div 60))"
      using False s by (auto simp: hits_per_minute_def eq Let_def d q)
    then have "unat (hits_per_minute svc ip) = ?n mod 2 ^ 32 div nat (max 1 (?s div 60))"
      by (simp only: unat_div_clamped unat_of_nat) simp
    then show ?thesis using False by (simp add: window_rate_def Let_def)
  qed
qed

text \<open>The limiter after a history of accesses, and the window it stands for.\<close>

definition log_all :: "((int \<times> int \<times> int) \<times> 'ip) list \<Rightarrow> 'ip IPAccessCountService \<Rightarrow> 'ip IPAccessCountService" where
  "log_all hist svc = fold (\<lambda>(clock, ip). log_access clock ip) hist svc"

definition window_all :: "int \<Rightarrow> ((int \<times> int \<times> int) \<times> 'ip) list \<Rightarrow> 'ip rate_window \<Rightarrow> 'ip rate_window" where
  "window_all ttl hist w = fold (\<lambda>(clock, ip). window_log ttl clock ip) hist w"

definition empty_window :: "int \<Rightarrow> 'ip rate_window" where
  "empty_window now = \<lparr>rw_start = now, rw_last = time_point_min, rw_hits = []\<rparr>"

lemma counts_window_new: "counts_window (new_IPAccessCountService ttl now) (empty_window now)"
  by (simp add: counts_window_def new_IPAccessCountService_def empty_window_def)

lemma log_all_window:
  "counts_window svc w \<Longrightarrow> svc_ttl svc = ttl \<Longrightarrow> counts_window (log_all hist svc) (window_all ttl hist w)"
proof (induction hist arbitrary: svc w)
  case (Cons a hist)
  obtain clock ip where a: "a = (clock, ip)" by (cases a)
  have "counts_window (log_access clock ip svc) (window_log ttl clock ip w)"
    using log_access_window[OF Cons.prems(1)] Cons.prems(2) by blast
  then have "counts_window (log_all hist (log_access clock ip svc)) (window_all ttl hist (window_log ttl clock ip w))"
    using Cons.prems(2) by (intro Cons.IH) simp_all
  then show ?case by (simp add: log_all_def window_all_def a)
qed (simp add: log_all_def window_all_def)

text \<open>
  After any history of accesses the service reports for an address the accesses of that
  address since the last recycling, modulo $2^{32}$, divided by the whole minutes of the
  window (at least one); it reports 0 while less than a whole second of the window has
  passed, and directly after a recycling.
\<close>

theorem hits_per_minute_counts_history:
  "unat (hits_per_minute (log_all hist (new_IPAccessCountService ttl now)) ip) =
   window_rate (window_all ttl hist (empty_window now)) ip"
  by (intro hits_per_minute_window log_all_window counts_window_new)
     (simp add: new_IPAccessCountService_def)

subsection \<open>Decisions\<close>

text \<open>All the clock readings of a history lie in the first second of the window.\<close>

definition in_first_second :: "int \<Rightarrow> int \<times> int \<times> int \<Rightarrow> bool" where
  "in_first_second start clock =
     (case clock of (now1, now2, now3) \<Rightarrow>
        start \<le> now1 \<and> now1 < start + 1000000000 \<and> start \<le> now2 \<and> now2 < start + 1000000000)"

lemma in_first_second_log:
  assumes "in_first_second (time_last_recycled svc) clock" and "0 \<le> svc_ttl svc"
  shows "hits_per_minute (log_access clock ip svc) ip' = 0"
    and "time_last_recycled (log_access clock ip svc) = time_last_recycled svc"
proof -
  obtain n1 n2 n3 where c: "clock = (n1, n2, n3)" by (cases clock)
  have "to_seconds (n2 - time_last_recycled svc) = 0" "to_seconds (n1 - time_last_recycled svc) = 0"
    using assms(1) by (simp_all add: in_first_second_def c to_seconds_nonneg div_pos_pos_trivial)
  then show "hits_per_minute (log_access clock ip svc) ip' = 0"
    "time_last_recycled (log_access clock ip svc) = time_last_recycled svc"
    using assms(2)
    by (simp_all add: log_access_def c Let_def check_recycle_def hits_per_minute_def split: option.split)
qed

lemma protect_first_second:
  assumes "in_first_second (time_last_recycled svc) clock" and "0 \<le> svc_ttl svc"
    and "resolve_client_ip inSubnet tryFromString cfg msg \<noteq> None"
  shows "fst (protect inSubnet tryFromString cfg clock msg svc) = Pass"
    and "time_last_recycled (snd (protect inSubnet tryFromString cfg clock msg svc)) = time_last_recycled svc"
    and "svc_ttl (snd (protect inSubnet tryFromString cfg clock msg svc)) = svc_ttl svc"
  using assms in_first_second_log[OF assms(1,2)]
  by (auto simp: protect_def Let_def)

text \<open>The verdicts on a sequence of requests, each with the clock readings made for it.\<close>

fun protect_all ::
  "('ip \<Rightarrow> 'net \<Rightarrow> bool) \<Rightarrow> (string \<Rightarrow> 'ip option) \<Rightarrow> 'net ReadOnlyAppConfig \<Rightarrow>
   ((int \<times> int \<times> int) \<times> 'ip http_message) list \<Rightarrow> 'ip IPAccessCountService \<Rightarrow> verdict list" where
  "protect_all inSubnet tryFromString cfg [] svc = []"
| "protect_all inSubnet tryFromString cfg ((clock, msg) # reqs) svc =
     (case protect inSubnet tryFromString cfg clock msg svc of
        (v, svc') \<Rightarrow> v # protect_all inSubnet tryFromString cfg reqs svc')"

lemma protect_all_first_second:
  "\<forall>(clock, msg) \<in> set reqs. in_first_second (time_last_recycled svc) clock \<and>
     resolve_client_ip inSubnet tryFromString cfg msg \<noteq> None \<Longrightarrow> 0 \<le> svc_ttl svc \<Longrightarrow>
   protect_all inSubnet tryFromString cfg reqs svc = replicate (length reqs) Pass"
proof (induction reqs arbitrary: svc)
  case (Cons r reqs)
  obtain clock msg where r: "r = (clock, msg)" by (cases r)
  obtain v svc' where p: "protect inSubnet tryFromString cfg clock msg svc = (v, svc')" by fastforce
  have "v = Pass" "time_last_recycled svc' = time_last_recycled svc" "svc_ttl svc' = svc_ttl svc"
    using protect_first_second[of svc clock inSubnet tryFromString cfg msg] Cons.prems p by (simp_all add: r)
  with Cons show ?case by (simp add: r p)
qed simp

text \<open>
  In the first second of a window nobody is limited: however many requests arrive in it,
  and whatever the configured limit is, every request whose address can be resolved passes.
\<close>

theorem first_second_is_unlimited:
  assumes "\<forall>(clock, msg) \<in> set reqs. in_first_second now clock \<and>
             resolve_client_ip inSubnet tryFromString cfg msg \<noteq> None"
    and "0 \<le> ttl"
  shows "protect_all inSubnet tryFromString cfg reqs (new_IPAccessCountService ttl now) =
         replicate (length reqs) Pass"
  using assms by (intro protect_all_first_second) (simp_all add: new_IPAccessCountService_def)

definition plain_request :: "http_method \<Rightarrow> string \<Rightarrow> 'ip \<Rightarrow> 'ip http_message" where
  "plain_request m p ip =
     \<lparr>msg_method = Some m, msg_path = p, msg_client_ip = ip,
      msg_header_exists = (\<lambda>_. False), msg_header_single = (\<lambda>_. '''')\<rparr>"

theorem first_second_is_unlimited_witness:
  "protect_all (\<lambda>ip net. False) (\<lambda>_. None) (initial_config\<lparr>rate_limit_per_minute := 0\<rparr> :: nat ReadOnlyAppConfig)
     (replicate 1000 ((5, 6, 7), plain_request POST ''/api/v1/create'' (1 :: nat)))
     (new_IPAccessCountService 86400 0) = replicate 1000 Pass"
  using first_second_is_unlimited[of "replicate 1000 ((5, 6, 7), plain_request POST ''/api/v1/create'' (1 :: nat))"
      0 "\<lambda>ip net. False" "\<lambda>_. None" "initial_config\<lparr>rate_limit_per_minute := 0\<rparr> :: nat ReadOnlyAppConfig" 86400]
  by (simp add: in_first_second_def resolve_client_ip_def plain_request_def)

text \<open>
  C27  What \<open>rate_limit_per_minute\<close> limits is the average over the window, not the requests of a
  minute.  After the first second of a window that is not recycled, a protected request is limited
  precisely if the accesses of its address since the window began, this one included, divided by the
  whole minutes that have passed (by 1 in the first two minutes) exceed the limit.  So in the first
  two minutes the requests of both count against the limit for one, and an address that was quiet
  for an hour can make sixty times as many in the minute after it.
\<close>

theorem limited_iff_over_limit:
  assumes "counts_window svc w" and "is_protected msg"
    and "resolve_client_ip inSubnet tryFromString cfg msg = Some ip"
    and "rw_start w + 1000000000 \<le> now1"
    and "rw_start w \<le> now2" and "now2 < rw_start w + (svc_ttl svc + 1) * 1000000000"
    and "count_list (rw_hits w) ip < 2 ^ 32 - 1"
  shows "fst (protect inSubnet tryFromString cfg (now1, now2, now3) msg svc) = Limited \<longleftrightarrow>
         unat (rate_limit_per_minute cfg)
           < (count_list (rw_hits w) ip + 1) div nat (max 1 ((now1 - rw_start w) div (60 * 1000000000)))"
proof -
  let ?w = "w\<lparr>rw_last := now1, rw_hits := ip # rw_hits w\<rparr>"
  have "to_seconds (now2 - rw_start w) \<le> svc_ttl svc"
    using assms(5,6) by (simp add: to_seconds_nonneg)
  then have "window_log (svc_ttl svc) (now1, now2, now3) ip w = ?w" by (simp add: window_log_def)
  then have "counts_window (log_access (now1, now2, now3) ip svc) ?w"
    using log_access_window[OF assms(1)] by metis
  then have rate: "unat (hits_per_minute (log_access (now1, now2, now3) ip svc) ip) = window_rate ?w ip"
    by (rule hits_per_minute_window)
  have secs: "1 \<le> (now1 - rw_start w) div 1000000000" using assms(4) by linarith
  have "(now1 - rw_start w) div (60 * 1000000000) = (now1 - rw_start w) div 1000000000 div 60"
    by (simp add: div_mult2_eq mult.commute)
  then have "window_rate ?w ip =
      (count_list (rw_hits w) ip + 1) div nat (max 1 ((now1 - rw_start w) div (60 * 1000000000)))"
    using assms(4,7) secs by (simp add: window_rate_def Let_def)
  then show ?thesis
    using rate assms(2,3) by (auto simp: protect_def Let_def word_less_nat_alt)
qed

lemma empty_window_simps [simp]: "rw_start (empty_window now) = now" "rw_hits (empty_window now) = []"
  by (simp_all add: empty_window_def)

theorem limited_iff_over_limit_witness:
  "fst (protect (\<lambda>(ip :: nat) (net :: nat). False) (\<lambda>_. None) (initial_config\<lparr>rate_limit_per_minute := 0\<rparr>)
     (2000000000, 2000000001, 2000000002) (plain_request DELETE ''/'' 1)
     (new_IPAccessCountService 86400 0)) = Limited"
  using limited_iff_over_limit[OF counts_window_new[of 86400 0], of "plain_request DELETE ''/'' (1 :: nat)"
      "\<lambda>ip net. False" "\<lambda>_. None" "initial_config\<lparr>rate_limit_per_minute := 0\<rparr> :: nat ReadOnlyAppConfig"
      1 2000000000 2000000001 2000000002]
  by (simp add: is_protected_def plain_request_def resolve_client_ip_def new_IPAccessCountService_def)

text \<open>
  C28  A peer that is in no configured range cannot be counted as anybody else: its protected
  request with a forwarding header is limited without being counted, and any other request of
  it leaves the counter of every other address as it was or recycled.
\<close>

theorem untrusted_peer_cannot_spoof:
  assumes "\<not> list_ex (inSubnet (msg_client_ip msg)) (cf_cidrs cfg)"
    and "\<not> list_ex (inSubnet (msg_client_ip msg)) (reverse_proxy_cidrs cfg)"
    and "protect inSubnet tryFromString cfg clock msg svc = (v, svc')"
  shows "(is_protected msg \<and> (msg_header_exists msg ''CF-Connecting-IP'' \<or> msg_header_exists msg ''X-Forwarded-For'')
            \<longrightarrow> v = Limited \<and> svc' = svc) \<and>
         (\<forall>ip. ip \<noteq> msg_client_ip msg \<longrightarrow>
            ip_access_count svc' ip = ip_access_count svc ip \<or> ip_access_count svc' ip = None)"
proof -
  have other: "ip_access_count (log_access clock a svc) ip \<in> {ip_access_count svc ip, None}" if "ip \<noteq> a" for ip a
    using that by (auto simp: log_access_def check_recycle_def recycle_def Let_def split: prod.split option.split)
  have "resolve_client_ip inSubnet tryFromString cfg msg =
      (if msg_header_exists msg ''CF-Connecting-IP'' \<or> msg_header_exists msg ''X-Forwarded-For'' then None
       else Some (msg_client_ip msg))"
    using assms(1,2)
    by (simp add: resolve_client_ip_def can_trust_cf_connecting_ip_def can_trust_x_forwarded_for_def)
  then show ?thesis
    using assms(3) other[of _ "msg_client_ip msg"]
    by (auto simp: protect_def Let_def split: if_splits)
qed

theorem untrusted_peer_cannot_spoof_witness:
  "fst (protect (\<lambda>(ip :: nat) (net :: nat). False) (\<lambda>_. Some 7) initial_config (0, 0, 0)
     \<lparr>msg_method = Some POST, msg_path = ''/api/v1/create'', msg_client_ip = 1,
      msg_header_exists = (\<lambda>h. h = ''X-Forwarded-For''), msg_header_single = (\<lambda>_. ''10.0.0.7'')\<rparr>
     (new_IPAccessCountService 86400 0)) = Limited"
proof -
  let ?msg = "\<lparr>msg_method = Some POST, msg_path = ''/api/v1/create'', msg_client_ip = 1,
      msg_header_exists = (\<lambda>h. h = ''X-Forwarded-For''), msg_header_single = (\<lambda>_. ''10.0.0.7'')\<rparr> :: nat http_message"
  let ?svc = "new_IPAccessCountService 86400 0 :: nat IPAccessCountService"
  obtain v svc' where p: "protect (\<lambda>(ip :: nat) (net :: nat). False) (\<lambda>_. Some 7) initial_config (0, 0, 0) ?msg ?svc = (v, svc')"
    by fastforce
  have "v = Limited"
    using untrusted_peer_cannot_spoof[OF _ _ p] by (simp add: initial_config_def is_protected_def)
  then show ?thesis unfolding p by simp
qed

subsection \<open>The lifetime of the counters\<close>

text \<open>\<open>n\<close> server threads start, each running \<open>onServerStart\<close>, and then stop.\<close>

definition aap_start_all :: "'net ReadOnlyAppConfig \<Rightarrow> int \<Rightarrow> nat \<Rightarrow> 'ip svc_ptr" where
  "aap_start_all cfg now n = (aap_onServerStart cfg now ^^ n) Null_Svc"

fun aap_stop_all :: "nat \<Rightarrow> 'ip svc_ptr \<Rightarrow> 'ip svc_ptr res" where
  "aap_stop_all 0 ptr = Inr ptr"
| "aap_stop_all (Suc n) ptr = res_bind (aap_onServerStop ptr) (aap_stop_all n)"

text \<open>
  The factory's counters survive one server thread only: started by \<open>n\<close> threads and
  stopped by as many, the server shuts down cleanly for \<open>n\<close> = 1 and deletes the same object
  twice for every larger number of threads.
\<close>

theorem antiabuse_lifetime:
  "aap_stop_all (Suc n) (aap_start_all cfg now (Suc n) :: 'ip svc_ptr) =
     (if n = 0 then Inr Freed_Svc else Inl Undefined)"
proof -
  have "aap_start_all cfg now (Suc n) =
      (Live_Svc (new_IPAccessCountService (uint (ip_rate_limiter_seconds_ttl cfg)) now) :: 'ip svc_ptr)"
    by (simp add: aap_start_all_def aap_onServerStart_def)
  then show ?thesis by (cases n) (simp_all add: aap_onServerStop_def)
qed

end
