(* ===== verification/Mime_Type.thy ===== *)
theory Mime_Type
  imports Cpp_Std
begin

text \<open>
  \<^verbatim>\<open>mime_type/mime_type.h\<close> and \<^verbatim>\<open>mime_type/mime_type.cc\<close>: the MIME types that the server
  names in \<open>Content-Type\<close> and the rule that infers one from the extension of a file name.
\<close>

datatype MimeType =
    OCTET_STREAM | HTML | CSS | JS | JPEG | PNG | WEBP | TEXT | WOFF2 | WOFF | ICO | JSON | JSON_LD
  | SVG | OGG_AUDIO | OGG_VIDEO | OGG | OPUS | OPENTYPE_FONT | PDF | MPEG | MP4 | MP3

text \<open>\<open>string(MimeType)\<close>; \<open>OPUS\<close> has no case of its own and takes the default.\<close>

fun mime_string :: "MimeType \<Rightarrow> string" where
  "mime_string HTML = ''text/html''"
| "mime_string JS = ''text/javascript''"
| "mime_string CSS = ''text/css''"
| "mime_string JPEG = ''image/jpeg''"
| "mime_string PNG = ''image/png''"
| "mime_string ICO = ''image/vnd.microsoft.icon''"
| "mime_string TEXT = ''text/plain''"
| "mime_string WOFF2 = ''font/woff2''"
| "mime_string WOFF = ''font/woff''"
| "mime_string WEBP = ''image/webp''"
| "mime_string JSON = ''application/json''"
| "mime_string JSON_LD = ''application/ld+json''"
| "mime_string SVG = ''image/svg+xml''"
| "mime_string PDF = ''application/pdf''"
| "mime_string OGG_AUDIO = ''audio/ogg''"
| "mime_string OGG_VIDEO = ''video/ogg''"
| "mime_string OGG = ''application/ogg''"
| "mime_string OPENTYPE_FONT = ''font/otf''"
| "mime_string MP3 = ''audio/mpeg''"
| "mime_string MP4 = ''video/mp4''"
| "mime_string MPEG = ''video/mpeg''"
| "mime_string OCTET_STREAM = ''application/octet-stream''"
| "mime_string OPUS = ''application/octet-stream''"

definition infer_mime_type :: "string \<Rightarrow> MimeType" where
  "infer_mime_type filename =
     (let ext = path_extension filename
      in if ext = ''.html'' \<or> ext = ''.htm'' then HTML
         else if ext = ''.js'' then JS
         else if ext = ''.css'' then CSS
         else if ext = ''.woff2'' then WOFF2
         else if ext = ''.woff'' then WOFF
         else if ext = ''.jpeg'' \<or> ext = ''.jpg'' then JPEG
         else if ext = ''.png'' then PNG
         else if ext = ''.svg'' then SVG
         else if ext = ''.ico'' then ICO
         else if ext = ''.txt'' \<or> ext = ''.md'' \<or> ext = ''.rst'' then TEXT
         else if ext = ''.json'' then JSON
         else if ext = ''.jsonld'' then JSON_LD
         else if ext = ''.otf'' then OPENTYPE_FONT
         else if ext = ''.ogg'' then OGG
         else if ext = ''.ogv'' then OGG_VIDEO
         else if ext = ''oga'' then OGG_AUDIO
         else if ext = ''.png'' then PDF
         else if ext = ''.mp3'' then MP3
         else if ext = ''.mpeg'' then MPEG
         else if ext = ''.mp4'' then MP4
         else OCTET_STREAM)"

section \<open>Which types are inferred\<close>

text \<open>The inference as a table of extensions, each with the type it stands for.\<close>

definition mime_table :: "string \<rightharpoonup> MimeType" where
  "mime_table = map_of
     [(''html'', HTML), (''htm'', HTML), (''js'', JS), (''css'', CSS), (''woff2'', WOFF2),
      (''woff'', WOFF), (''jpeg'', JPEG), (''jpg'', JPEG), (''png'', PNG), (''svg'', SVG),
      (''ico'', ICO), (''txt'', TEXT), (''md'', TEXT), (''rst'', TEXT), (''json'', JSON),
      (''jsonld'', JSON_LD), (''otf'', OPENTYPE_FONT), (''ogg'', OGG), (''ogv'', OGG_VIDEO),
      (''mp3'', MP3), (''mpeg'', MPEG), (''mp4'', MP4)]"

definition table_type :: "string \<Rightarrow> MimeType" where
  "table_type e = (case mime_table e of None \<Rightarrow> OCTET_STREAM | Some m \<Rightarrow> m)"

lemma path_extension_shape: "path_extension p = '''' \<or> hd (path_extension p) = CHR ''.''"
  by (simp add: path_extension_def Let_def)

lemma infer_mime_type_ext:
  "infer_mime_type p = (if path_extension p = '''' then OCTET_STREAM else table_type (tl (path_extension p)))"
proof (cases "path_extension p")
  case Nil
  then show ?thesis by (simp add: infer_mime_type_def)
next
  case (Cons c e)
  then have "path_extension p = CHR ''.'' # e" using path_extension_shape[of p] by simp
  then show ?thesis
    unfolding infer_mime_type_def table_type_def mime_table_def Let_def by simp
qed

lemma table_type_range: "table_type e \<notin> {PDF, OGG_AUDIO, WEBP, OPUS}"
  unfolding table_type_def mime_table_def by (simp split: option.split)

text \<open>
  A file in a directory gets the type of its last extension: with a non-empty stem, the
  type the table names for the characters after the last dot, whatever the directory and
  whatever the stem is; a name without a dot is served as application/octet-stream.
\<close>

theorem infer_mime_type_by_extension:
  assumes "CHR ''/'' \<notin> set stem" and "CHR ''/'' \<notin> set e" and "stem \<noteq> []" and "e \<noteq> []"
    and "CHR ''.'' \<notin> set e" and "CHR ''.'' \<notin> set plain" and "CHR ''/'' \<notin> set plain"
  shows "infer_mime_type (dir @ ''/'' @ stem @ ''.'' @ e) = table_type e \<and>
         infer_mime_type (dir @ ''/'' @ plain) = OCTET_STREAM"
proof
  have "path_filename (dir @ CHR ''/'' # (stem @ ''.'' @ e)) = stem @ ''.'' @ e"
    using assms by (intro path_filename_append) auto
  then have "path_extension (dir @ ''/'' @ stem @ ''.'' @ e) = CHR ''.'' # e"
    using assms path_extension_dot[of "dir @ ''/'' @ stem @ ''.'' @ e" stem e] by simp
  then show "infer_mime_type (dir @ ''/'' @ stem @ ''.'' @ e) = table_type e"
    by (simp add: infer_mime_type_ext)
  have "path_filename (dir @ ''/'' @ plain) = plain"
    using assms(7) path_filename_append[of plain dir] by (cases "plain = []") (simp_all add: path_filename_def has_filename_def)
  then have "path_extension (dir @ ''/'' @ plain) = []"
    using assms(6) path_extension_no_dot[of "dir @ ''/'' @ plain"] by simp
  then show "infer_mime_type (dir @ ''/'' @ plain) = OCTET_STREAM"
    by (simp add: infer_mime_type_ext)
qed

theorem infer_mime_type_by_extension_witness:
  "infer_mime_type ''/srv/www/app.min.js'' = JS \<and> infer_mime_type ''/srv/www/LICENSE'' = OCTET_STREAM"
proof -
  have "infer_mime_type (''/srv/www'' @ ''/'' @ ''app.min'' @ ''.'' @ ''js'') = table_type ''js'' \<and>
        infer_mime_type (''/srv/www'' @ ''/'' @ ''LICENSE'') = OCTET_STREAM"
    by (rule infer_mime_type_by_extension) simp_all
  then show ?thesis by (simp add: table_type_def mime_table_def)
qed

text \<open>
  Four of the types are never inferred, whatever the name of the file: \<open>PDF\<close> stands
  behind a second test for \<open>.png\<close>, \<open>OGG_AUDIO\<close> behind a test for an extension without its
  dot, and \<open>WEBP\<close> and \<open>OPUS\<close> behind no test at all.
\<close>

theorem infer_mime_type_never:
  "infer_mime_type p \<noteq> PDF \<and> infer_mime_type p \<noteq> OGG_AUDIO \<and>
   infer_mime_type p \<noteq> WEBP \<and> infer_mime_type p \<noteq> OPUS"
  using table_type_range[of "tl (path_extension p)"] by (simp add: infer_mime_type_ext)

end
