(* ===== verification/Frontend_Handler.thy ===== *)
theory Frontend_Handler
  imports Mime_Type Http
begin

text \<open>
  \<^verbatim>\<open>url_shortener/frontend_handler.h\<close> and \<^verbatim>\<open>frontend_handler.cc\<close>: the files of the frontend,
  read into memory when the server starts, and the handler that serves them.

  The bytes of a file are 8-bit characters.  Directory listing and file access are parameters.
\<close>

section \<open>The cache of the frontend directory\<close>

text \<open>
  \<open>fs_entries\<close> lists what the recursive directory iterator visits, None where it throws because
  there is no such directory; \<open>fs_stat_size\<close> and
  \<open>fs_fopen\<close> are None where the call fails.
\<close>

record file_system =
  fs_entries :: "path \<Rightarrow> path list option"
  fs_is_regular :: "path \<Rightarrow> bool"
  fs_absolute :: "path \<Rightarrow> path"
  fs_relative :: "path \<Rightarrow> path \<Rightarrow> path"
  fs_stat_size :: "path \<Rightarrow> nat option"
  fs_fopen :: "path \<Rightarrow> string option"

type_synonym dir_cache = "string \<rightharpoonup> string"

text \<open>
  A buffer of \<open>st_size\<close> zero bytes over which \<open>fread\<close> copies what the file holds.  The size
  of a file that cannot be examined is an uninitialised read, and \<open>fread\<close> on a file that
  cannot be opened gets a null pointer.
\<close>

definition read_whole_file :: "file_system \<Rightarrow> path \<Rightarrow> string res" where
  "read_whole_file fs abspath =
     (case fs_stat_size fs abspath of
        None \<Rightarrow> Inl Undefined
      | Some st_size \<Rightarrow>
          (case fs_fopen fs abspath of
             None \<Rightarrow> Inl Undefined
           | Some contents \<Rightarrow>
               Inr (take st_size contents @ replicate (st_size - length contents) (CHR 0x00))))"

text \<open>\<open>emplace\<close> keeps an entry that is already there.\<close>

definition emplace :: "string \<Rightarrow> string \<Rightarrow> dir_cache \<Rightarrow> dir_cache" where
  "emplace k v c = (case c k of None \<Rightarrow> c(k \<mapsto> v) | Some _ \<Rightarrow> c)"

fun cache_entries :: "file_system \<Rightarrow> path \<Rightarrow> path list \<Rightarrow> dir_cache \<Rightarrow> dir_cache res" where
  "cache_entries fs frontend_doc_root [] dst = Inr dst"
| "cache_entries fs frontend_doc_root (dir_entry # rest) dst =
     (if fs_is_regular fs dir_entry then
        (let abspath = fs_absolute fs dir_entry
         in res_bind (read_whole_file fs abspath) (\<lambda>bytes.
              let file_identifier = fs_relative fs abspath frontend_doc_root
              in cache_entries fs frontend_doc_root rest (emplace file_identifier bytes dst)))
      else cache_entries fs frontend_doc_root rest dst)"

definition build_frontend_dir_cache :: "file_system \<Rightarrow> path \<Rightarrow> dir_cache res" where
  "build_frontend_dir_cache fs frontend_doc_root =
     (case fs_entries fs frontend_doc_root of
        None \<Rightarrow> Inl (Throws (Runtime_Error ''filesystem_error''))
      | Some entries \<Rightarrow> cache_entries fs frontend_doc_root entries Map.empty)"

text \<open>\<open>pop_front_dir\<close>: the path without its first element; \<open>++\<close> on the end of an empty path.\<close>

definition pop_front_dir :: "path \<Rightarrow> string res" where
  "pop_front_dir p =
     (case path_elems p of
        [] \<Rightarrow> Inl Undefined
      | first # rest \<Rightarrow> Inr (foldl path_append '''' rest))"

section \<open>The handler\<close>

record frontend_handler =
  fh_alive :: bool
  fh_prefound_data :: "string option"
  fh_mime_type :: MimeType
  fh_out :: "downstream_op list"

text \<open>The constructor that \<open>lookup\<close> uses; the data is never null there.\<close>

definition new_FrontendHandler :: "string option \<Rightarrow> MimeType \<Rightarrow> frontend_handler" where
  "new_FrontendHandler prefound_data mime_type =
     \<lparr>fh_alive = True, fh_prefound_data = prefound_data, fh_mime_type = mime_type, fh_out = []\<rparr>"

lemma new_FrontendHandler_simps [simp]:
  "fh_alive (new_FrontendHandler d m)" "fh_prefound_data (new_FrontendHandler d m) = d"
  "fh_mime_type (new_FrontendHandler d m) = m" "fh_out (new_FrontendHandler d m) = []"
  by (simp_all add: new_FrontendHandler_def)

text \<open>\<open>lookup\<close>: \<open>front()\<close> of an empty path reads past its end; None is a null pointer.\<close>

definition lookup_key :: "string \<Rightarrow> string" where
  "lookup_key path = (if last path = CHR ''/'' then drop 1 path @ ''index.html'' else drop 1 path)"

definition frontend_lookup :: "dir_cache \<Rightarrow> string \<Rightarrow> frontend_handler option res" where
  "frontend_lookup c path =
     (if path = [] then Inl Undefined
      else if hd path \<noteq> CHR ''/'' then Inr None
      else case c (lookup_key path) of
             None \<Rightarrow> Inr None
           | Some data \<Rightarrow>
               Inr (Some (new_FrontendHandler (Some data) (infer_mime_type (lookup_key path)))))"

definition frontend_onRequest :: "'ip http_message \<Rightarrow> frontend_handler \<Rightarrow> frontend_handler" where
  "frontend_onRequest request h =
     (case fh_prefound_data h of
        Some data \<Rightarrow>
          h\<lparr>fh_out := fh_out h @
             [Send_With_EOM 200 ''OK'' [(''Content-Type'', mime_string (fh_mime_type h))] data]\<rparr>
      | None \<Rightarrow> h\<lparr>fh_out := fh_out h @ [Send_With_EOM 404 ''Not Found'' [] '''']\<rparr>)"

fun frontend_callback :: "'ip callback \<Rightarrow> frontend_handler \<Rightarrow> frontend_handler" where
  "frontend_callback (On_Request request) h = frontend_onRequest request h"
| "frontend_callback Request_Complete h = h\<lparr>fh_alive := False\<rparr>"
| "frontend_callback On_Error h = h\<lparr>fh_alive := False\<rparr>"
| "frontend_callback (On_Body body) h = h"
| "frontend_callback On_EOM h = h"
| "frontend_callback On_Upgrade h = h"
| "frontend_callback On_Egress_Paused h = h"
| "frontend_callback On_Egress_Resumed h = h"

definition frontend_step :: "'ip callback \<Rightarrow> frontend_handler \<Rightarrow> frontend_handler res" where
  "frontend_step e h = (if fh_alive h then Inr (frontend_callback e h) else Inl Undefined)"

interpretation frontend: handler
  "frontend_step :: 'ip callback \<Rightarrow> frontend_handler \<Rightarrow> frontend_handler res"
  "\<lambda>h. True" "\<lambda>h. length (fh_out h)" is_request
proof
  fix e :: "'ip callback" and s s' :: frontend_handler
  assume "frontend_step e s = Inr s'"
  then show "length (fh_out s') \<le> length (fh_out s) + (if is_request e then 1 else 0)"
    by (cases e) (auto simp: frontend_step_def frontend_onRequest_def split: if_splits option.splits)
qed simp

section \<open>What the cache holds\<close>

text \<open>The files a directory offers: the regular entries with their identifiers and bytes.\<close>

definition visited :: "file_system \<Rightarrow> path \<Rightarrow> path list" where
  "visited fs root = (case fs_entries fs root of None \<Rightarrow> [] | Some entries \<Rightarrow> entries)"

definition served_files :: "file_system \<Rightarrow> path \<Rightarrow> (string \<times> string) list" where
  "served_files fs root =
     map (\<lambda>p. (fs_relative fs (fs_absolute fs p) root,
               (case read_whole_file fs (fs_absolute fs p) of Inr bytes \<Rightarrow> bytes | Inl e \<Rightarrow> '''')))
       (filter (fs_is_regular fs) (visited fs root))"

definition all_readable :: "file_system \<Rightarrow> path \<Rightarrow> bool" where
  "all_readable fs root \<longleftrightarrow>
     (\<forall>p \<in> set (visited fs root). fs_is_regular fs p \<longrightarrow>
        fs_stat_size fs (fs_absolute fs p) \<noteq> None \<and> fs_fopen fs (fs_absolute fs p) \<noteq> None)"

lemma read_whole_file_Inr:
  "(\<exists>b. read_whole_file fs p = Inr b) \<longleftrightarrow> fs_stat_size fs p \<noteq> None \<and> fs_fopen fs p \<noteq> None"
  by (auto simp: read_whole_file_def split: option.split)

lemma read_whole_file_cases: "read_whole_file fs p = Inl Undefined \<or> (\<exists>b. read_whole_file fs p = Inr b)"
  by (auto simp: read_whole_file_def split: option.split)

lemma emplace_map_add: "emplace k v c = [k \<mapsto> v] ++ c"
  by (auto simp: emplace_def map_add_def split: option.split)

lemma cache_entries_map:
  "\<forall>p \<in> set ps. fs_is_regular fs p \<longrightarrow> (\<exists>b. read_whole_file fs (fs_absolute fs p) = Inr b) \<Longrightarrow>
   cache_entries fs root ps dst =
     Inr (map_of (map (\<lambda>p. (fs_relative fs (fs_absolute fs p) root,
               (case read_whole_file fs (fs_absolute fs p) of Inr bytes \<Rightarrow> bytes | Inl e \<Rightarrow> '''')))
       (filter (fs_is_regular fs) ps)) ++ dst)"
proof (induction ps arbitrary: dst)
  case (Cons p ps)
  show ?case
  proof (cases "fs_is_regular fs p")
    case True
    with Cons.prems obtain b where b: "read_whole_file fs (fs_absolute fs p) = Inr b" by auto
    have "m ++ emplace k v dst = m(k \<mapsto> v) ++ dst" for m :: dir_cache and k v
      by (auto simp: emplace_def map_add_def split: option.split)
    then show ?thesis using Cons True b by (simp add: Let_def fun_upd_def)
  next
    case False
    then show ?thesis using Cons by simp
  qed
qed simp

lemma cache_entries_fault:
  "\<exists>p \<in> set ps. fs_is_regular fs p \<and> \<not> (\<exists>b. read_whole_file fs (fs_absolute fs p) = Inr b) \<Longrightarrow>
   cache_entries fs root ps dst = Inl Undefined"
proof (induction ps arbitrary: dst)
  case (Cons p ps)
  show ?case
  proof (cases "fs_is_regular fs p \<and> read_whole_file fs (fs_absolute fs p) = Inl Undefined")
    case False
    then have "\<exists>q \<in> set ps. fs_is_regular fs q \<and> \<not> (\<exists>b. read_whole_file fs (fs_absolute fs q) = Inr b)"
      using Cons.prems read_whole_file_cases[of fs "fs_absolute fs p"] by auto
    then have "cache_entries fs root ps dst' = Inl Undefined" for dst' by (rule Cons.IH)
    then show ?thesis
      using read_whole_file_cases[of fs "fs_absolute fs p"] by (auto simp: Let_def)
  qed (simp add: Let_def)
qed simp

lemma build_cache:
  "build_frontend_dir_cache fs root =
     (if fs_entries fs root = None then Inl (Throws (Runtime_Error ''filesystem_error''))
      else if all_readable fs root then Inr (map_of (served_files fs root)) else Inl Undefined)"
proof (cases "fs_entries fs root")
  case None
  then show ?thesis by (simp add: build_frontend_dir_cache_def)
next
  case (Some ps)
  then have v: "visited fs root = ps" by (simp add: visited_def)
  show ?thesis
  proof (cases "all_readable fs root")
    case True
    then show ?thesis
      using cache_entries_map[of ps fs root Map.empty] Some
      by (simp add: build_frontend_dir_cache_def all_readable_def served_files_def read_whole_file_Inr v)
  next
    case False
    then have "\<exists>p \<in> set ps. fs_is_regular fs p \<and> \<not> (\<exists>b. read_whole_file fs (fs_absolute fs p) = Inr b)"
      unfolding all_readable_def read_whole_file_Inr v by blast
    then show ?thesis
      using False Some cache_entries_fault[of ps fs root Map.empty] by (simp add: build_frontend_dir_cache_def)
  qed
qed

text \<open>
  Building the cache throws if there is no such directory, and otherwise succeeds exactly if
  every regular file can be examined and opened; it then maps the path of each file relative to the frontend directory to the file's bytes, the
  first of two files with one name winning.
\<close>

theorem build_frontend_dir_cache_eq:
  "build_frontend_dir_cache fs root =
     (if fs_entries fs root = None then Inl (Throws (Runtime_Error ''filesystem_error''))
      else if all_readable fs root then Inr (map_of (served_files fs root)) else Inl Undefined)"
  by (rule build_cache)

section \<open>What the handler serves\<close>

lemma frontend_run_request:
  "frontend_lookup c path = Inr (Some h) \<Longrightarrow>
   \<exists>data. c (lookup_key path) = Some data \<and>
     run frontend_step [On_Request msg] h =
       Inr (h\<lparr>fh_out := [Send_With_EOM 200 ''OK''
                           [(''Content-Type'', mime_string (infer_mime_type (lookup_key path)))] data]\<rparr>)"
  by (auto simp: frontend_lookup_def frontend_step_def frontend_onRequest_def split: if_splits option.splits)

text \<open>
  C23  The frontend serves its directory and nothing else: for a path that starts with a slash
  the lookup succeeds exactly if a file of the directory has the rest of the path as its
  name, with \<open>index.html\<close> after a trailing slash, and the handler it returns answers its
  request once, with status 200, the type of that file and the bytes of that file.
\<close>

theorem frontend_serves_directory:
  assumes "build_frontend_dir_cache fs root = Inr c" and "path \<noteq> []" and "hd path = CHR ''/''"
  shows "(frontend_lookup c path = Inr None \<longleftrightarrow> lookup_key path \<notin> fst ` set (served_files fs root)) \<and>
    (\<forall>h. frontend_lookup c path = Inr (Some h) \<longrightarrow>
       (\<exists>data h'. (lookup_key path, data) \<in> set (served_files fs root) \<and>
          run frontend_step [On_Request (msg :: 'ip http_message)] h = Inr h' \<and>
          fh_out h' = [Send_With_EOM 200 ''OK''
                         [(''Content-Type'', mime_string (infer_mime_type (lookup_key path)))] data]))"
proof -
  have c: "c = map_of (served_files fs root)"
    using assms(1) by (simp add: build_cache split: if_splits)
  have "frontend_lookup c path = Inr None \<longleftrightarrow> c (lookup_key path) = None"
    using assms(2,3) by (auto simp: frontend_lookup_def split: option.splits)
  moreover have "\<exists>data h'. (lookup_key path, data) \<in> set (served_files fs root) \<and>
      run frontend_step [On_Request msg] h = Inr h' \<and>
      fh_out h' = [Send_With_EOM 200 ''OK''
                     [(''Content-Type'', mime_string (infer_mime_type (lookup_key path)))] data]"
    if "frontend_lookup c path = Inr (Some h)" for h
    using frontend_run_request[OF that, of msg] by (auto simp: c dest: map_of_SomeD)
  ultimately show ?thesis by (simp add: c map_of_eq_None_iff)
qed

text \<open>A directory of one file.\<close>

definition sample_fs :: file_system where
  "sample_fs =
     \<lparr>fs_entries = (\<lambda>_. Some [''out'', ''out/index.html'']), fs_is_regular = (\<lambda>p. p = ''out/index.html''),
      fs_absolute = (\<lambda>p. ''/srv/'' @ p), fs_relative = (\<lambda>p root. ''index.html''),
      fs_stat_size = (\<lambda>_. Some 6), fs_fopen = (\<lambda>_. Some ''<html>'')\<rparr>"

lemma sample_fs_cache: "build_frontend_dir_cache sample_fs ''out'' = Inr [''index.html'' \<mapsto> ''<html>'']"
  by (simp add: build_frontend_dir_cache_def sample_fs_def read_whole_file_def emplace_def)

theorem frontend_serves_directory_witness:
  "\<exists>h h'. frontend_lookup [''index.html'' \<mapsto> ''<html>''] ''/'' = Inr (Some h) \<and>
     run frontend_step [On_Request \<lparr>msg_method = Some GET, msg_path = ''/'', msg_client_ip = (0 :: nat),
       msg_header_exists = (\<lambda>_. False), msg_header_single = (\<lambda>_. '''')\<rparr>] h = Inr h' \<and>
     fh_out h' = [Send_With_EOM 200 ''OK'' [(''Content-Type'', ''text/html'')] ''<html>'']"
proof -
  obtain h where h: "frontend_lookup [''index.html'' \<mapsto> ''<html>''] ''/'' = Inr (Some h)"
    by (simp add: frontend_lookup_def lookup_key_def)
  have k: "lookup_key ''/'' = ''index.html''" by (simp add: lookup_key_def)
  have m: "mime_string (infer_mime_type ''index.html'') = ''text/html''" by code_simp
  have f: "served_files sample_fs ''out'' = [(''index.html'', ''<html>'')]"
    by (simp add: served_files_def visited_def sample_fs_def read_whole_file_def)
  show ?thesis
    using frontend_serves_directory[OF sample_fs_cache, of "''/''"] h by (auto simp: k m f)
qed

section \<open>pop_front_dir\<close>

fun join_path :: "string list \<Rightarrow> path" where
  "join_path [] = ''''"
| "join_path [n] = n"
| "join_path (n # m # ns) = n @ ''/'' @ join_path (m # ns)"

definition file_names :: "string list \<Rightarrow> bool" where
  "file_names ns \<longleftrightarrow> (\<forall>n \<in> set ns. n \<noteq> [] \<and> CHR ''/'' \<notin> set n)"

lemma join_path_snoc: "ns \<noteq> [] \<Longrightarrow> join_path (ns @ [n]) = join_path ns @ CHR ''/'' # n"
  by (induction ns rule: join_path.induct) auto

lemma path_names_join: "file_names ns \<Longrightarrow> path_names (join_path ns) = ns"
proof (induction ns rule: rev_induct)
  case Nil
  then show ?case by (simp add: path_names_none)
next
  case (snoc n ns)
  then show ?case
    by (cases "ns = []") (auto simp: file_names_def join_path_snoc path_names_append_file path_names_slash_free)
qed

lemma join_path_ends:
  "file_names ns \<Longrightarrow> ns \<noteq> [] \<Longrightarrow>
   join_path ns \<noteq> [] \<and> hd (join_path ns) \<noteq> CHR ''/'' \<and> last (join_path ns) \<noteq> CHR ''/''"
proof (induction ns rule: join_path.induct)
  case (2 n)
  then show ?case using has_filename_slash_free[of n] by (cases n) (auto simp: file_names_def)
next
  case (3 n m ns)
  then show ?case by (cases n) (auto simp: file_names_def)
qed simp

lemma path_elems_join: "file_names ns \<Longrightarrow> path_elems (join_path ns) = ns"
  using join_path_ends[of ns]
  by (cases "ns = []") (auto simp: path_elems_def path_names_join is_absolute_def path_names_none)

lemma foldl_path_append:
  "file_names ns \<Longrightarrow> foldl path_append '''' ns = join_path ns"
proof (induction ns rule: rev_induct)
  case (snoc n ns)
  have n: "n \<noteq> []" "hd n \<noteq> CHR ''/''" "file_names ns"
    using snoc.prems by (cases n; auto simp: file_names_def)+
  show ?case
  proof (cases "ns = []")
    case True
    then show ?thesis using n by (simp add: path_append_def is_absolute_def has_filename_def)
  next
    case False
    then show ?thesis
      using n snoc.IH join_path_ends[OF n(3) False]
      by (simp add: join_path_snoc path_append_def is_absolute_def has_filename_def)
  qed
qed simp

text \<open>
  \<open>pop_front_dir\<close> drops exactly the first component of a relative path, and exactly the
  root of an absolute one.
\<close>

theorem pop_front_dir_join:
  assumes "file_names (n # ns)"
  shows "pop_front_dir (join_path (n # ns)) = Inr (join_path ns) \<and>
         pop_front_dir (''/'' @ join_path (n # ns)) = Inr (join_path (n # ns))"
proof
  have ns: "file_names ns" using assms by (simp add: file_names_def)
  show "pop_front_dir (join_path (n # ns)) = Inr (join_path ns)"
    by (simp only: pop_front_dir_def path_elems_join[OF assms] list.case foldl_path_append[OF ns])
  have e: "join_path (n # ns) \<noteq> []" "hd (join_path (n # ns)) \<noteq> CHR ''/''" "last (join_path (n # ns)) \<noteq> CHR ''/''"
    using join_path_ends[OF assms] by simp_all
  have "dropWhile (\<lambda>c. c = CHR ''/'') (''/'' @ join_path (n # ns)) = join_path (n # ns)"
    using e by (cases "join_path (n # ns)") auto
  moreover have "dropWhile (\<lambda>c. c = CHR ''/'') (join_path (n # ns)) = join_path (n # ns)"
    using e by (cases "join_path (n # ns)") auto
  ultimately have "path_names (''/'' @ join_path (n # ns)) = path_names (join_path (n # ns))"
    using path_names_some e(1) by metis
  then have "path_elems (''/'' @ join_path (n # ns)) = ''/'' # n # ns"
    using e by (simp add: path_elems_def is_absolute_def path_names_join[OF assms])
  then show "pop_front_dir (''/'' @ join_path (n # ns)) = Inr (join_path (n # ns))"
    by (simp only: pop_front_dir_def list.case foldl_path_append[OF assms])
qed

theorem pop_front_dir_join_witness: "pop_front_dir ''out/_next/app.js'' = Inr ''_next/app.js''"
  using pop_front_dir_join[of "''out''" "[''_next'', ''app.js'']"] by (simp add: file_names_def)

end
