(* ===== verification/Url_Database.thy ===== *)
theory Url_Database
  imports Prelude
begin

text \<open>
  \<^verbatim>\<open>url_shortener/db.cc\<close>: the store of shortened URLs, a wrapper around RocksDB that turns
  its statuses into the error values of the service.

  RocksDB itself is not part of the repository: it is the record \<open>'r rocksdb\<close> of the four
  calls that db.cc makes, over an arbitrary state \<open>'r\<close>, an argument of every operation.
  \<open>rocksdb_contract\<close> names what its documentation promises of them.
\<close>

section \<open>RocksDB as a parameter\<close>

datatype rocks_status = StatusOk | StatusNotFound | StatusIOError | StatusTryAgain | StatusOther

record 'r rocksdb =
  rocks_open :: "string \<Rightarrow> rocks_status \<times> 'r"
  rocks_close :: "'r \<Rightarrow> rocks_status"
  rocks_put :: "'r \<Rightarrow> string \<Rightarrow> string \<Rightarrow> rocks_status \<times> 'r"
  rocks_get :: "'r \<Rightarrow> string \<Rightarrow> rocks_status \<times> string \<times> 'r"

text \<open>
  \<open>view\<close> reads the stored entries off the state.  A successful write stores the entry; a
  failed one leaves the other keys alone.  A read changes no entry; it reports Ok only with
  the stored value and NotFound only for a missing key.  Any call may fail.
\<close>

definition rocksdb_contract :: "'r rocksdb \<Rightarrow> ('r \<Rightarrow> string \<Rightarrow> string option) \<Rightarrow> bool" where
  "rocksdb_contract R view \<longleftrightarrow>
     (\<forall>st k v s st'. rocks_put R st k v = (s, st') \<longrightarrow>
        (s = StatusOk \<longrightarrow> view st' = (view st)(k \<mapsto> v)) \<and> (\<forall>j. j \<noteq> k \<longrightarrow> view st' j = view st j)) \<and>
     (\<forall>st k s v st'. rocks_get R st k = (s, v, st') \<longrightarrow>
        view st' = view st \<and>
        (s = StatusOk \<longrightarrow> view st k = Some v) \<and> (s = StatusNotFound \<longrightarrow> view st k = None))"

text \<open>A database on which no call fails.\<close>

definition rocksdb_healthy :: "'r rocksdb \<Rightarrow> bool" where
  "rocksdb_healthy R \<longleftrightarrow>
     (\<forall>st k v. fst (rocks_put R st k v) = StatusOk) \<and>
     (\<forall>st k. fst (rocks_get R st k) = StatusOk \<or> fst (rocks_get R st k) = StatusNotFound)"

section \<open>The store\<close>

datatype UrlShorteningDbError = NotFound | TryAgain | IOError | InternalRocksDbError

text \<open>The environment variable lookup \<open>std::getenv\<close> is the argument \<open>env\<close>.\<close>

definition shortened_urls_database_path_env :: "(string \<Rightarrow> string option) \<Rightarrow> string res" where
  "shortened_urls_database_path_env env =
     (case env ''EC_PRV_URL_SHORTENER__SHORTENED_URLS_DATABASE_PATH'' of
        None \<Rightarrow> Inl (Throws (Runtime_Error
                  ''Missing environment variable for `shortened URLs database path`''))
      | Some s \<Rightarrow> Inr s)"

text \<open>The class: the pointer \<open>rocksdb_\<close>, None when null, and the path.  The read options are the defaults.\<close>

record 'r ShortenedUrlsDatabase =
  sud_rocksdb :: "'r option"
  sud_path :: string

definition new_ShortenedUrlsDatabase :: "'r \<Rightarrow> string \<Rightarrow> 'r ShortenedUrlsDatabase" where
  "new_ShortenedUrlsDatabase rocksdb path = \<lparr>sud_rocksdb = Some rocksdb, sud_path = path\<rparr>"

definition db_open :: "'r rocksdb \<Rightarrow> string \<Rightarrow> 'r ShortenedUrlsDatabase res" where
  "db_open R db_path =
     (let (s, db) = rocks_open R db_path
      in if s \<noteq> StatusOk then Inl (Throws (Runtime_Error ''open''))
         else Inr (new_ShortenedUrlsDatabase db db_path))"

lemma db_open_InrD:
  "db_open R path = Inr d \<Longrightarrow> \<exists>db. rocks_open R path = (StatusOk, db) \<and> d = new_ShortenedUrlsDatabase db path"
  by (auto simp: db_open_def Let_def split: prod.splits if_splits)

text \<open>The destructor: the object without its database, and whether it logs an error.\<close>

definition db_destructor :: "'r rocksdb \<Rightarrow> 'r ShortenedUrlsDatabase \<Rightarrow> 'r ShortenedUrlsDatabase \<times> bool" where
  "db_destructor R d =
     (case sud_rocksdb d of
        None \<Rightarrow> (d, False)
      | Some db \<Rightarrow> (d\<lparr>sud_rocksdb := None\<rparr>, rocks_close R db \<noteq> StatusOk))"

definition db_put :: "'r rocksdb \<Rightarrow> 'r \<Rightarrow> string \<Rightarrow> string \<Rightarrow> UrlShorteningDbError option \<times> 'r" where
  "db_put R st shortened_url full_url =
     (let (s, st') = rocks_put R st shortened_url full_url
      in if s \<noteq> StatusOk
         then (if s = StatusTryAgain then (Some TryAgain, st')
               else if s = StatusIOError then (Some IOError, st')
               else (Some InternalRocksDbError, st'))
         else (None, st'))"

definition db_get :: "'r rocksdb \<Rightarrow> 'r \<Rightarrow> string \<Rightarrow> (UrlShorteningDbError + string) \<times> 'r" where
  "db_get R st shortened_url =
     (let (s, dst, st') = rocks_get R st shortened_url
      in if s \<noteq> StatusOk
         then (if s = StatusNotFound then (Inl NotFound, st')
               else if s = StatusIOError then (Inl IOError, st')
               else if s = StatusTryAgain then (Inl TryAgain, st')
               else (Inl InternalRocksDbError, st'))
         else (Inr dst, st'))"

text \<open>\<open>get_fast\<close> writes the value through \<open>buf\<close> and returns whether the status was Ok.\<close>

definition db_get_fast :: "'r rocksdb \<Rightarrow> 'r \<Rightarrow> string \<Rightarrow> bool \<times> string \<times> 'r" where
  "db_get_fast R st short_url =
     (let (s, buf, st') = rocks_get R st short_url in (s = StatusOk, buf, st'))"

section \<open>The contract of the store\<close>

text \<open>What the handlers rely on: the laws of \<open>get\<close> and \<open>put\<close> over the stored entries.\<close>

locale url_store =
  fixes sget :: "'r \<Rightarrow> string \<Rightarrow> (UrlShorteningDbError + string) \<times> 'r"
    and sput :: "'r \<Rightarrow> string \<Rightarrow> string \<Rightarrow> UrlShorteningDbError option \<times> 'r"
    and view :: "'r \<Rightarrow> string \<Rightarrow> string option"
  assumes get_view: "sget st k = (r, st') \<Longrightarrow> view st' = view st"
    and get_found: "sget st k = (Inr v, st') \<Longrightarrow> view st k = Some v"
    and get_missing: "sget st k = (Inl NotFound, st') \<Longrightarrow> view st k = None"
    and put_ok: "sput st k v = (None, st') \<Longrightarrow> view st' = (view st)(k \<mapsto> v)"
    and put_frame: "sput st k v = (res, st') \<Longrightarrow> j \<noteq> k \<Longrightarrow> view st' j = view st j"

text \<open>A store whose calls succeed.\<close>

locale healthy_url_store = url_store +
  assumes get_healthy: "fst (sget st k) = Inl e \<Longrightarrow> e = NotFound"
    and put_healthy: "fst (sput st k v) = None"
begin

lemma get_cases: "fst (sget st k) = (case view st k of None \<Rightarrow> Inl NotFound | Some v \<Rightarrow> Inr v)"
proof (cases "sget st k")
  case (Pair r st')
  then show ?thesis
    using get_healthy[of st k] get_found[of st k] get_missing[of st k] by (cases r) auto
qed

end

text \<open>
  Over a RocksDB that meets its contract, \<open>db_get\<close> and \<open>db_put\<close> are such a store; over one on
  which no call fails, they are a healthy one.
\<close>

lemma url_store_db: "rocksdb_contract R view \<Longrightarrow> url_store (db_get R) (db_put R) view"
  by unfold_locales
     (fastforce simp: rocksdb_contract_def db_get_def db_put_def split: prod.splits if_splits)+

locale rocksdb_store =
  fixes R :: "'r rocksdb" and view :: "'r \<Rightarrow> string \<Rightarrow> string option"
  assumes contract: "rocksdb_contract R view"

sublocale rocksdb_store \<subseteq> url_store "db_get R" "db_put R" view
  by (rule url_store_db[OF contract])

lemma rocksdb_healthyD:
  assumes "rocksdb_healthy R"
  shows "fst (rocks_put R st k v) = StatusOk"
    and "fst (rocks_get R st k) \<noteq> StatusOk \<Longrightarrow> fst (rocks_get R st k) = StatusNotFound"
  using assms unfolding rocksdb_healthy_def by blast+

lemma healthy_url_store_db:
  assumes "rocksdb_contract R view" and "rocksdb_healthy R"
  shows "healthy_url_store (db_get R) (db_put R) view"
proof (rule healthy_url_store.intro)
  show "url_store (db_get R) (db_put R) view"
    using assms(1) by (rule url_store_db)
  show "healthy_url_store_axioms (db_get R) (db_put R)"
    using assms(2)
    by unfold_locales
       (auto simp: rocksdb_healthyD db_get_def db_put_def split_beta dest: rocksdb_healthyD(2) split: if_splits)
qed

context rocksdb_store
begin

lemma operations_sound:
  "(db_get R st k = (Inr v, st1) \<longrightarrow> view st k = Some v \<and> view st1 = view st) \<and>
   (db_get R st k = (Inl NotFound, st1) \<longrightarrow> view st k = None \<and> view st1 = view st) \<and>
   (db_put R st k v = (None, st2) \<longrightarrow> view st2 = (view st)(k \<mapsto> v)) \<and>
   (db_put R st k v = (Some e, st2) \<longrightarrow> (\<forall>j. j \<noteq> k \<longrightarrow> view st2 j = view st j))"
  by (auto dest: get_view get_found get_missing put_ok put_frame)

end

locale healthy_rocksdb_store = rocksdb_store +
  assumes healthy: "rocksdb_healthy R"

sublocale healthy_rocksdb_store \<subseteq> healthy_url_store "db_get R" "db_put R" view
  by (rule healthy_url_store_db[OF contract healthy])

text \<open>
  A reference instance of the parameter: a RocksDB over an in-memory map, on which no call
  fails.  It shows that the contract can be met, and the witnesses run on it.
\<close>

definition mem_rocksdb :: "(string \<Rightarrow> string option) rocksdb" where
  "mem_rocksdb =
     \<lparr>rocks_open = (\<lambda>path. (StatusOk, \<lambda>_. None)),
      rocks_close = (\<lambda>st. StatusOk),
      rocks_put = (\<lambda>st k v. (StatusOk, st(k \<mapsto> v))),
      rocks_get = (\<lambda>st k. case st k of None \<Rightarrow> (StatusNotFound, [], st) | Some v \<Rightarrow> (StatusOk, v, st))\<rparr>"

lemma mem_contract: "rocksdb_contract mem_rocksdb (\<lambda>st. st)"
  by (auto simp: rocksdb_contract_def mem_rocksdb_def split: option.splits)

lemma mem_healthy: "rocksdb_healthy mem_rocksdb"
  by (auto simp: rocksdb_healthy_def mem_rocksdb_def split: option.splits)

interpretation mem: healthy_rocksdb_store mem_rocksdb "\<lambda>st. st"
  by unfold_locales (rule mem_contract mem_healthy)+

section \<open>Properties\<close>

text \<open>
  Under the contract, what the service reports of a read is what the database holds: a
  value is the stored value, NotFound means that the key is absent, no read changes an entry;
  a write without an error stores exactly its entry.
\<close>

theorem db_operations_sound:
  assumes "rocksdb_contract R view"
  shows "(db_get R st k = (Inr v, st1) \<longrightarrow> view st k = Some v \<and> view st1 = view st) \<and>
         (db_get R st k = (Inl NotFound, st1) \<longrightarrow> view st k = None \<and> view st1 = view st) \<and>
         (db_put R st k v = (None, st2) \<longrightarrow> view st2 = (view st)(k \<mapsto> v)) \<and>
         (db_put R st k v = (Some e, st2) \<longrightarrow> (\<forall>j. j \<noteq> k \<longrightarrow> view st2 j = view st j))"
  by (rule rocksdb_store.operations_sound[OF rocksdb_store.intro[OF assms]])

theorem db_operations_sound_witness:
  "db_put mem_rocksdb (\<lambda>_. None) ''k'' ''v'' = (None, [''k'' \<mapsto> ''v'']) \<and>
   db_get mem_rocksdb [''k'' \<mapsto> ''v''] ''k'' = (Inr ''v'', [''k'' \<mapsto> ''v''])"
proof -
  have p: "db_put mem_rocksdb (\<lambda>_. None) ''k'' ''v'' = (None, [''k'' \<mapsto> ''v''])"
    by (simp add: db_put_def mem_rocksdb_def)
  have g: "db_get mem_rocksdb [''k'' \<mapsto> ''v''] ''k'' = (Inr ''v'', [''k'' \<mapsto> ''v''])"
    by (simp add: db_get_def mem_rocksdb_def)
  show ?thesis
    using db_operations_sound[OF mem_contract, of "\<lambda>_. None" "''k''"] p g by blast
qed

end
