(* ===== verification/Redirect_Handler.thy ===== *)
theory Redirect_Handler
  imports Url_Database Http
begin

text \<open>
  \<^verbatim>\<open>url_shortener/url_shortener_handler.h\<close> and \<^verbatim>\<open>url_shortener_handler.cc\<close>: the handler that
  redirects a slug to its URL.

  \<open>onRequest\<close> queues the database lookup on the CPU executor; when the lookup has run, its
  continuation is queued on the event base and sends the response.  Both closures hold the
  bare pointer \<open>this\<close>.  The events of the model are the callbacks of proxygen and the two
  executors running a queued closure; any interleaving is a sequence of them.
\<close>

section \<open>State and steps\<close>

record redirect_handler =
  rd_alive :: bool
  rd_lookups :: nat
  rd_replies :: "bool list"
  rd_buf :: string
  rd_short_url :: string
  rd_out :: "downstream_op list"

definition new_UrlRedirectHandler :: "string \<Rightarrow> redirect_handler" where
  "new_UrlRedirectHandler short_url =
     \<lparr>rd_alive = True, rd_lookups = 0, rd_replies = [], rd_buf = '''', rd_short_url = short_url, rd_out = []\<rparr>"

definition rd_send :: "downstream_op \<Rightarrow> redirect_handler \<Rightarrow> redirect_handler" where
  "rd_send op h = h\<lparr>rd_out := rd_out h @ [op]\<rparr>"

definition redirect_onRequest :: "'ip http_message \<Rightarrow> redirect_handler \<Rightarrow> redirect_handler" where
  "redirect_onRequest req h =
     (if msg_method req \<noteq> Some GET then rd_send (Send_With_EOM 405 ''Method Not Allowed'' [] '''') h
      else if length (rd_short_url h) = 0 then rd_send (Send_With_EOM 400 ''Bad Request'' [] '''') h
      else h\<lparr>rd_lookups := rd_lookups h + 1\<rparr>)"

fun redirect_callback :: "'ip callback \<Rightarrow> redirect_handler \<Rightarrow> redirect_handler" where
  "redirect_callback (On_Request req) h = redirect_onRequest req h"
| "redirect_callback Request_Complete h = h\<lparr>rd_alive := False\<rparr>"
| "redirect_callback On_Error h = h\<lparr>rd_alive := False\<rparr>"
| "redirect_callback (On_Body body) h = h"
| "redirect_callback On_EOM h = h"
| "redirect_callback On_Upgrade h = h"
| "redirect_callback On_Egress_Paused h = h"
| "redirect_callback On_Egress_Resumed h = h"

text \<open>The closure on the CPU executor: \<open>get_fast\<close> fills the buffer, its flag goes to the reply.\<close>

definition redirect_lookup :: "'r rocksdb \<Rightarrow> redirect_handler \<times> 'r \<Rightarrow> redirect_handler \<times> 'r" where
  "redirect_lookup R hs =
     (case hs of (h, st) \<Rightarrow>
        (case db_get_fast R st (rd_short_url h) of
           (ok, buf, st') \<Rightarrow>
             (h\<lparr>rd_buf := buf, rd_lookups := rd_lookups h - 1, rd_replies := rd_replies h @ [ok]\<rparr>, st')))"

text \<open>The continuation on the event base; moving from \<open>buf_\<close> leaves it empty.\<close>

definition redirect_reply :: "redirect_handler \<Rightarrow> redirect_handler" where
  "redirect_reply h =
     (let h' = h\<lparr>rd_replies := tl (rd_replies h)\<rparr>
      in if hd (rd_replies h)
         then rd_send (Send_With_EOM 301 ''Moved Permanently'' [(''Location'', rd_buf h)] '''') (h'\<lparr>rd_buf := ''''\<rparr>)
         else rd_send (Send_With_EOM 404 ''Not Found'' [] '''') h')"

datatype 'ip redirect_event = Rd_Callback "'ip callback" | Run_Lookup | Run_Reply

text \<open>A closure that is not queued cannot run: its event leaves the state as it is.\<close>

fun redirect_step :: "'r rocksdb \<Rightarrow> 'ip redirect_event \<Rightarrow> redirect_handler \<times> 'r \<Rightarrow> (redirect_handler \<times> 'r) res" where
  "redirect_step R (Rd_Callback e) (h, st) =
     (if rd_alive h then Inr (redirect_callback e h, st) else Inl Undefined)"
| "redirect_step R Run_Lookup (h, st) =
     (if rd_lookups h = 0 then Inr (h, st)
      else if rd_alive h then Inr (redirect_lookup R (h, st)) else Inl Undefined)"
| "redirect_step R Run_Reply (h, st) =
     (if rd_replies h = [] then Inr (h, st)
      else if rd_alive h then Inr (redirect_reply h, st) else Inl Undefined)"

fun starts_redirect :: "'ip redirect_event \<Rightarrow> bool" where
  "starts_redirect (Rd_Callback e) = is_request e"
| "starts_redirect _ = False"

text \<open>Responses sent and responses still owed.\<close>

definition redirect_weight :: "redirect_handler \<times> 'r \<Rightarrow> nat" where
  "redirect_weight hs = length (rd_out (fst hs)) + rd_lookups (fst hs) + length (rd_replies (fst hs))"

lemma redirect_step_weight:
  assumes "redirect_step R e hs = Inr hs'"
  shows "redirect_weight hs' \<le> redirect_weight hs + (if starts_redirect e then 1 else 0)"
proof -
  obtain h st where hs: "hs = (h, st)" by (cases hs)
  show ?thesis
  proof (cases e)
    case (Rd_Callback c)
    then show ?thesis
      using assms
      by (cases c) (auto simp: hs redirect_weight_def redirect_onRequest_def rd_send_def split: if_splits)
  next
    case Run_Lookup
    then show ?thesis
      using assms
      by (auto simp: hs redirect_weight_def redirect_lookup_def split: if_splits prod.splits)
  next
    case Run_Reply
    then show ?thesis
      using assms
      by (auto simp: hs redirect_weight_def redirect_reply_def Let_def rd_send_def neq_Nil_conv split: if_splits)
  qed
qed

interpretation redirect: handler
  "redirect_step R :: 'ip redirect_event \<Rightarrow> redirect_handler \<times> 'r \<Rightarrow> (redirect_handler \<times> 'r) res"
  "\<lambda>s. True" redirect_weight starts_redirect
  by unfold_locales (auto dest: redirect_step_weight)

section \<open>Properties\<close>

text \<open>
  The redirect handler never answers more often than it is asked, in any interleaving of
  callbacks, lookups and replies.
\<close>

theorem redirect_answers_bounded:
  assumes "run (redirect_step R) es (new_UrlRedirectHandler slug, st) = Inr (h, st')"
  shows "length (rd_out h) \<le> length (filter starts_redirect es)"
  using redirect.run_weight[OF TrueI assms]
  by (simp add: redirect_weight_def new_UrlRedirectHandler_def)

definition get_request :: "string \<Rightarrow> nat http_message" where
  "get_request p =
     \<lparr>msg_method = Some GET, msg_path = p, msg_client_ip = 0,
      msg_header_exists = (\<lambda>_. False), msg_header_single = (\<lambda>_. '''')\<rparr>"

theorem redirect_answers_bounded_witness:
  "\<exists>h st'. run (redirect_step mem_rocksdb)
       [Rd_Callback (On_Request (get_request ''/abc'')), Run_Lookup, Run_Reply, Run_Reply]
       (new_UrlRedirectHandler ''abc'', [''abc'' \<mapsto> ''http://a'']) = Inr (h, st') \<and> length (rd_out h) \<le> 1"
proof -
  let ?es = "[Rd_Callback (On_Request (get_request ''/abc'')), Run_Lookup, Run_Reply, Run_Reply]"
  obtain h st' where r: "run (redirect_step mem_rocksdb) ?es
      (new_UrlRedirectHandler ''abc'', [''abc'' \<mapsto> ''http://a'']) = Inr (h, st')"
    by (simp add: new_UrlRedirectHandler_def redirect_onRequest_def get_request_def redirect_lookup_def
        redirect_reply_def Let_def rd_send_def db_get_fast_def mem_rocksdb_def)
  then show ?thesis using redirect_answers_bounded[OF r] by auto
qed

text \<open>Callbacks without an effect on this handler, and runs of them.\<close>

fun rd_idle :: "'ip redirect_event \<Rightarrow> bool" where
  "rd_idle (Rd_Callback (On_Body b)) = True"
| "rd_idle (Rd_Callback On_EOM) = True"
| "rd_idle (Rd_Callback On_Upgrade) = True"
| "rd_idle (Rd_Callback On_Egress_Paused) = True"
| "rd_idle (Rd_Callback On_Egress_Resumed) = True"
| "rd_idle _ = False"

lemma rd_idle_step: "rd_idle e \<Longrightarrow> rd_alive h \<Longrightarrow> redirect_step R e (h, st) = Inr (h, st)"
  by (cases e rule: rd_idle.cases) auto

lemma run_idle: "list_all rd_idle es \<Longrightarrow> rd_alive h \<Longrightarrow> run (redirect_step R) es (h, st) = Inr (h, st)"
  by (induction es) (auto simp: rd_idle_step)

text \<open>
  C13  A GET for a slug is answered with the stored URL, once: while the client stays, whatever
  body, flow control and other callbacks arrive before, between and after the lookup and the reply,
  the one response is 301 with the URL that the database has under the slug if the lookup
  succeeds, and 404 if it does not, be it that there is no such entry or that the database has failed.
\<close>

theorem redirect_serves_stored_url:
  assumes "rocksdb_contract R view"
    and "list_all rd_idle es1" and "list_all rd_idle es2" and "list_all rd_idle es3"
    and "msg_method req = Some GET" and "slug \<noteq> []"
  shows "\<exists>h st'. run (redirect_step R)
           ([Rd_Callback (On_Request req)] @ es1 @ [Run_Lookup] @ es2 @ [Run_Reply] @ es3)
           (new_UrlRedirectHandler slug, st) = Inr (h, st') \<and> view st' = view st \<and>
         (if fst (rocks_get R st slug) = StatusOk
          then \<exists>url. view st slug = Some url \<and>
                 rd_out h = [Send_With_EOM 301 ''Moved Permanently'' [(''Location'', url)] '''']
          else (view st slug = None \<or> \<not> rocksdb_healthy R) \<and> rd_out h = [Send_With_EOM 404 ''Not Found'' [] ''''])"
proof -
  obtain s v st' where g: "rocks_get R st slug = (s, v, st')" by (cases "rocks_get R st slug")
  have v: "view st' = view st" "s = StatusOk \<longrightarrow> view st slug = Some v" "s = StatusNotFound \<longrightarrow> view st slug = None"
    using assms(1) g by (simp_all add: rocksdb_contract_def)
  have s: "rocksdb_healthy R \<Longrightarrow> s = StatusOk \<or> s = StatusNotFound"
    using rocksdb_healthyD(2)[of R st slug] g by auto
  show ?thesis
    using assms(2-6) v s
    by (auto simp: run_append new_UrlRedirectHandler_def redirect_onRequest_def redirect_lookup_def g
        db_get_fast_def run_idle redirect_reply_def Let_def rd_send_def)
qed

theorem redirect_serves_stored_url_witness:
  "\<exists>h st'. run (redirect_step mem_rocksdb)
       [Rd_Callback (On_Request (get_request ''/abc'')), Rd_Callback On_EOM, Run_Lookup, Run_Reply]
       (new_UrlRedirectHandler ''abc'', [''abc'' \<mapsto> ''http://a'']) = Inr (h, st') \<and>
     rd_out h = [Send_With_EOM 301 ''Moved Permanently'' [(''Location'', ''http://a'')] '''']"
  using redirect_serves_stored_url[OF mem_contract, of "[Rd_Callback On_EOM]" "[]" "[]"
      "get_request ''/abc''" "''abc''" "[''abc'' \<mapsto> ''http://a'']"]
  by (simp add: get_request_def mem_rocksdb_def del: run.simps) blast

text \<open>
  A client that goes away while its lookup is queued makes the process use a deleted
  object: after \<open>onError\<close> or \<open>requestComplete\<close> the lookup, or the reply if the lookup has
  already run, writes through the dangling \<open>this\<close>.
\<close>

theorem redirect_use_after_free:
  assumes "list_all rd_idle es1" and "list_all rd_idle es2" and "ends_handler e"
    and "msg_method req = Some GET" and "slug \<noteq> []"
  shows "run (redirect_step R)
           ([Rd_Callback (On_Request req)] @ es1 @ [Rd_Callback e, Run_Lookup])
           (new_UrlRedirectHandler slug, st) = Inl Undefined \<and>
         run (redirect_step R)
           ([Rd_Callback (On_Request req)] @ es1 @ [Run_Lookup] @ es2 @ [Rd_Callback e, Run_Reply])
           (new_UrlRedirectHandler slug, st) = Inl Undefined"
  using assms
  by (cases e) (auto simp: run_append new_UrlRedirectHandler_def redirect_onRequest_def redirect_lookup_def
      run_idle split: prod.split)

theorem redirect_use_after_free_witness:
  "run (redirect_step mem_rocksdb)
     [Rd_Callback (On_Request (get_request ''/abc'')), Rd_Callback On_Error, Run_Lookup]
     (new_UrlRedirectHandler ''abc'', \<lambda>_. None) = Inl Undefined"
  using redirect_use_after_free[of "[]" "[]" On_Error "get_request ''/abc''" "''abc''" mem_rocksdb "\<lambda>_. None"]
  by (simp add: get_request_def)

end
