(* ===== verification/Static_Handler.thy ===== *)
theory Static_Handler
  imports Cpp_Std Http
begin

text \<open>
  \<^verbatim>\<open>url_shortener/static_handler.h\<close> and \<^verbatim>\<open>static_handler.cc\<close>: the cache of static files, the
  checks on the path of a request, and the handler that streams a file from a CPU thread.

  A request that is not answered from the cache opens the file and queues \<open>read_file\<close> on the
  CPU executor.  Any number of calls of \<open>read_file\<close> can run at once, since \<open>onEgressResumed\<close> may queue
  another one; the test of the loop, the read, the reset of the file and each posting of a
  closure are steps of their own.  The closures form the queue of the event base, and running the
  next one is a step.  The callbacks of proxygen are the other steps, so that a sequence of events is
  an interleaving of the readers with the event base.  The downstream object is taken to outlive
  the handler.
\<close>

section \<open>The cache\<close>

type_synonym file_cache = "string \<rightharpoonup> string"

definition cache_exists :: "file_cache \<Rightarrow> path \<Rightarrow> bool" where
  "cache_exists c file_path = (c file_path \<noteq> None)"

definition cache_get_copy :: "file_cache \<Rightarrow> path \<Rightarrow> string" where
  "cache_get_copy c file_path = (case c file_path of None \<Rightarrow> '''' | Some data \<Rightarrow> data)"

text \<open>\<open>get\<close> wraps the stored bytes; None is the null buffer.\<close>

definition cache_get :: "file_cache \<Rightarrow> path \<Rightarrow> string option" where
  "cache_get c file_path = c file_path"

text \<open>\<open>set\<close> inserts; an entry that is there stays.\<close>

definition cache_set :: "file_cache \<Rightarrow> path \<Rightarrow> string \<Rightarrow> file_cache" where
  "cache_set c file_path body =
     (case c file_path of None \<Rightarrow> c(file_path \<mapsto> body) | Some data \<Rightarrow> c)"

definition cache_append_data :: "file_cache \<Rightarrow> path \<Rightarrow> string \<Rightarrow> file_cache" where
  "cache_append_data c file_path buf =
     (case c file_path of
        None \<Rightarrow> c(file_path \<mapsto> buf)
      | Some data \<Rightarrow> c(file_path \<mapsto> data @ buf))"

text \<open>What the handler relies on: a file grows by what is appended to it, the others stay.\<close>

locale growing_cache =
  fixes cexists :: "'c \<Rightarrow> path \<Rightarrow> bool"
    and cget :: "'c \<Rightarrow> path \<Rightarrow> string option"
    and cappend :: "'c \<Rightarrow> path \<Rightarrow> string \<Rightarrow> 'c"
  assumes exists_get: "cexists c p \<longleftrightarrow> cget c p \<noteq> None"
    and get_append: "cget (cappend c p b) p = Some ((case cget c p of None \<Rightarrow> [] | Some d \<Rightarrow> d) @ b)"
    and get_append_other: "q \<noteq> p \<Longrightarrow> cget (cappend c p b) q = cget c q"
begin

lemma get_append_all:
  "bs \<noteq> [] \<Longrightarrow>
   cget (fold (\<lambda>b c. cappend c p b) bs c) p =
     Some ((case cget c p of None \<Rightarrow> [] | Some d \<Rightarrow> d) @ concat bs)"
proof (induction bs arbitrary: c)
  case (Cons b bs)
  then show ?case by (cases "bs = []") (simp_all add: get_append)
qed simp

lemma get_append_all_other:
  "q \<noteq> p \<Longrightarrow> cget (fold (\<lambda>b c. cappend c p b) bs c) q = cget c q"
  by (induction bs arbitrary: c) (simp_all add: get_append_other)

lemma append_all_exists: "bs \<noteq> [] \<Longrightarrow> cexists (fold (\<lambda>b c. cappend c p b) bs c) p"
  by (simp add: exists_get get_append_all)

end

interpretation static_cache: growing_cache cache_exists cache_get cache_append_data
  by unfold_locales (auto simp: cache_exists_def cache_get_def cache_append_data_def split: option.split)

section \<open>Checks on the request path\<close>

definition max_file_path_length :: nat where
  "max_file_path_length = 1000"

definition static_files_url_prefix :: string where
  "static_files_url_prefix = ''/static/''"

definition validate_static_file_request_path :: "string \<Rightarrow> bool" where
  "validate_static_file_request_path input \<longleftrightarrow>
     length input < max_file_path_length \<and> str_find input ''//'' 0 = None \<and> str_find input ''..'' 0 = None"

text \<open>The loop over both paths' elements; an empty element of the directory matches anything.\<close>

fun under_loop :: "string list \<Rightarrow> string list \<Rightarrow> bool" where
  "under_loop [] fs = True"
| "under_loop (p # ps) [] = False"
| "under_loop (p # ps) (f # fs) = (if p \<noteq> f \<and> p \<noteq> '''' then False else under_loop ps fs)"

definition file_is_under_dir :: "path \<Rightarrow> path \<Rightarrow> bool" where
  "file_is_under_dir this_file is_under_this_dir = under_loop (path_elems is_under_this_dir) (path_elems this_file)"

definition expected_file_path :: "string \<Rightarrow> path \<Rightarrow> path" where
  "expected_file_path req_path doc_root =
     (if rfind_0 req_path static_files_url_prefix \<noteq> Some 0 then ''''
      else path_append doc_root (drop (length static_files_url_prefix) req_path))"

section \<open>The handler\<close>

text \<open>The closures that \<open>read_file\<close> hands to the event base.\<close>

datatype evb_task = Task_Abort | Task_EOM | Task_Chunk string | Task_Read_Done

text \<open>
  Where a call of \<open>read_file\<close> stands: before the test of the loop, before \<open>readNoInt\<close>, before
  \<open>file_.reset()\<close>, with the closure that is posted next, or before it hands a closure to the event base.
\<close>

datatype reader = Test_Loop | Read_File | Reset_File evb_task | Post evb_task

text \<open>
  \<open>sh_file\<close> is the part of the open file that is not read yet, None without a file.
  \<open>sh_readers\<close> are the calls of \<open>read_file\<close> that are queued or running; they share the file and its
  position.
\<close>

record static_handler =
  sh_alive :: bool
  sh_requested_file_path :: path
  sh_file :: "string option"
  sh_read_file_scheduled :: bool
  sh_paused :: bool
  sh_finished :: bool
  sh_doc_root :: path
  sh_readers :: "reader list"
  sh_evb :: "evb_task list"
  sh_out :: "downstream_op list"

definition new_StaticHandler :: "path \<Rightarrow> static_handler" where
  "new_StaticHandler doc_root =
     \<lparr>sh_alive = True, sh_requested_file_path = '''', sh_file = None, sh_read_file_scheduled = False,
      sh_paused = False, sh_finished = False, sh_doc_root = doc_root, sh_readers = [], sh_evb = [], sh_out = []\<rparr>"

definition sh_send :: "downstream_op \<Rightarrow> static_handler \<Rightarrow> static_handler" where
  "sh_send op h = h\<lparr>sh_out := sh_out h @ [op]\<rparr>"

definition sendBadRequestError :: "string \<Rightarrow> static_handler \<Rightarrow> static_handler" where
  "sendBadRequestError what h = sh_send (Send_With_EOM 400 what [] '''') h"

definition sendError :: "string \<Rightarrow> static_handler \<Rightarrow> static_handler" where
  "sendError what h = sh_send (Send_With_EOM 500 what [] '''') h"

text \<open>\<open>this->read_file\<close> is added to the executor.\<close>

definition add_read_file :: "static_handler \<Rightarrow> static_handler" where
  "add_read_file h = h\<lparr>sh_readers := sh_readers h @ [Test_Loop]\<rparr>"

text \<open>
  \<open>open_file\<close> gives the contents of a file that can be opened.  The cache is None when the
  server has stopped and the weak pointer locks to null.
\<close>

definition static_onRequest ::
  "(path \<Rightarrow> string option) \<Rightarrow> 'ip http_message \<Rightarrow> file_cache option \<Rightarrow> static_handler \<Rightarrow> static_handler res" where
  "static_onRequest open_file request cache h =
     (if msg_method request \<noteq> Some GET then Inr (sh_send (Send_With_EOM 405 ''Method Not Allowed'' [] '''') h)
      else if \<not> validate_static_file_request_path (msg_path request)
      then Inr (sendBadRequestError ''malicious input detected'' h)
      else
        (let file_path_should_be = expected_file_path (msg_path request) (sh_doc_root h)
         in if \<not> file_is_under_dir file_path_should_be (sh_doc_root h)
            then Inr (sendBadRequestError ''malicious input detected in request for static asset'' h)
            else
              (case cache of
                 None \<Rightarrow> Inl Undefined
               | Some this_cache \<Rightarrow>
                   if cache_exists this_cache file_path_should_be
                   then Inr (sh_send (Send_With_EOM 200 ''OK'' []
                               (case cache_get this_cache file_path_should_be of None \<Rightarrow> '''' | Some b \<Rightarrow> b)) h)
                   else
                     (case open_file file_path_should_be of
                        None \<Rightarrow> Inr (sh_send (Send_With_EOM 404 ''Not Found'' [] '''') h)
                      | Some contents \<Rightarrow>
                          Inr (add_read_file
                            (sh_send (Send 200 ''OK'' [] '''')
                              (h\<lparr>sh_file := Some contents, sh_requested_file_path := file_path_should_be,
                                 sh_read_file_scheduled := True\<rparr>)))))))"

definition check_for_completion :: "static_handler \<Rightarrow> static_handler \<times> bool" where
  "check_for_completion h =
     (if sh_finished h \<and> \<not> sh_read_file_scheduled h then (h\<lparr>sh_alive := False\<rparr>, True) else (h, False))"

text \<open>\<open>read_file_scheduled_\<close> stays false when the reader is queued again.\<close>

definition static_onEgressResumed :: "static_handler \<Rightarrow> static_handler" where
  "static_onEgressResumed h =
     (let h' = h\<lparr>sh_paused := False\<rparr>
      in if sh_read_file_scheduled h' = False \<and> sh_file h' \<noteq> None then add_read_file h' else h')"

definition static_onEgressPaused :: "static_handler \<Rightarrow> static_handler" where
  "static_onEgressPaused h = h\<lparr>sh_paused := True\<rparr>"

definition static_finish :: "static_handler \<Rightarrow> static_handler" where
  "static_finish h = fst (check_for_completion (h\<lparr>sh_finished := True, sh_paused := True\<rparr>))"

fun static_callback ::
  "(path \<Rightarrow> string option) \<Rightarrow> 'ip callback \<Rightarrow> file_cache option \<Rightarrow> static_handler \<Rightarrow> static_handler res" where
  "static_callback open_file (On_Request request) cache h = static_onRequest open_file request cache h"
| "static_callback open_file Request_Complete cache h = Inr (static_finish h)"
| "static_callback open_file On_Error cache h = Inr (static_finish h)"
| "static_callback open_file On_Egress_Paused cache h = Inr (static_onEgressPaused h)"
| "static_callback open_file On_Egress_Resumed cache h = Inr (static_onEgressResumed h)"
| "static_callback open_file (On_Body body) cache h = Inr h"
| "static_callback open_file On_EOM cache h = Inr h"
| "static_callback open_file On_Upgrade cache h = Inr h"

text \<open>
  One step of a call of \<open>read_file\<close>; None when the call has returned.  \<open>rc\<close> is the outcome of
  \<open>readNoInt\<close>, if the step is a read: None for an error, \<open>Some k\<close> for a read that returns up to
  \<open>k\<close> + 1 characters, at least one before the end of the file and never more than 4000.  Posting
  does not look at the handler; everything else does, and a read needs the file to be still there.
\<close>

fun after_post :: "evb_task \<Rightarrow> reader option" where
  "after_post (Task_Chunk body) = Some Test_Loop"
| "after_post Task_EOM = Some Test_Loop"
| "after_post Task_Abort = Some (Post Task_Read_Done)"
| "after_post Task_Read_Done = None"

fun reader_step :: "nat option \<Rightarrow> reader \<Rightarrow> static_handler \<Rightarrow> (reader option \<times> static_handler) res" where
  "reader_step rc Test_Loop h =
     (if \<not> sh_alive h then Inl Undefined
      else Inr (Some (if sh_file h \<noteq> None \<and> \<not> sh_paused h then Read_File else Post Task_Read_Done), h))"
| "reader_step rc Read_File h =
     (if \<not> sh_alive h then Inl Undefined
      else
        (case sh_file h of
           None \<Rightarrow> Inl Undefined
         | Some rest \<Rightarrow>
             (case rc of
                None \<Rightarrow> Inr (Some (Reset_File Task_Abort), h)
              | Some k \<Rightarrow>
                  (let n = min (Suc k) 4000
                   in if rest = '''' then Inr (Some (Reset_File Task_EOM), h)
                      else Inr (Some (Post (Task_Chunk (take n rest))), h\<lparr>sh_file := Some (drop n rest)\<rparr>)))))"
| "reader_step rc (Reset_File task) h =
     (if \<not> sh_alive h then Inl Undefined else Inr (Some (Post task), h\<lparr>sh_file := None\<rparr>))"
| "reader_step rc (Post task) h = Inr (after_post task, h\<lparr>sh_evb := sh_evb h @ [task]\<rparr>)"

definition set_reader :: "nat \<Rightarrow> reader option \<Rightarrow> static_handler \<Rightarrow> static_handler" where
  "set_reader i r h =
     h\<lparr>sh_readers := (case r of Some r' \<Rightarrow> (sh_readers h)[i := r']
                      | None \<Rightarrow> take i (sh_readers h) @ drop (Suc i) (sh_readers h))\<rparr>"

text \<open>The closures on the event base.\<close>

fun run_task :: "evb_task \<Rightarrow> static_handler \<Rightarrow> file_cache option \<Rightarrow> (static_handler \<times> file_cache option) res" where
  "run_task Task_Abort h cache = Inr (sh_send Send_Abort h, cache)"
| "run_task Task_EOM h cache = Inr (sh_send Send_EOM h, cache)"
| "run_task (Task_Chunk body) h cache =
     res_bind (check_that (sh_requested_file_path h \<noteq> '''')) (\<lambda>_.
       case cache of
         None \<Rightarrow> Inl Undefined
       | Some c \<Rightarrow> Inr (sh_send (Send_Body body) h, Some (cache_append_data c (sh_requested_file_path h) body)))"
| "run_task Task_Read_Done h cache =
     (let h' = h\<lparr>sh_read_file_scheduled := False\<rparr>
      in case check_for_completion h' of
           (h'', completed) \<Rightarrow>
             Inr (if \<not> completed \<and> \<not> sh_paused h'' then static_onEgressResumed h'' else h'', cache))"

text \<open>\<open>Reader_Step i rc\<close> is a step of the \<open>i\<close>-th call of \<open>read_file\<close>.\<close>

datatype 'ip static_event = Sh_Callback "'ip callback" | Reader_Step nat "nat option" | Run_Task

fun static_step ::
  "(path \<Rightarrow> string option) \<Rightarrow> 'ip static_event \<Rightarrow> static_handler \<times> file_cache option \<Rightarrow>
   (static_handler \<times> file_cache option) res" where
  "static_step open_file (Sh_Callback e) (h, cache) =
     (if sh_alive h then res_map (\<lambda>h'. (h', cache)) (static_callback open_file e cache h) else Inl Undefined)"
| "static_step open_file (Reader_Step i rc) (h, cache) =
     (if i < length (sh_readers h)
      then res_map (\<lambda>(r, h'). (set_reader i r h', cache)) (reader_step rc (sh_readers h ! i) h)
      else Inr (h, cache))"
| "static_step open_file Run_Task (h, cache) =
     (case sh_evb h of
        [] \<Rightarrow> Inr (h, cache)
      | task # tasks \<Rightarrow>
          if sh_alive h then run_task task (h\<lparr>sh_evb := tasks\<rparr>) cache else Inl Undefined)"

section \<open>One response\<close>

fun starts_static :: "'ip static_event \<Rightarrow> bool" where
  "starts_static (Sh_Callback c) = is_request c"
| "starts_static _ = False"

lemma sh_send_out [simp]: "sh_out (sh_send op h) = sh_out h @ [op]"
  by (simp add: sh_send_def)

lemma static_finish_out [simp]: "sh_out (static_finish h) = sh_out h"
  by (simp add: static_finish_def check_for_completion_def)

lemma egress_out [simp]: "sh_out (static_onEgressResumed h) = sh_out h" "sh_out (static_onEgressPaused h) = sh_out h"
  by (simp_all add: static_onEgressResumed_def static_onEgressPaused_def add_read_file_def Let_def)

lemma set_reader_simps [simp]:
  "sh_out (set_reader i r h) = sh_out h" "sh_evb (set_reader i r h) = sh_evb h" "sh_file (set_reader i r h) = sh_file h"
  "sh_alive (set_reader i r h) = sh_alive h" "sh_requested_file_path (set_reader i r h) = sh_requested_file_path h"
  "sh_finished (set_reader i r h) = sh_finished h" "sh_paused (set_reader i r h) = sh_paused h"
  "sh_read_file_scheduled (set_reader i r h) = sh_read_file_scheduled h"
  by (simp_all add: set_reader_def)

text \<open>What a step of a reader leaves alone.\<close>

lemma reader_step_frame:
  "reader_step rc pc h = Inr (r, h') \<Longrightarrow>
   sh_out h' = sh_out h \<and> sh_readers h' = sh_readers h \<and> sh_requested_file_path h' = sh_requested_file_path h \<and>
   sh_alive h' = sh_alive h \<and> sh_finished h' = sh_finished h \<and> sh_paused h' = sh_paused h \<and>
   sh_read_file_scheduled h' = sh_read_file_scheduled h"
  by (cases pc) (auto simp: Let_def split: if_splits option.splits)

lemma static_onRequest_responses:
  "static_onRequest open_file request cache h = Inr h' \<Longrightarrow> responses (sh_out h') \<le> responses (sh_out h) + 1"
  by (auto simp: static_onRequest_def sendBadRequestError_def add_read_file_def Let_def split: if_splits option.splits)

lemma run_task_responses:
  "run_task task h cache = Inr (h', cache') \<Longrightarrow> responses (sh_out h') = responses (sh_out h)"
  by (cases task)
     (auto simp: res_bind_eq_Inr check_for_completion_def Let_def split: option.splits if_splits)

lemma static_step_responses:
  assumes "static_step open_file e (h, c) = Inr (h', c')"
  shows "responses (sh_out h') \<le> responses (sh_out h) + (if starts_static e then 1 else 0)"
proof (cases e)
  case (Sh_Callback cb)
  then show ?thesis
    using assms static_onRequest_responses[of open_file _ c h h']
    by (cases cb) (auto simp: res_map_eq_Inr split: if_splits)
next
  case Run_Task
  then show ?thesis
    using assms run_task_responses[of _ _ c h' c'] by (fastforce split: list.splits if_splits)
next
  case (Reader_Step i rc)
  then show ?thesis
    using assms reader_step_frame by (fastforce simp: res_map_eq_Inr split: if_splits prod.splits)
qed

interpretation static: handler "static_step open_file" "\<lambda>s. True" "\<lambda>s. responses (sh_out (fst s))" starts_static
proof
  fix e :: "'a static_event" and s s' :: "static_handler \<times> file_cache option"
  assume "static_step open_file e s = Inr s'"
  then show "responses (sh_out (fst s')) \<le> responses (sh_out (fst s)) + (if starts_static e then 1 else 0)"
    using static_step_responses[of open_file e "fst s" "snd s" "fst s'" "snd s'"] by simp
qed simp

section \<open>Requests stay under the document root\<close>

lemma under_loop_append: "under_loop xs (xs @ ys)"
  by (induction xs) auto

lemma under_loop_trailing: "under_loop (xs @ ['''']) (xs @ y # ys)"
  by (induction xs) auto

lemma str_find_0_None: "str_find s p 0 = None \<Longrightarrow> s \<noteq> a @ p @ b"
  using not_str_contains_append[of s p a b] by (simp add: str_contains_def)

text \<open>A path is confined if it extends the root by components that are not dot-dot.\<close>

definition confined :: "path \<Rightarrow> path \<Rightarrow> bool" where
  "confined root p \<longleftrightarrow>
     (\<exists>ns. path_names p = path_names root @ ns \<and> ''..'' \<notin> set ns) \<and> is_absolute p = is_absolute root"

lemma expected_file_path_parts:
  assumes "validate_static_file_request_path (static_files_url_prefix @ r)"
  shows "\<not> is_absolute r" and "''..'' \<notin> set (path_names r)"
proof -
  have v: "str_find (static_files_url_prefix @ r) ''//'' 0 = None"
    "str_find (static_files_url_prefix @ r) ''..'' 0 = None"
    using assms by (simp_all add: validate_static_file_request_path_def)
  show "\<not> is_absolute r"
  proof
    assume "is_absolute r"
    then obtain t where "r = CHR ''/'' # t" by (cases r) (auto simp: is_absolute_def)
    then have "static_files_url_prefix @ r = ''/static'' @ ''//'' @ t"
      by (simp add: static_files_url_prefix_def)
    then show False using str_find_0_None[OF v(1)] by blast
  qed
  show "''..'' \<notin> set (path_names r)"
  proof
    assume "''..'' \<in> set (path_names r)"
    then obtain a b where "r = a @ ''..'' @ b" using path_names_infix by blast
    then have "static_files_url_prefix @ r = (static_files_url_prefix @ a) @ ''..'' @ b" by simp
    then show False using str_find_0_None[OF v(2)] by blast
  qed
qed

lemma path_append_names:
  assumes "\<not> is_absolute r"
  shows "path_names (path_append root r) = path_names root @ path_names r"
    and "is_absolute (path_append root r) = is_absolute root"
proof -
  have n: "path_names [] = []" by (rule path_names_none) simp
  show "path_names (path_append root r) = path_names root @ path_names r"
  proof (cases "has_filename root \<or> root = []")
    case True
    then show ?thesis
      using assms path_names_append[of root r] by (auto simp: path_append_def has_filename_def n)
  next
    case False
    then obtain d where "root = d @ ''/''" by (cases root rule: rev_cases) (auto simp: has_filename_def)
    then show ?thesis
      using assms False path_names_append[of d r] path_names_append[of d "[]"]
      by (simp add: path_append_def n)
  qed
  show "is_absolute (path_append root r) = is_absolute root"
    using assms by (cases root) (auto simp: path_append_def is_absolute_def has_filename_def)
qed

lemma path_append_under:
  assumes "\<not> is_absolute r"
  shows "file_is_under_dir (path_append root r) root"
proof -
  have r: "path_names r = [] \<Longrightarrow> r = []"
    using assms path_names_some[of r r] by (cases r) (auto simp: is_absolute_def)
  have nil: "path_names [] = []" by (rule path_names_none) simp
  let ?p = "path_append root r"
  let ?root = "(if is_absolute root then [''/''] else []) @ path_names root"
  have p: "path_elems ?p = ?root @ path_names r @
      (if path_names ?p \<noteq> [] \<and> last ?p = CHR ''/'' then [''''] else [])"
    using path_append_names[OF assms, of root] by (simp add: path_elems_def)
  show ?thesis
  proof (cases "path_names root \<noteq> [] \<and> last root = CHR ''/''")
    case False
    then have "path_elems root = ?root" by (auto simp: path_elems_def)
    then show ?thesis unfolding file_is_under_dir_def p using under_loop_append[of ?root] by simp
  next
    case True
    then have e: "path_elems root = ?root @ ['''']" by (simp add: path_elems_def)
    have "root \<noteq> []" using True by (auto simp: nil)
    then have a: "?p = root @ r" using True assms by (simp add: path_append_def has_filename_def)
    have "\<exists>y ys. path_elems ?p = ?root @ y # ys"
    proof (cases "path_names r")
      case Nil
      then have "r = []" by (rule r)
      then show ?thesis using p True a Nil by simp
    next
      case (Cons y ys)
      then show ?thesis using p by simp
    qed
    then obtain y ys where "path_elems ?p = ?root @ y # ys" by blast
    then show ?thesis
      unfolding file_is_under_dir_def e using under_loop_trailing[of ?root y ys] by simp
  qed
qed

lemma expected_file_path_confined:
  assumes "validate_static_file_request_path req_path" and "starts_with req_path static_files_url_prefix"
  shows "confined root (expected_file_path req_path root)"
    and "file_is_under_dir (expected_file_path req_path root) root"
proof -
  obtain r where r: "req_path = static_files_url_prefix @ r" using assms(2) by (auto simp: starts_with_iff)
  have v: "\<not> is_absolute r" "''..'' \<notin> set (path_names r)"
    using expected_file_path_parts[of r] assms(1) r by simp_all
  have e: "expected_file_path req_path root = path_append root r"
    using assms(2) by (simp add: expected_file_path_def rfind_0_def r)
  show "confined root (expected_file_path req_path root)"
    unfolding e confined_def using path_append_names[OF v(1)] v(2) by blast
  show "file_is_under_dir (expected_file_path req_path root) root"
    unfolding e by (rule path_append_under[OF v(1)])
qed

text \<open>
  C5  What a static request sees of the file system and of the cache is confined to the
  document root: for a path with the prefix of the route, the handler's reaction depends only
  on files whose path extends the root by components other than dot-dot.  Nothing outside,
  readable or cached, can influence a response.
\<close>

theorem static_request_confined:
  assumes "\<And>p. confined (sh_doc_root h) p \<Longrightarrow> open_file p = open_file' p \<and> cache p = cache' p"
    and "starts_with (msg_path request) static_files_url_prefix"
  shows "static_onRequest open_file request (Some cache) h = static_onRequest open_file' request (Some cache') h"
proof (cases "validate_static_file_request_path (msg_path request)")
  case True
  let ?p = "expected_file_path (msg_path request) (sh_doc_root h)"
  have "open_file ?p = open_file' ?p" "cache ?p = cache' ?p"
    using assms(1)[OF expected_file_path_confined(1)[OF True assms(2)]] by simp_all
  then show ?thesis
    by (simp add: static_onRequest_def Let_def cache_exists_def cache_get_def)
qed (simp add: static_onRequest_def)

definition static_get :: "string \<Rightarrow> nat http_message" where
  "static_get p =
     \<lparr>msg_method = Some GET, msg_path = p, msg_client_ip = 0,
      msg_header_exists = (\<lambda>_. False), msg_header_single = (\<lambda>_. '''')\<rparr>"

theorem static_request_confined_witness:
  "static_onRequest (\<lambda>p. if p = ''/etc/passwd'' then Some ''root'' else None) (static_get ''/static/passwd'')
     (Some Map.empty) (new_StaticHandler ''/srv'') =
   static_onRequest (\<lambda>p. None) (static_get ''/static/passwd'') (Some Map.empty) (new_StaticHandler ''/srv'')"
proof (rule static_request_confined)
  have "path_names ''/etc/passwd'' = [''etc'', ''passwd'']" "path_names ''/srv'' = [''srv'']" by code_simp+
  then show "(if p = ''/etc/passwd'' then Some ''root'' else None) = None \<and> Map.empty p = Map.empty p"
    if "confined (sh_doc_root (new_StaticHandler ''/srv'')) p" for p
    using that by (auto simp: confined_def new_StaticHandler_def)
  show "starts_with (msg_path (static_get ''/static/passwd'')) static_files_url_prefix"
    by (simp add: static_get_def starts_with_def static_files_url_prefix_def)
qed

text \<open>
  The second check never rejects what the first one has let through: for every document
  root and every validated path with the prefix, \<open>file_is_under_dir\<close> holds, so a request
  is refused as malicious exactly for its length, a double slash or a double dot.
\<close>

theorem static_request_refused_iff:
  assumes "starts_with (msg_path request) static_files_url_prefix" and "msg_method request = Some GET"
    and "static_onRequest open_file request (Some cache) h = Inr h'" and "sh_out h = []"
  shows "(\<exists>what. sh_out h' = [Send_With_EOM 400 what [] '''']) \<longleftrightarrow>
         1000 \<le> length (msg_path request) \<or> str_contains (msg_path request) ''//'' \<or>
         str_contains (msg_path request) ''..''"
proof -
  let ?p = "expected_file_path (msg_path request) (sh_doc_root h)"
  have v: "validate_static_file_request_path (msg_path request) \<longleftrightarrow>
      \<not> (1000 \<le> length (msg_path request) \<or> str_contains (msg_path request) ''//'' \<or>
         str_contains (msg_path request) ''..'')"
    by (auto simp: validate_static_file_request_path_def max_file_path_length_def str_contains_def)
  show ?thesis
  proof (cases "validate_static_file_request_path (msg_path request)")
    case True
    then have "file_is_under_dir ?p (sh_doc_root h)" using assms(1) by (rule expected_file_path_confined(2))
    then have "\<not> (\<exists>what. sh_out h' = [Send_With_EOM 400 what [] ''''])"
      using assms(2-4) True
      by (auto simp: static_onRequest_def Let_def sh_send_def add_read_file_def split: if_splits option.splits)
    then show ?thesis using v True by blast
  next
    case False
    then have "sh_out h' = [Send_With_EOM 400 ''malicious input detected'' [] '''']"
      using assms(2-4) by (auto simp: static_onRequest_def sendBadRequestError_def sh_send_def)
    then show ?thesis using v False by auto
  qed
qed

theorem static_request_refused_iff_witness:
  "\<exists>h'. static_onRequest (\<lambda>_. None) (static_get ''/static/../db'') (Some Map.empty) (new_StaticHandler ''/srv'') = Inr h' \<and>
     (\<exists>what. sh_out h' = [Send_With_EOM 400 what [] ''''])"
proof -
  have v: "\<not> validate_static_file_request_path ''/static/../db''" by code_simp
  then obtain h' where r: "static_onRequest (\<lambda>_. None) (static_get ''/static/../db'') (Some Map.empty)
      (new_StaticHandler ''/srv'') = Inr h'"
    by (simp add: static_onRequest_def static_get_def)
  have "str_contains (msg_path (static_get ''/static/../db'')) ''..''" by code_simp
  moreover have "starts_with (msg_path (static_get ''/static/../db'')) static_files_url_prefix" by code_simp
  ultimately show ?thesis
    using static_request_refused_iff[OF _ _ r] r by (auto simp: static_get_def new_StaticHandler_def)
qed

section \<open>The reader and the event base\<close>

lemmas static_simps = static_onRequest_def Let_def sh_send_def sendBadRequestError_def add_read_file_def
  static_finish_def check_for_completion_def static_onEgressResumed_def static_onEgressPaused_def set_reader_def

fun static_callback_of :: "'ip static_event \<Rightarrow> 'ip callback option" where
  "static_callback_of (Sh_Callback c) = Some c"
| "static_callback_of _ = None"

fun is_flow_control :: "'ip static_event \<Rightarrow> bool" where
  "is_flow_control (Sh_Callback On_Egress_Paused) = True"
| "is_flow_control (Sh_Callback On_Egress_Resumed) = True"
| "is_flow_control _ = False"

text \<open>
  At most one reader, whose last closure is still to run or to be queued.  It reads only when there is
  a file, and it has given the file up when it returns.
\<close>

definition reading :: "static_handler \<Rightarrow> bool" where
  "reading h \<longleftrightarrow>
     (\<exists>pc. sh_readers h = [pc] \<and> Task_Read_Done \<notin> set (sh_evb h) \<and> (pc = Read_File \<longrightarrow> sh_file h \<noteq> None) \<and>
        pc \<noteq> Reset_File Task_Read_Done \<and>
        (pc = Post Task_Abort \<or> pc = Post Task_Read_Done \<longrightarrow> sh_finished h \<or> sh_file h = None)) \<or>
     (sh_readers h = [] \<and> (\<exists>q. sh_evb h = q @ [Task_Read_Done] \<and> Task_Read_Done \<notin> set q))"

definition sh_safe :: "phase \<Rightarrow> static_handler \<Rightarrow> bool" where
  "sh_safe ph h \<longleftrightarrow>
     (sh_finished h \<longleftrightarrow> ph = Ended) \<and> (sh_paused h \<longleftrightarrow> sh_finished h) \<and>
     (sh_alive h \<longleftrightarrow> \<not> (sh_finished h \<and> \<not> sh_read_file_scheduled h)) \<and>
     (if sh_read_file_scheduled h then reading h \<and> sh_requested_file_path h \<noteq> '''' \<and> ph \<noteq> Fresh
      else sh_readers h = [] \<and> sh_evb h = []) \<and>
     (\<not> sh_finished h \<and> sh_readers h = [] \<longrightarrow> sh_file h = None)"

text \<open>A request is answered at once, or it opens the file and queues the reader.\<close>

definition static_open :: "path \<Rightarrow> string \<Rightarrow> static_handler \<Rightarrow> static_handler" where
  "static_open p contents h =
     add_read_file (sh_send (Send 200 ''OK'' [] [])
       (h\<lparr>sh_file := Some contents, sh_requested_file_path := p, sh_read_file_scheduled := True\<rparr>))"

lemma static_onRequest_cases:
  obtains st r hd b where "static_onRequest open_file req (Some c) h = Inr (sh_send (Send_With_EOM st r hd b) h)"
  | contents where "open_file (expected_file_path (msg_path req) (sh_doc_root h)) = Some contents"
    and "c (expected_file_path (msg_path req) (sh_doc_root h)) = None"
    and "static_onRequest open_file req (Some c) h =
      Inr (static_open (expected_file_path (msg_path req) (sh_doc_root h)) contents h)"
proof -
  let ?p = "expected_file_path (msg_path req) (sh_doc_root h)"
  let ?checks = "msg_method req = Some GET \<and> validate_static_file_request_path (msg_path req) \<and>
    file_is_under_dir ?p (sh_doc_root h) \<and> c ?p = None"
  show ?thesis
  proof (cases ?checks)
    case checks: True
    show ?thesis
    proof (cases "open_file ?p")
      case None
      have "static_onRequest open_file req (Some c) h = Inr (sh_send (Send_With_EOM 404 ''Not Found'' [] []) h)"
        using checks None by (simp add: static_onRequest_def Let_def cache_exists_def)
      then show ?thesis by (rule that(1))
    next
      case (Some contents)
      have "static_onRequest open_file req (Some c) h = Inr (static_open ?p contents h)"
        using checks Some by (simp add: static_onRequest_def Let_def cache_exists_def static_open_def)
      then show ?thesis using Some checks by (intro that(2)) blast+
    qed
  next
    case False
    then have "\<exists>st r hd b. static_onRequest open_file req (Some c) h = Inr (sh_send (Send_With_EOM st r hd b) h)"
      unfolding static_onRequest_def Let_def sendBadRequestError_def cache_exists_def by auto
    then show ?thesis using that(1) by blast
  qed
qed

lemma sh_safe_request:
  assumes "sh_safe Fresh h" and "open_file [] = None"
  shows "\<exists>h'. static_onRequest open_file req (Some c) h = Inr h' \<and> sh_safe Serving h'"
proof (cases rule: static_onRequest_cases[of open_file req c h])
  case (1 st r hd b)
  then show ?thesis using assms(1) by (auto simp: sh_safe_def sh_send_def split: if_splits)
next
  case (2 contents)
  then have "expected_file_path (msg_path req) (sh_doc_root h) \<noteq> []" using assms(2) by auto
  then show ?thesis
    using 2(3) assms(1)
    by (auto simp: sh_safe_def static_open_def sh_send_def add_read_file_def reading_def split: if_splits)
qed

lemma sh_safe_callback:
  assumes "sh_safe ph h" and "next_phase cb ph = Some ph'" and "\<not> is_flow_control (Sh_Callback cb)"
    and "open_file '''' = None"
  shows "\<exists>h'. static_step open_file (Sh_Callback cb) (h, Some c) = Inr (h', Some c) \<and> sh_safe ph' h'"
proof -
  have alive: "sh_alive h" using assms(1,2) by (cases cb) (auto simp: sh_safe_def split: if_splits)
  show ?thesis
  proof (cases cb)
    case (On_Request req)
    then have "sh_safe Fresh h" "ph' = Serving" using assms(1,2) by (auto split: if_splits)
    then show ?thesis using sh_safe_request[of h open_file req c] assms(4) On_Request alive by auto
  qed (use assms alive in \<open>auto simp: static_simps sh_safe_def reading_def split: if_splits\<close>)
qed

lemma sh_safe_reader:
  assumes "sh_safe ph h"
  shows "\<exists>h'. static_step open_file (Reader_Step i rc) (h, Some c) = Inr (h', Some c) \<and> sh_safe ph h'"
proof (cases "i < length (sh_readers h)")
  case False
  then show ?thesis using assms by simp
next
  case True
  then have s: "sh_read_file_scheduled h" "sh_alive h" "reading h"
    using assms by (auto simp: sh_safe_def split: if_splits)
  then obtain pc where pc: "sh_readers h = [pc]" "i = 0" "Task_Read_Done \<notin> set (sh_evb h)"
    "pc = Read_File \<longrightarrow> sh_file h \<noteq> None"
    using True by (auto simp: reading_def)
  show ?thesis
  proof (cases pc)
    case (Post t)
    then show ?thesis
      using assms s pc by (cases t) (auto simp: static_simps sh_safe_def reading_def split: if_splits)
  qed (use assms s pc in \<open>auto simp: static_simps sh_safe_def reading_def split: option.split if_splits\<close>)
qed

lemma sh_safe_task:
  assumes "sh_safe ph h"
  shows "\<exists>h' c'. static_step open_file Run_Task (h, Some c) = Inr (h', Some c') \<and> sh_safe ph h'"
proof (cases "sh_evb h")
  case Nil
  then show ?thesis using assms by simp
next
  case (Cons t ts)
  then have s: "sh_read_file_scheduled h" "reading h" "sh_alive h" "sh_requested_file_path h \<noteq> ''''"
    using assms by (auto simp: sh_safe_def split: if_splits)
  show ?thesis
  proof (cases "t = Task_Read_Done")
    case True
    then have "sh_readers h = []" "ts = []"
      using s(2) Cons by (auto simp: reading_def Cons_eq_append_conv)
    then show ?thesis
      using assms s Cons True by (auto simp: static_simps sh_safe_def)
  next
    case False
    have "reading (h\<lparr>sh_evb := ts\<rparr>)"
      using s(2) Cons False by (auto simp: reading_def Cons_eq_append_conv)
    then show ?thesis
      using assms s Cons False
      by (cases t) (auto simp: sh_safe_def reading_def sh_send_def check_that_def)
  qed
qed

lemma sh_safe_step:
  assumes "follows_protocol static_callback_of (e # es) ph" and "sh_safe ph h" and "open_file '''' = None"
    and "\<not> is_flow_control e"
  shows "\<exists>h' c' ph'. static_step open_file e (h, Some c) = Inr (h', Some c') \<and> sh_safe ph' h' \<and>
    follows_protocol static_callback_of es ph'"
proof (cases e)
  case (Sh_Callback cb)
  then obtain ph' where ph': "next_phase cb ph = Some ph'" "follows_protocol static_callback_of es ph'"
    using assms(1) by (auto split: option.splits)
  then show ?thesis
    using sh_safe_callback[of ph h cb ph' open_file c] assms(2-) Sh_Callback by blast
next
  case (Reader_Step i rc)
  then have "follows_protocol static_callback_of es ph" using assms(1) by simp
  then show ?thesis using sh_safe_reader[of ph h open_file i rc c] assms(2) Reader_Step by blast
next
  case Run_Task
  then have "follows_protocol static_callback_of es ph" using assms(1) by simp
  then show ?thesis using sh_safe_task[of ph h open_file c] assms(2) Run_Task by blast
qed

lemma static_run_safe:
  assumes "open_file '''' = None"
  shows "follows_protocol static_callback_of es ph \<Longrightarrow> \<not> list_ex is_flow_control es \<Longrightarrow> sh_safe ph h \<Longrightarrow>
    \<exists>h' c' ph'. run (static_step open_file) es (h, Some c) = Inr (h', Some c') \<and> sh_safe ph' h'"
proof (induction es arbitrary: ph h c)
  case (Cons e es)
  obtain h' c' ph' where n: "static_step open_file e (h, Some c) = Inr (h', Some c')" "sh_safe ph' h'"
    "follows_protocol static_callback_of es ph'"
    using sh_safe_step[of e es ph h open_file c] Cons.prems assms by auto
  have "\<not> list_ex is_flow_control es" using Cons.prems(2) by simp
  from Cons.IH[OF n(3) this n(2), of c'] n(1) show ?case by simp
qed auto

text \<open>
  C15  Without flow control the handler is memory safe: as long as proxygen follows its protocol
  and never pauses egress, no interleaving of the steps of the reader, the event base and the callbacks
  (the client leaving at any time included, between the test of the loop and the read for instance) uses the handler after it has deleted itself.
\<close>

theorem static_safe_without_flow_control:
  assumes "follows_protocol static_callback_of es Fresh" and "\<not> list_ex is_flow_control es"
    and "open_file '''' = None"
  shows "\<exists>h c'. run (static_step open_file) es (new_StaticHandler root, Some c) = Inr (h, Some c')"
proof -
  have "sh_safe Fresh (new_StaticHandler root)" by (simp add: sh_safe_def new_StaticHandler_def)
  then show ?thesis using static_run_safe[of open_file es Fresh _ c] assms by blast
qed

theorem static_safe_without_flow_control_witness:
  "\<exists>h c'. run (static_step (\<lambda>p. if p = ''/srv/a.txt'' then Some ''hello'' else None))
     [Sh_Callback (On_Request (static_get ''/static/a.txt'')), Reader_Step 0 None, Reader_Step 0 (Some 3),
      Sh_Callback On_Error, Reader_Step 0 None, Run_Task, Reader_Step 0 None, Reader_Step 0 None, Run_Task] (new_StaticHandler ''/srv'', Some Map.empty) = Inr (h, Some c')"
  using static_safe_without_flow_control[of "[Sh_Callback (On_Request (static_get ''/static/a.txt'')), Reader_Step 0 None, Reader_Step 0 (Some 3),
      Sh_Callback On_Error, Reader_Step 0 None, Run_Task, Reader_Step 0 None, Reader_Step 0 None, Run_Task]"
      "\<lambda>p. if p = ''/srv/a.txt'' then Some ''hello'' else None" "''/srv''" Map.empty]
  by simp

section \<open>What is streamed and what is cached\<close>

text \<open>A stream in progress: the events after the request, without a failing read.\<close>

fun streams_on :: "'ip static_event \<Rightarrow> bool" where
  "streams_on (Sh_Callback c) = (\<not> is_request c)"
| "streams_on (Reader_Step i rc) = (rc \<noteq> None)"
| "streams_on Run_Task = True"

text \<open>
  Every state of a run has one reader at most.  Two of them can be there at once only when egress
  has been paused and resumed again after the first one returned.
\<close>

fun one_reader ::
  "(path \<Rightarrow> string option) \<Rightarrow> 'ip static_event list \<Rightarrow> static_handler \<times> file_cache option \<Rightarrow> bool" where
  "one_reader open_file [] s \<longleftrightarrow> length (sh_readers (fst s)) \<le> 1"
| "one_reader open_file (e # es) s \<longleftrightarrow>
     length (sh_readers (fst s)) \<le> 1 \<and>
     (case static_step open_file e s of Inl f \<Rightarrow> True | Inr s' \<Rightarrow> one_reader open_file es s')"

lemma sh_safe_readers: "sh_safe ph h \<Longrightarrow> length (sh_readers h) \<le> 1"
  by (auto simp: sh_safe_def reading_def split: if_splits)

text \<open>The chunk or the end of the file that a reader has read and not posted yet.\<close>

fun posting :: "reader \<Rightarrow> evb_task list" where
  "posting (Post t) = [t]"
| "posting _ = []"

definition unsent :: "static_handler \<Rightarrow> evb_task list" where
  "unsent h = filter (\<lambda>t. t \<noteq> Task_Read_Done) (sh_evb h @ concat (map posting (sh_readers h)))"

text \<open>
  \<open>bodies\<close> are sent, \<open>pend\<close> is posted or about to be, the rest of the file is unread; \<open>mark\<close> tells where the
  end of the message is: not yet known, queued, or sent.
\<close>

datatype eom_mark = Eom_Open | Eom_Queued | Eom_Sent

definition stream_inv ::
  "path \<Rightarrow> string \<Rightarrow> string option \<Rightarrow> string list \<Rightarrow> string list \<Rightarrow> eom_mark \<Rightarrow> static_handler \<Rightarrow> file_cache \<Rightarrow> bool" where
  "stream_inv p contents old bodies pend mark h c \<longleftrightarrow>
     p \<noteq> [] \<and> sh_requested_file_path h = p \<and>
     sh_out h = Send 200 ''OK'' [] [] # map Send_Body bodies @ (if mark = Eom_Sent then [Send_EOM] else []) \<and>
     unsent h = map Task_Chunk pend @ (if mark = Eom_Queued then [Task_EOM] else []) \<and>
     (\<forall>t. Reset_File t \<in> set (sh_readers h) \<longrightarrow> t = Task_EOM \<and> sh_file h = Some []) \<and>
     (sh_file h = None \<longleftrightarrow> mark \<noteq> Eom_Open) \<and> (mark = Eom_Sent \<longrightarrow> pend = []) \<and>
     contents = concat bodies @ concat pend @ (case sh_file h of None \<Rightarrow> [] | Some r \<Rightarrow> r) \<and>
     c p = (if bodies = [] then old else Some ((case old of None \<Rightarrow> [] | Some d \<Rightarrow> d) @ concat bodies))"

definition streaming ::
  "path \<Rightarrow> string \<Rightarrow> string option \<Rightarrow> static_handler \<Rightarrow> file_cache \<Rightarrow> bool" where
  "streaming p contents old h c \<longleftrightarrow> (\<exists>bodies pend mark. stream_inv p contents old bodies pend mark h c)"

lemma stream_inv_cong:
  "sh_requested_file_path h' = sh_requested_file_path h \<Longrightarrow> sh_out h' = sh_out h \<Longrightarrow> sh_evb h' = sh_evb h \<Longrightarrow>
   sh_file h' = sh_file h \<Longrightarrow> sh_readers h' = sh_readers h \<or> sh_readers h' = sh_readers h @ [Test_Loop] \<Longrightarrow>
   stream_inv p contents old bodies pend mark h' c = stream_inv p contents old bodies pend mark h c"
  by (auto simp: stream_inv_def unsent_def)

lemma static_callback_frame:
  assumes "static_callback open_file cb cache h = Inr h'" and "\<not> is_request cb"
  shows "sh_requested_file_path h' = sh_requested_file_path h" and "sh_out h' = sh_out h"
    and "sh_evb h' = sh_evb h" and "sh_file h' = sh_file h"
    and "sh_readers h' = sh_readers h \<or> sh_readers h' = sh_readers h @ [Test_Loop]"
  using assms
  by (cases cb; auto simp: static_finish_def check_for_completion_def static_onEgressResumed_def
      static_onEgressPaused_def add_read_file_def Let_def split: if_splits)+

lemma streaming_callback:
  assumes "streaming p contents old h c" and "\<not> is_request cb"
    and "static_step open_file (Sh_Callback cb) (h, Some c) = Inr (h', c')"
  shows "c' = Some c \<and> streaming p contents old h' c"
proof -
  from assms(3) have "static_callback open_file cb (Some c) h = Inr h'" and c: "c' = Some c"
    by (auto simp: res_map_eq_Inr split: if_splits)
  note fr = static_callback_frame[OF this(1) assms(2)]
  show ?thesis using assms(1) c unfolding streaming_def stream_inv_cong[OF fr] by blast
qed

lemma stream_inv_reader:
  assumes "stream_inv p contents old bodies pend mark h c" and "sh_readers h = [pc]"
    and "reader_step (Some k) pc h = Inr (r, h')"
  shows "\<exists>pend' mark'. stream_inv p contents old bodies pend' mark' (set_reader 0 r h') c"
proof (cases pc)
  case Test_Loop
  then have "stream_inv p contents old bodies pend mark (set_reader 0 r h') c"
    using assms by (auto simp: stream_inv_def unsent_def set_reader_def split: if_splits)
  then show ?thesis by blast
next
  case Read_File
  then obtain rest where rest: "sh_file h = Some rest" using assms(3) by (auto split: if_splits option.splits)
  then have mark: "mark = Eom_Open" using assms(1) by (simp add: stream_inv_def)
  show ?thesis
  proof (cases "rest = []")
    case True
    then have "stream_inv p contents old bodies pend mark (set_reader 0 r h') c"
      using assms rest Read_File by (auto simp: stream_inv_def unsent_def set_reader_def split: if_splits)
    then show ?thesis by blast
  next
    case False
    then have "stream_inv p contents old bodies (pend @ [take (min (Suc k) 4000) rest]) mark (set_reader 0 r h') c"
      using assms rest Read_File mark
      by (auto simp: stream_inv_def unsent_def set_reader_def Let_def split: if_splits)
    then show ?thesis by blast
  qed
next
  case (Reset_File t)
  then have t: "t = Task_EOM" "sh_file h = Some []" using assms(1,2) by (auto simp: stream_inv_def)
  then have "mark = Eom_Open" using assms(1) by (simp add: stream_inv_def)
  then have "stream_inv p contents old bodies pend Eom_Queued (set_reader 0 r h') c"
    using assms Reset_File t by (auto simp: stream_inv_def unsent_def set_reader_def split: if_splits)
  then show ?thesis by blast
next
  case (Post t)
  then have "t \<noteq> Task_Read_Done \<Longrightarrow> t \<in> set (unsent h)" using assms(2) by (simp add: unsent_def)
  then have "t \<noteq> Task_Abort" using assms(1) by (auto simp: stream_inv_def split: if_splits)
  then have "stream_inv p contents old bodies pend mark (set_reader 0 r h') c"
    using assms Post by (cases t) (auto simp: stream_inv_def unsent_def set_reader_def split: if_splits)
  then show ?thesis by blast
qed

lemma read_done_frame:
  assumes "run_task Task_Read_Done h cache = Inr (h', cache')"
  shows "cache' = cache" and "sh_requested_file_path h' = sh_requested_file_path h" and "sh_out h' = sh_out h"
    and "sh_evb h' = sh_evb h" and "sh_file h' = sh_file h"
    and "sh_readers h' = sh_readers h \<or> sh_readers h' = sh_readers h @ [Test_Loop]"
  using assms
  by (auto simp: check_for_completion_def static_onEgressResumed_def add_read_file_def Let_def split: if_splits)

lemma stream_inv_task:
  assumes "stream_inv p contents old bodies pend mark h c" and "sh_evb h = t # ts"
    and "run_task t (h\<lparr>sh_evb := ts\<rparr>) (Some c) = Inr (h', c')"
  shows "\<exists>c'' bodies' pend' mark'. c' = Some c'' \<and> stream_inv p contents old bodies' pend' mark' h' c'' \<and>
    (\<forall>q. q \<noteq> p \<longrightarrow> c'' q = c q)"
proof -
  have u: "unsent h = (if t = Task_Read_Done then [] else [t]) @ unsent (h\<lparr>sh_evb := ts\<rparr>)"
    using assms(2) by (simp add: unsent_def)
  show ?thesis
  proof (cases t)
    case Task_Abort
    then have False using assms(1) u by (cases pend) (auto simp: stream_inv_def split: if_splits)
    then show ?thesis ..
  next
    case Task_EOM
    then have "mark = Eom_Queued" "pend = []" "unsent (h\<lparr>sh_evb := ts\<rparr>) = []"
      using assms(1) u by (cases pend; auto simp: stream_inv_def split: if_splits)+
    then have "c' = Some c" "stream_inv p contents old bodies [] Eom_Sent h' c"
      using assms Task_EOM by (auto simp: stream_inv_def sh_send_def unsent_def)
    then show ?thesis by blast
  next
    case (Task_Chunk b)
    then obtain pend' where pend: "pend = b # pend'"
      using assms(1) u by (cases pend) (auto simp: stream_inv_def split: if_splits)
    have "mark \<noteq> Eom_Sent" using assms(1) pend by (auto simp: stream_inv_def)
    moreover have "c' = Some (cache_append_data c p b)" "h' = sh_send (Send_Body b) (h\<lparr>sh_evb := ts\<rparr>)"
      using assms Task_Chunk by (auto simp: stream_inv_def check_that_def)
    moreover have "cache_append_data c p b p = Some ((case c p of None \<Rightarrow> [] | Some d \<Rightarrow> d) @ b)"
      "\<And>q. q \<noteq> p \<Longrightarrow> cache_append_data c p b q = c q"
      using static_cache.get_append[of c p b] static_cache.get_append_other[of _ p c b]
      by (simp_all add: cache_get_def)
    ultimately have "stream_inv p contents old (bodies @ [b]) pend' mark h' (cache_append_data c p b)"
      using assms(1,2) Task_Chunk pend u
      by (auto simp: stream_inv_def sh_send_def unsent_def split: if_splits option.split)
    then show ?thesis
      using \<open>c' = _\<close> \<open>\<And>q. q \<noteq> p \<Longrightarrow> cache_append_data c p b q = c q\<close> by blast
  next
    case Task_Read_Done
    then have c: "c' = Some c" and fr: "sh_requested_file_path h' = p" "sh_out h' = sh_out h" "sh_evb h' = ts"
      "sh_file h' = sh_file h" "sh_readers h' = sh_readers h \<or> sh_readers h' = sh_readers h @ [Test_Loop]"
      using read_done_frame[of "h\<lparr>sh_evb := ts\<rparr>"] assms(1,3) by (simp_all add: stream_inv_def)
    have "stream_inv p contents old bodies pend mark (h\<lparr>sh_evb := ts\<rparr>) c"
      using assms(1) u Task_Read_Done by (simp add: stream_inv_def)
    moreover have "sh_requested_file_path h = p" using assms(1) by (simp add: stream_inv_def)
    ultimately have "stream_inv p contents old bodies pend mark h' c"
      using stream_inv_cong[of h' "h\<lparr>sh_evb := ts\<rparr>"] fr by simp
    then show ?thesis using c by blast
  qed
qed

lemma streaming_step:
  assumes "streaming p contents old h c" and "streams_on e" and "length (sh_readers h) \<le> 1"
    and "static_step open_file e (h, Some c) = Inr (h', c')"
  shows "\<exists>c''. c' = Some c'' \<and> streaming p contents old h' c'' \<and> (\<forall>q. q \<noteq> p \<longrightarrow> c'' q = c q)"
proof (cases e)
  case (Sh_Callback cb)
  then show ?thesis using streaming_callback assms by fastforce
next
  case (Reader_Step i rc)
  then obtain k where k: "rc = Some k" using assms(2) by auto
  show ?thesis
  proof (cases "i < length (sh_readers h)")
    case True
    then obtain pc where pc: "sh_readers h = [pc]" "i = 0" using assms(3) by (cases "sh_readers h") auto
    then obtain r h1 where "reader_step (Some k) pc h = Inr (r, h1)" "h' = set_reader 0 r h1" "c' = Some c"
      using assms(4) Reader_Step k by (auto simp: res_map_eq_Inr)
    then show ?thesis
      using assms(1) stream_inv_reader[OF _ pc(1)] unfolding streaming_def by blast
  next
    case False
    then show ?thesis using assms(1,4) Reader_Step by auto
  qed
next
  case Run_Task
  show ?thesis
  proof (cases "sh_evb h")
    case Nil
    then show ?thesis using assms Run_Task by auto
  next
    case (Cons t ts)
    then have "run_task t (h\<lparr>sh_evb := ts\<rparr>) (Some c) = Inr (h', c')"
      using assms(4) Run_Task by (simp split: if_splits)
    then show ?thesis
      using assms(1) stream_inv_task[OF _ Cons] unfolding streaming_def by blast
  qed
qed

lemma streaming_run:
  "streaming p contents old h c \<Longrightarrow> list_all streams_on es \<Longrightarrow> one_reader open_file es (h, Some c) \<Longrightarrow>
   run (static_step open_file) es (h, Some c) = Inr (h', c') \<Longrightarrow>
   \<exists>c''. c' = Some c'' \<and> streaming p contents old h' c'' \<and> (\<forall>q. q \<noteq> p \<longrightarrow> c'' q = c q)"
proof (induction es arbitrary: h c)
  case (Cons e es)
  then obtain h1 c1 where s: "static_step open_file e (h, Some c) = Inr (h1, c1)"
    "run (static_step open_file) es (h1, c1) = Inr (h', c')"
    by (auto simp: res_bind_eq_Inr)
  obtain c1' where c1: "c1 = Some c1'" "streaming p contents old h1 c1'" "\<forall>q. q \<noteq> p \<longrightarrow> c1' q = c q"
    using streaming_step[OF Cons.prems(1) _ _ s(1)] Cons.prems(2,3) by auto
  then show ?case using Cons.IH[of h1 c1'] Cons.prems(2,3) s by auto
qed auto

lemma streaming_open:
  assumes "p \<noteq> []" and "sh_out h = []" and "sh_evb h = []" and "sh_readers h = []"
  shows "streaming p contents (c p) (static_open p contents h) c"
proof -
  have "stream_inv p contents (c p) [] [] Eom_Open (static_open p contents h) c"
    using assms by (auto simp: stream_inv_def static_open_def sh_send_def add_read_file_def unsent_def)
  then show ?thesis unfolding streaming_def by blast
qed

text \<open>A request that opens its file: the path is acceptable, the file is there and not cached.\<close>

definition opens_file ::
  "(path \<Rightarrow> string option) \<Rightarrow> 'ip http_message \<Rightarrow> file_cache \<Rightarrow> path \<Rightarrow> path \<Rightarrow> string \<Rightarrow> bool" where
  "opens_file open_file req c root p contents \<longleftrightarrow>
     msg_method req = Some GET \<and> validate_static_file_request_path (msg_path req) \<and>
     starts_with (msg_path req) static_files_url_prefix \<and> p = expected_file_path (msg_path req) root \<and>
     open_file [] = None \<and> open_file p = Some contents \<and> c p = None"

lemma opens_file_request:
  assumes "opens_file open_file req c root p contents" and "sh_doc_root h = root"
  shows "static_onRequest open_file req (Some c) h = Inr (static_open p contents h)" and "p \<noteq> []"
  using assms expected_file_path_confined(2)[of "msg_path req" root]
  by (auto simp: opens_file_def static_onRequest_def Let_def cache_exists_def static_open_def)

lemma new_StaticHandler_simps [simp]:
  "sh_alive (new_StaticHandler root)" "sh_doc_root (new_StaticHandler root) = root"
  "sh_out (new_StaticHandler root) = []" "sh_evb (new_StaticHandler root) = []"
  "sh_readers (new_StaticHandler root) = []" "\<not> sh_paused (new_StaticHandler root)"
  "\<not> sh_finished (new_StaticHandler root)" "\<not> sh_read_file_scheduled (new_StaticHandler root)"
  by (simp_all add: new_StaticHandler_def)

lemma opens_file_run:
  assumes "opens_file open_file req c root p contents" and "list_all streams_on es"
    and "one_reader open_file (Sh_Callback (On_Request req) # es) (new_StaticHandler root, Some c)"
    and "run (static_step open_file) (Sh_Callback (On_Request req) # es) (new_StaticHandler root, Some c) = Inr (h, c')"
  shows "\<exists>c''. c' = Some c'' \<and> streaming p contents (c p) h c'' \<and> (\<forall>q. q \<noteq> p \<longrightarrow> c'' q = c q)"
proof -
  have "streaming p contents (c p) (static_open p contents (new_StaticHandler root)) c"
    using opens_file_request(2)[OF assms(1), of "new_StaticHandler root"] by (intro streaming_open) simp_all
  moreover have "run (static_step open_file) es (static_open p contents (new_StaticHandler root), Some c) = Inr (h, c')"
    and "one_reader open_file es (static_open p contents (new_StaticHandler root), Some c)"
    using assms(3,4) opens_file_request(1)[OF assms(1), of "new_StaticHandler root"] by simp_all
  ultimately show ?thesis using streaming_run[OF _ assms(2)] by blast
qed

text \<open>The characters of a response's body and whether the message is complete.\<close>

fun body_of :: "downstream_op list \<Rightarrow> string" where
  "body_of [] = []"
| "body_of (Send st r hs b # ops) = b @ body_of ops"
| "body_of (Send_With_EOM st r hs b # ops) = b @ body_of ops"
| "body_of (Send_Body b # ops) = b @ body_of ops"
| "body_of (op # ops) = body_of ops"

definition message_complete :: "downstream_op list \<Rightarrow> bool" where
  "message_complete ops \<longleftrightarrow> ops \<noteq> [] \<and> (case last ops of Send_EOM \<Rightarrow> True | Send_With_EOM st r hs b \<Rightarrow> True | _ \<Rightarrow> False)"

lemma body_of_append: "body_of (xs @ ys) = body_of xs @ body_of ys"
  by (induction xs rule: body_of.induct) auto

lemma body_of_bodies [simp]: "body_of (map Send_Body bs) = concat bs"
  by (induction bs) auto

lemma streaming_facts:
  assumes "streaming p contents old h c"
  shows "\<exists>rest. contents = body_of (sh_out h) @ rest"
    and "message_complete (sh_out h) \<Longrightarrow> body_of (sh_out h) = contents"
    and "old = None \<Longrightarrow> cache_get_copy c p = body_of (sh_out h)"
    and "body_of (sh_out h) \<noteq> [] \<Longrightarrow> c p = Some ((case old of None \<Rightarrow> [] | Some d \<Rightarrow> d) @ body_of (sh_out h))"
proof -
  obtain bodies pend mark where i: "stream_inv p contents old bodies pend mark h c"
    using assms unfolding streaming_def by blast
  have out: "sh_out h = Send 200 ''OK'' [] [] # map Send_Body bodies @ (if mark = Eom_Sent then [Send_EOM] else [])"
    and fin: "sh_file h = None \<longleftrightarrow> mark \<noteq> Eom_Open" and pend: "mark = Eom_Sent \<longrightarrow> pend = []"
    and con: "contents = concat bodies @ concat pend @ (case sh_file h of None \<Rightarrow> [] | Some r \<Rightarrow> r)"
    and cp: "c p = (if bodies = [] then old else Some ((case old of None \<Rightarrow> [] | Some d \<Rightarrow> d) @ concat bodies))"
    using i unfolding stream_inv_def by blast+
  have b: "body_of (sh_out h) = concat bodies" by (simp add: out body_of_append)
  show "\<exists>rest. contents = body_of (sh_out h) @ rest" using con b by metis
  have "\<not> message_complete (Send 200 ''OK'' [] [] # map Send_Body bodies)"
    by (cases bodies rule: rev_cases) (simp_all add: message_complete_def)
  moreover have "mark \<noteq> Eom_Sent \<Longrightarrow> sh_out h = Send 200 ''OK'' [] [] # map Send_Body bodies"
    using out by simp
  ultimately have "message_complete (sh_out h) \<longrightarrow> mark = Eom_Sent" by metis
  moreover have "mark = Eom_Sent \<longrightarrow> concat bodies = contents" using con fin pend by (cases "sh_file h") auto
  ultimately show "message_complete (sh_out h) \<Longrightarrow> body_of (sh_out h) = contents" using b by simp
  show "old = None \<Longrightarrow> cache_get_copy c p = body_of (sh_out h)"
    by (simp add: cache_get_copy_def cp b)
  show "body_of (sh_out h) \<noteq> [] \<Longrightarrow> c p = Some ((case old of None \<Rightarrow> [] | Some d \<Rightarrow> d) @ body_of (sh_out h))"
    by (auto simp: cp b)
qed

lemma streaming_complete:
  assumes "streaming p contents old h c" and "message_complete (sh_out h)"
  shows "body_of (sh_out h) = contents"
    and "contents \<noteq> [] \<Longrightarrow> c p = Some ((case old of None \<Rightarrow> [] | Some d \<Rightarrow> d) @ contents)"
  using streaming_facts(2,4)[OF assms(1)] assms(2) by simp_all

text \<open>
  C9  A file is streamed as it is: for one handler and a file that is not cached yet, through every
  interleaving of callbacks, closures and steps of the reader in which no read fails and one call of
  \<open>read_file\<close> at most is queued or running at a time (flow control included, as long as it
  keeps to that), what the client has received is a prefix of the file, the message is ended
  only after the whole file, the cache holds exactly what has been sent, and the entries of
  other files do not change.
\<close>

theorem static_streams_file:
  assumes "opens_file open_file req c root p contents" and "list_all streams_on es"
    and "one_reader open_file (Sh_Callback (On_Request req) # es) (new_StaticHandler root, Some c)"
    and "run (static_step open_file) (Sh_Callback (On_Request req) # es) (new_StaticHandler root, Some c) = Inr (h, c')"
  shows "(\<exists>rest. contents = body_of (sh_out h) @ rest) \<and>
    (message_complete (sh_out h) \<longrightarrow> body_of (sh_out h) = contents) \<and>
    (\<exists>c''. c' = Some c'' \<and> cache_get_copy c'' p = body_of (sh_out h) \<and> (\<forall>q. q \<noteq> p \<longrightarrow> c'' q = c q))"
proof -
  obtain c'' where c': "c' = Some c''" "streaming p contents (c p) h c''" "\<forall>q. q \<noteq> p \<longrightarrow> c'' q = c q"
    using opens_file_run[OF assms] by blast
  have none: "c p = None" using assms(1) unfolding opens_file_def by blast
  show ?thesis using streaming_facts(1-3)[OF c'(2)] none c'(1,3) by blast
qed

definition sample_files :: "path \<Rightarrow> string option" where
  "sample_files p = (if p = ''/srv/a.txt'' then Some ''hello'' else None)"

lemma sample_opens: "opens_file sample_files (static_get ''/static/a.txt'') Map.empty ''/srv'' ''/srv/a.txt'' ''hello''"
proof -
  have "validate_static_file_request_path ''/static/a.txt''" "starts_with ''/static/a.txt'' static_files_url_prefix"
    "expected_file_path ''/static/a.txt'' ''/srv'' = ''/srv/a.txt''"
    by code_simp+
  then show ?thesis by (simp add: opens_file_def static_get_def sample_files_def)
qed

lemma sample_request:
  "static_onRequest sample_files (static_get ''/static/a.txt'') (Some Map.empty) (new_StaticHandler ''/srv'') =
     Inr (static_open ''/srv/a.txt'' ''hello'' (new_StaticHandler ''/srv''))"
  by (rule opens_file_request(1)[OF sample_opens]) simp

lemmas static_eval = static_open_def sh_send_def add_read_file_def set_reader_def
  check_that_def check_for_completion_def static_onEgressResumed_def static_onEgressPaused_def static_finish_def
  Let_def

text \<open>A chunk takes the reader three steps: the test, the read and the posting.\<close>

definition sample_events :: "nat static_event list" where
  "sample_events =
     [Reader_Step 0 (Some 0), Reader_Step 0 (Some 2), Reader_Step 0 (Some 0), Run_Task, Reader_Step 0 (Some 0),
      Reader_Step 0 (Some 2), Reader_Step 0 (Some 0), Reader_Step 0 (Some 0), Reader_Step 0 (Some 2), Run_Task,
      Reader_Step 0 (Some 0), Reader_Step 0 (Some 0), Run_Task]"

lemma sample_run:
  "\<exists>h c'. run (static_step sample_files) (Sh_Callback (On_Request (static_get ''/static/a.txt'')) # sample_events)
      (new_StaticHandler ''/srv'', Some Map.empty) = Inr (h, c') \<and>
    sh_out h = [Send 200 ''OK'' [] '''', Send_Body ''hel'', Send_Body ''lo'', Send_EOM]"
  by (simp add: sample_request sample_events_def static_eval)

lemma sample_one_reader:
  "one_reader sample_files (Sh_Callback (On_Request (static_get ''/static/a.txt'')) # sample_events)
     (new_StaticHandler ''/srv'', Some Map.empty)"
  by (simp add: sample_request sample_events_def static_eval)

theorem static_streams_file_witness:
  "\<exists>h c'. run (static_step sample_files) (Sh_Callback (On_Request (static_get ''/static/a.txt'')) # sample_events)
      (new_StaticHandler ''/srv'', Some Map.empty) = Inr (h, Some c') \<and>
    body_of (sh_out h) = ''hello'' \<and> cache_get_copy c' ''/srv/a.txt'' = ''hello''"
proof -
  obtain h c' where r: "run (static_step sample_files)
      (Sh_Callback (On_Request (static_get ''/static/a.txt'')) # sample_events)
      (new_StaticHandler ''/srv'', Some Map.empty) = Inr (h, c')"
    and o: "sh_out h = [Send 200 ''OK'' [] '''', Send_Body ''hel'', Send_Body ''lo'', Send_EOM]"
    using sample_run by blast
  have "list_all streams_on sample_events" by (simp add: sample_events_def)
  from static_streams_file[OF sample_opens this sample_one_reader r] o r show ?thesis
    by (auto simp: message_complete_def)
qed

text \<open>
  Without flow control there is one reader at most, whatever else happens, so that the property above
  holds of every such run.
\<close>

lemma one_reader_without_flow_control:
  assumes "open_file '''' = None"
  shows "follows_protocol static_callback_of es ph \<Longrightarrow> \<not> list_ex is_flow_control es \<Longrightarrow> sh_safe ph h \<Longrightarrow>
    one_reader open_file es (h, Some c)"
proof (induction es arbitrary: ph h c)
  case Nil
  then show ?case using sh_safe_readers[of ph h] by simp
next
  case (Cons e es)
  obtain h' c' ph' where n: "static_step open_file e (h, Some c) = Inr (h', Some c')" "sh_safe ph' h'"
    "follows_protocol static_callback_of es ph'"
    using sh_safe_step[of e es ph h open_file c] Cons.prems assms by auto
  have "\<not> list_ex is_flow_control es" using Cons.prems(2) by simp
  from Cons.IH[OF n(3) this n(2), of c'] n(1) show ?case using sh_safe_readers[OF Cons.prems(3)] by simp
qed

subsection \<open>The stream ends\<close>

text \<open>Nothing ends the handler or disturbs it: no request, no flow control, no failing read.\<close>

fun quiet :: "'ip static_event \<Rightarrow> bool" where
  "quiet (Sh_Callback c) \<longleftrightarrow> next_phase c Serving = Some Serving \<and> \<not> is_flow_control (Sh_Callback c)"
| "quiet (Reader_Step i rc) \<longleftrightarrow> rc \<noteq> None"
| "quiet Run_Task \<longleftrightarrow> True"

text \<open>A stretch of a run in which the reader and the event base are both scheduled.\<close>

fun steps_reader :: "'ip static_event \<Rightarrow> bool" where
  "steps_reader (Reader_Step i rc) \<longleftrightarrow> i = 0"
| "steps_reader _ \<longleftrightarrow> False"

fun runs_task :: "'ip static_event \<Rightarrow> bool" where
  "runs_task Run_Task \<longleftrightarrow> True"
| "runs_task _ \<longleftrightarrow> False"

definition fair_round :: "'ip static_event list \<Rightarrow> bool" where
  "fair_round es \<longleftrightarrow> list_all quiet es \<and> list_ex steps_reader es \<and> list_ex runs_task es"

text \<open>How many steps of the reader and of the event base are left at most.\<close>

fun reader_work :: "string option \<Rightarrow> reader \<Rightarrow> nat" where
  "reader_work file_left Test_Loop = (case file_left of None \<Rightarrow> 3 | Some rest \<Rightarrow> 4 * length rest + 8)"
| "reader_work file_left Read_File = (case file_left of None \<Rightarrow> 1 | Some rest \<Rightarrow> 4 * length rest + 7)"
| "reader_work file_left (Reset_File t) = 6"
| "reader_work file_left (Post t) =
     (if t = Task_Read_Done then 2 else case file_left of None \<Rightarrow> 5 | Some rest \<Rightarrow> 4 * length rest + 10)"

definition stream_work :: "static_handler \<Rightarrow> nat" where
  "stream_work h = sum_list (map (reader_work (sh_file h)) (sh_readers h)) + length (sh_evb h)"

lemma reader_work_pos [simp]: "0 < reader_work f pc"
  by (cases "(f, pc)" rule: reader_work.cases) (auto split: option.split)

lemma stream_work_0: "stream_work h = 0 \<longleftrightarrow> sh_readers h = [] \<and> sh_evb h = []"
proof (cases "sh_readers h")
  case (Cons pc pcs)
  have "0 < reader_work (sh_file h) pc" by simp
  then show ?thesis using Cons by (simp add: stream_work_def)
qed (simp add: stream_work_def)

lemma reader_step_work:
  "reader_step rc pc h = Inr (r, h') \<Longrightarrow>
   (case r of None \<Rightarrow> 0 | Some pc' \<Rightarrow> reader_work (sh_file h') pc') + length (sh_evb h') <
   reader_work (sh_file h) pc + length (sh_evb h)"
proof (cases pc)
  case (Reset_File t)
  assume "reader_step rc pc h = Inr (r, h')"
  then show ?thesis using Reset_File by (cases t) (auto split: if_splits)
next
  case (Post t)
  assume "reader_step rc pc h = Inr (r, h')"
  then show ?thesis using Post by (cases t) (auto split: option.split)
next
  case Read_File
  assume r: "reader_step rc pc h = Inr (r, h')"
  then obtain rest where rest: "sh_file h = Some rest" using Read_File by (auto split: if_splits option.splits)
  have "4 * (length rest - Suc n) + 4 \<le> 4 * length rest" if "rest \<noteq> []" for n
    using that by (cases rest) auto
  then have "3 + 4 * (length rest - Suc n) < 4 * length rest" if "rest \<noteq> []" for n
    using that by fastforce
  then show ?thesis
    using r rest Read_File by (auto simp: Let_def split: if_splits option.splits)
qed (auto split: if_splits option.splits)

lemma quiet_step:
  assumes "sh_safe Serving h" and "quiet e" and "static_step open_file e (h, Some c) = Inr (h', c')"
  shows "stream_work h' \<le> stream_work h"
    and "stream_work h' = stream_work h \<Longrightarrow>
      sh_readers h' = sh_readers h \<and> sh_evb h' = sh_evb h \<and>
      (steps_reader e \<longrightarrow> sh_readers h = []) \<and> (runs_task e \<longrightarrow> sh_evb h = [])"
proof -
  have "stream_work h' \<le> stream_work h \<and> (stream_work h' = stream_work h \<longrightarrow>
      sh_readers h' = sh_readers h \<and> sh_evb h' = sh_evb h \<and>
      (steps_reader e \<longrightarrow> sh_readers h = []) \<and> (runs_task e \<longrightarrow> sh_evb h = []))"
  proof (cases e)
    case (Sh_Callback cb)
    then show ?thesis using assms by (cases cb) (auto split: if_splits)
  next
    case (Reader_Step i rc)
    show ?thesis
    proof (cases "i < length (sh_readers h)")
      case True
      then obtain pc where pc: "sh_readers h = [pc]" "i = 0"
        using sh_safe_readers[OF assms(1)] by (cases "sh_readers h") auto
      then obtain r h1 where s: "reader_step rc pc h = Inr (r, h1)" "h' = set_reader 0 r h1"
        using assms(3) Reader_Step by (auto simp: res_map_eq_Inr)
      have "stream_work h' < stream_work h"
        using reader_step_work[OF s(1)] reader_step_frame[OF s(1)] pc(1) s(2)
        by (auto simp: stream_work_def set_reader_def split: option.splits)
      then show ?thesis by simp
    next
      case False
      then show ?thesis using assms(3) Reader_Step by auto
    qed
  next
    case Run_Task
    show ?thesis
    proof (cases "sh_evb h")
      case Nil
      then show ?thesis using assms(3) Run_Task by simp
    next
      case (Cons t ts)
      then have "run_task t (h\<lparr>sh_evb := ts\<rparr>) (Some c) = Inr (h', c')"
        using assms(3) Run_Task by (simp split: if_splits)
      moreover have "t = Task_Read_Done \<Longrightarrow> sh_file h = None"
        using assms(1) Cons by (auto simp: sh_safe_def reading_def split: if_splits)
      ultimately have "sh_readers h' = sh_readers h" "sh_file h' = sh_file h" "sh_evb h' = ts"
        by (cases t; auto simp: check_that_def check_for_completion_def static_onEgressResumed_def sh_send_def Let_def
            split: if_splits)+
      then have "stream_work h' < stream_work h" using Cons by (simp add: stream_work_def)
      then show ?thesis by simp
    qed
  qed
  then show "stream_work h' \<le> stream_work h"
    and "stream_work h' = stream_work h \<Longrightarrow>
      sh_readers h' = sh_readers h \<and> sh_evb h' = sh_evb h \<and>
      (steps_reader e \<longrightarrow> sh_readers h = []) \<and> (runs_task e \<longrightarrow> sh_evb h = [])" by blast+
qed

lemma quiet_follows:
  "list_all quiet es \<Longrightarrow>
   follows_protocol static_callback_of es Serving \<and> \<not> list_ex is_flow_control es \<and> list_all streams_on es"
proof (induction es)
  case (Cons e es)
  then show ?case
  proof (cases e)
    case (Sh_Callback cb)
    then show ?thesis using Cons by (cases cb) auto
  qed auto
qed simp

lemma quiet_safe_step:
  assumes "sh_safe Serving h" and "quiet e" and "open_file '''' = None"
  shows "\<exists>h' c'. static_step open_file e (h, Some c) = Inr (h', Some c') \<and> sh_safe Serving h'"
proof (cases e)
  case (Sh_Callback cb)
  then show ?thesis using sh_safe_callback[of Serving h cb Serving open_file c] assms by (auto simp del: static_step.simps)
next
  case (Reader_Step i rc)
  then show ?thesis using sh_safe_reader[OF assms(1), of open_file i rc c] by blast
next
  case Run_Task
  then show ?thesis using sh_safe_task[OF assms(1), of open_file c] by blast
qed

lemma quiet_run:
  assumes "open_file '''' = None"
  shows "list_all quiet es \<Longrightarrow> sh_safe Serving h \<Longrightarrow>
    \<exists>h' c'. run (static_step open_file) es (h, Some c) = Inr (h', Some c') \<and> sh_safe Serving h' \<and>
      stream_work h' \<le> stream_work h \<and>
      (stream_work h' = stream_work h \<longrightarrow>
        (list_ex steps_reader es \<longrightarrow> sh_readers h = []) \<and> (list_ex runs_task es \<longrightarrow> sh_evb h = []))"
proof (induction es arbitrary: h c)
  case (Cons e es)
  then have q: "quiet e" "list_all quiet es" by simp_all
  obtain h1 c1 where s: "static_step open_file e (h, Some c) = Inr (h1, Some c1)" "sh_safe Serving h1"
    using quiet_safe_step[of h e open_file c] Cons.prems(2) q(1) assms by blast
  note w = quiet_step[OF Cons.prems(2) q(1) s(1)]
  obtain h' c' where r: "run (static_step open_file) es (h1, Some c1) = Inr (h', Some c')" "sh_safe Serving h'"
    "stream_work h' \<le> stream_work h1"
    "stream_work h' = stream_work h1 \<longrightarrow>
      (list_ex steps_reader es \<longrightarrow> sh_readers h1 = []) \<and> (list_ex runs_task es \<longrightarrow> sh_evb h1 = [])"
    using Cons.IH[OF q(2) s(2), of c1] by blast
  have "run (static_step open_file) (e # es) (h, Some c) = Inr (h', Some c')" using s(1) r(1) by simp
  moreover have "stream_work h' = stream_work h \<longrightarrow> stream_work h' = stream_work h1 \<and> stream_work h1 = stream_work h"
    using w(1) r(3) by simp
  ultimately show ?case using w r(2-4) by auto
qed simp

lemma fair_rounds:
  assumes "open_file '''' = None"
  shows "list_all fair_round rounds \<Longrightarrow> sh_safe Serving h \<Longrightarrow> stream_work h \<le> length rounds \<Longrightarrow>
    \<exists>h' c'. run (static_step open_file) (concat rounds) (h, Some c) = Inr (h', Some c') \<and> sh_safe Serving h' \<and>
      stream_work h' = 0"
proof (induction rounds arbitrary: h c)
  case (Cons es rounds)
  then have f: "list_all quiet es" "list_ex steps_reader es" "list_ex runs_task es" "list_all fair_round rounds"
    using Cons.prems(1) by (simp_all add: fair_round_def[of es])
  obtain h1 c1 where r: "run (static_step open_file) es (h, Some c) = Inr (h1, Some c1)" "sh_safe Serving h1"
    "stream_work h1 \<le> stream_work h"
    "stream_work h1 = stream_work h \<longrightarrow> sh_readers h = [] \<and> sh_evb h = []"
    using quiet_run[of open_file es h c, OF assms f(1) Cons.prems(2)] f(2,3) by blast
  have "stream_work h1 = stream_work h \<longrightarrow> stream_work h = 0" using r(4) by (auto simp: stream_work_def)
  then have "stream_work h1 \<le> length rounds" using r(3) Cons.prems(3) by auto
  from Cons.IH[OF f(4) r(2) this, of c1] r(1) show ?case by (auto simp: run_append)
qed auto

lemma streaming_done:
  assumes "streaming p contents old h c" and "sh_file h = None" and "sh_readers h = []" and "sh_evb h = []"
  shows "message_complete (sh_out h)"
proof -
  obtain bodies pend mark where i: "stream_inv p contents old bodies pend mark h c"
    using assms(1) unfolding streaming_def by blast
  then have "mark = Eom_Sent" using assms(2-4) by (cases mark) (simp_all add: stream_inv_def unsent_def)
  then show ?thesis using i by (simp add: stream_inv_def message_complete_def)
qed

text \<open>
  C29  The stream ends: in every interleaving of steps of the reader, closures of the event base
  and callbacks (without flow control, without a failing read, and while the client stays) that
  can be cut into stretches in each of which the reader and the event base are both scheduled
  once, four stretches per character and eight more are enough for the message to be complete, and
  the client then has the whole file.
\<close>

theorem static_stream_completes:
  fixes req :: "'ip http_message"
  assumes "opens_file open_file req c root p contents"
    and "list_all fair_round rounds" and "4 * length contents + 8 \<le> length rounds"
  shows "\<exists>h c'. run (static_step open_file) (Sh_Callback (On_Request req) # concat rounds)
      (new_StaticHandler root, Some c) = Inr (h, Some c') \<and>
    message_complete (sh_out h) \<and> body_of (sh_out h) = contents"
proof -
  let ?step = "static_step open_file :: 'ip static_event \<Rightarrow> _" and ?es = "Sh_Callback (On_Request req) # concat rounds"
  let ?h0 = "static_open p contents (new_StaticHandler root)"
  have none: "open_file '''' = None" using assms(1) by (simp add: opens_file_def)
  have fresh: "sh_safe Fresh (new_StaticHandler root)" by (simp add: sh_safe_def new_StaticHandler_def)
  have s0: "static_onRequest open_file req (Some c) (new_StaticHandler root) = Inr ?h0"
    using opens_file_request(1)[OF assms(1), of "new_StaticHandler root"] by simp
  have safe: "sh_safe Serving ?h0"
    using sh_safe_request[of "new_StaticHandler root" open_file req c] fresh none s0 by simp
  have work: "stream_work ?h0 \<le> length rounds"
    using assms(3) by (simp add: stream_work_def static_open_def sh_send_def add_read_file_def)
  obtain h c' where r: "run ?step (concat rounds) (?h0, Some c) = Inr (h, Some c')" "sh_safe Serving h" "stream_work h = 0"
    using fair_rounds[of open_file, OF none assms(2) safe work, of c] by blast
  have run0: "run ?step ?es (new_StaticHandler root, Some c) = Inr (h, Some c')" using s0 r(1) by simp
  have "list_all quiet (concat rounds)" using assms(2) by (induction rounds) (simp_all add: fair_round_def)
  note q = quiet_follows[OF this]
  have "one_reader open_file ?es (new_StaticHandler root, Some c)"
    using one_reader_without_flow_control[of open_file ?es Fresh "new_StaticHandler root" c] none fresh q by simp
  then have st: "streaming p contents (c p) h c'"
    using opens_file_run[OF assms(1) _ _ run0] q by auto
  have idle: "sh_readers h = []" "sh_evb h = []"
    using r(3) stream_work_0[of h] by simp_all
  then have "sh_file h = None" using r(2) unfolding sh_safe_def by (metis phase.distinct(5))
  then have "message_complete (sh_out h)" using streaming_done[OF st] idle by blast
  then show ?thesis using run0 streaming_facts(2)[OF st] by blast
qed

theorem static_stream_completes_witness:
  "\<exists>h c'. run (static_step sample_files)
      (Sh_Callback (On_Request (static_get ''/static/a.txt'')) #
       concat (replicate 28 [Run_Task, Sh_Callback On_EOM, Reader_Step 0 (Some 1)]))
      (new_StaticHandler ''/srv'', Some Map.empty) = Inr (h, Some c') \<and>
    message_complete (sh_out h) \<and> body_of (sh_out h) = ''hello''"
proof -
  have "list_all fair_round (replicate 28 [Run_Task, Sh_Callback On_EOM, Reader_Step 0 (Some 1)])"
    by (simp add: fair_round_def list_all_iff)
  then show ?thesis by (rule static_stream_completes[OF sample_opens]) simp
qed

subsection \<open>What goes wrong\<close>

text \<open>
  With flow control the handler can be used after it has been deleted: \<open>onEgressResumed\<close>
  queues the reader again but leaves \<open>read_file_scheduled_\<close> false, so that the end of the
  request deletes the handler under the reader.  The events follow proxygen's protocol.
\<close>

theorem static_resume_use_after_free:
  assumes "opens_file open_file req c root p contents" and "ends_handler e"
  shows "let es = [Sh_Callback (On_Request req), Sh_Callback On_Egress_Paused, Reader_Step 0 rc,
                   Reader_Step 0 rc, Run_Task, Sh_Callback On_Egress_Resumed, Sh_Callback e, Reader_Step 0 rc']
         in follows_protocol static_callback_of es Fresh \<and>
            run (static_step open_file) es (new_StaticHandler root, Some c) = Inl Undefined"
proof -
  have r: "static_onRequest open_file req (Some c) (new_StaticHandler root) =
      Inr (static_open p contents (new_StaticHandler root))"
    by (rule opens_file_request(1)[OF assms(1)]) simp
  show ?thesis
    using assms(2) by (cases e) (simp_all add: r static_eval)
qed

theorem static_resume_use_after_free_witness:
  "run (static_step sample_files)
     [Sh_Callback (On_Request (static_get ''/static/a.txt'')), Sh_Callback On_Egress_Paused, Reader_Step 0 None,
      Reader_Step 0 None, Run_Task, Sh_Callback On_Egress_Resumed, Sh_Callback On_Error, Reader_Step 0 None]
     (new_StaticHandler ''/srv'', Some Map.empty) = Inl Undefined"
  using static_resume_use_after_free[OF sample_opens, of On_Error None None] by (simp only: Let_def ends_handler.simps)

text \<open>
  The steps that lead to two readers: the first one ends while egress is paused, and every
  \<open>onEgressResumed\<close> then queues another one.  In the schedule the second reader posts
  its chunk before the first one does.
\<close>

definition race_events :: "'ip http_message \<Rightarrow> nat \<Rightarrow> nat \<Rightarrow> 'ip static_event list" where
  "race_events req k k' =
     [Sh_Callback (On_Request req), Sh_Callback On_Egress_Paused, Reader_Step 0 None, Reader_Step 0 None, Run_Task,
      Sh_Callback On_Egress_Resumed, Sh_Callback On_Egress_Paused, Sh_Callback On_Egress_Resumed,
      Reader_Step 0 None, Reader_Step 1 None, Reader_Step 0 (Some k), Reader_Step 1 (Some k'),
      Reader_Step 1 None, Reader_Step 0 None, Run_Task, Run_Task,
      Reader_Step 0 None, Reader_Step 0 (Some 0), Reader_Step 0 None, Reader_Step 0 None, Run_Task]"

text \<open>
  C19  Two readers scramble a file: when proxygen, within its protocol, pauses egress, resumes it, pauses and
  resumes it again, two calls of \<open>read_file\<close> run at once, and there is a schedule in which a
  client gets the second block of the file before the first one, as a complete message, and
  in which the cache holds the blocks in that order, so that every later request for the file
  is answered with the scrambled contents.
\<close>

theorem static_reader_race:
  assumes "opens_file open_file req c root p (block1 @ block2)"
    and "length block1 = Suc k" and "length block2 = Suc k'" and "Suc k \<le> 4000" and "Suc k' \<le> 4000"
  shows "follows_protocol static_callback_of (race_events req k k') Fresh \<and>
    (\<exists>h c'. run (static_step open_file) (race_events req k k') (new_StaticHandler root, Some c) = Inr (h, Some c') \<and>
       message_complete (sh_out h) \<and> body_of (sh_out h) = block2 @ block1 \<and>
       static_onRequest open_file req (Some c') (new_StaticHandler root) =
         Inr (sh_send (Send_With_EOM 200 ''OK'' [] (block2 @ block1)) (new_StaticHandler root)))"
proof -
  have r: "static_onRequest open_file req (Some c) (new_StaticHandler root) =
      Inr (static_open p (block1 @ block2) (new_StaticHandler root))"
    and p: "p \<noteq> []"
    using opens_file_request[OF assms(1), of "new_StaticHandler root"] by simp_all
  have n: "min k 3999 = k" "min k' 3999 = k'" using assms(4,5) by simp_all
  have ne: "block1 \<noteq> []" "block2 \<noteq> []" using assms(2,3) by auto
  have tk: "take (Suc k) (block1 @ block2) = block1" "drop (Suc k) (block1 @ block2) = block2"
    "take (Suc k') block2 = block2" "drop (Suc k') block2 = []"
    using assms(2,3) by simp_all
  have none: "c p = None" using assms(1) unfolding opens_file_def by blast
  have "\<exists>h. run (static_step open_file) (race_events req k k') (new_StaticHandler root, Some c) =
      Inr (h, Some (c(p \<mapsto> block2 @ block1))) \<and>
      sh_out h = [Send 200 ''OK'' [] [], Send_Body block2, Send_Body block1, Send_EOM]"
    using p none ne
    by (simp add: r static_eval race_events_def n tk cache_append_data_def del: take_append drop_append)
  moreover have "static_onRequest open_file req (Some (c(p \<mapsto> block2 @ block1))) (new_StaticHandler root) =
      Inr (sh_send (Send_With_EOM 200 ''OK'' [] (block2 @ block1)) (new_StaticHandler root))"
    using assms(1) expected_file_path_confined(2)[of "msg_path req" root]
    by (simp add: opens_file_def static_onRequest_def Let_def cache_exists_def cache_get_def)
  moreover have "follows_protocol static_callback_of (race_events req k k') Fresh"
    by (simp add: race_events_def)
  ultimately show ?thesis by (auto simp: message_complete_def)
qed

theorem static_reader_race_witness:
  "\<exists>c'. static_onRequest sample_files (static_get ''/static/a.txt'') (Some c') (new_StaticHandler ''/srv'') =
     Inr (sh_send (Send_With_EOM 200 ''OK'' [] ''llohe'') (new_StaticHandler ''/srv''))"
  using static_reader_race[of sample_files "static_get ''/static/a.txt''" Map.empty "''/srv''" "''/srv/a.txt''"
      "''he''" "''llo''" 1 2] sample_opens by auto

text \<open>
  A file that is still being streamed is already in the cache: a request that arrives after
  the first closure of another stream is answered with what that stream has sent so far, as a
  complete message.
\<close>

theorem static_partial_file_served:
  assumes "opens_file open_file req c root p contents" and "contents \<noteq> ''''"
    and "opens_file open_file req' c root p contents"
  shows "\<exists>h c'. run (static_step open_file)
             [Sh_Callback (On_Request req), Reader_Step 0 None, Reader_Step 0 (Some k), Reader_Step 0 None, Run_Task]
             (new_StaticHandler root, Some c) = Inr (h, Some c') \<and>
           static_onRequest open_file req' (Some c') (new_StaticHandler root) =
             Inr (sh_send (Send_With_EOM 200 ''OK'' [] (take (min (Suc k) 4000) contents)) (new_StaticHandler root))"
proof -
  have r: "static_onRequest open_file req (Some c) (new_StaticHandler root) =
      Inr (static_open p contents (new_StaticHandler root))"
    and p: "p \<noteq> []"
    using opens_file_request[OF assms(1), of "new_StaticHandler root"] by simp_all
  define chunk where "chunk = take (min (Suc k) 4000) contents"
  have none: "c p = None" using assms(1) unfolding opens_file_def by blast
  have "\<exists>h. run (static_step open_file) [Sh_Callback (On_Request req), Reader_Step 0 None, Reader_Step 0 (Some k), Reader_Step 0 None, Run_Task]
      (new_StaticHandler root, Some c) = Inr (h, Some (c(p \<mapsto> chunk)))"
    using p none assms(2)
    by (simp add: r static_eval cache_append_data_def chunk_def)
  moreover have "static_onRequest open_file req' (Some (c(p \<mapsto> chunk))) (new_StaticHandler root) =
      Inr (sh_send (Send_With_EOM 200 ''OK'' [] chunk) (new_StaticHandler root))"
    using assms(3) expected_file_path_confined(2)[of "msg_path req'" root]
    by (simp add: opens_file_def static_onRequest_def Let_def cache_exists_def cache_get_def)
  ultimately show ?thesis unfolding chunk_def by blast
qed

theorem static_partial_file_served_witness:
  "\<exists>c'. static_onRequest sample_files (static_get ''/static/a.txt'') (Some c') (new_StaticHandler ''/srv'') =
     Inr (sh_send (Send_With_EOM 200 ''OK'' [] ''he'') (new_StaticHandler ''/srv''))"
  using static_partial_file_served[OF sample_opens _ sample_opens, of 1] by auto

text \<open>
  Two requests for a file that is not cached yet both append it: when both have opened the
  file before either has stored anything, and both streams then complete, one after the other and each with one reader,
  the cache holds the file twice, and every later request is served the doubled contents.
\<close>

theorem static_cache_doubled:
  assumes "opens_file open_file req c root p contents"
    and "static_onRequest open_file req (Some c) (new_StaticHandler root) = Inr h1"
    and "static_onRequest open_file req (Some c) (new_StaticHandler root) = Inr h2"
    and "list_all streams_on es1" and "one_reader open_file es1 (h1, Some c)"
    and "run (static_step open_file) es1 (h1, Some c) = Inr (h1', Some c1)"
    and "list_all streams_on es2" and "one_reader open_file es2 (h2, Some c1)"
    and "run (static_step open_file) es2 (h2, Some c1) = Inr (h2', Some c2)"
    and "message_complete (sh_out h1')" and "message_complete (sh_out h2')" and "contents \<noteq> ''''"
  shows "body_of (sh_out h1') = contents \<and> body_of (sh_out h2') = contents \<and>
    static_onRequest open_file req (Some c2) (new_StaticHandler root) =
      Inr (sh_send (Send_With_EOM 200 ''OK'' [] (contents @ contents)) (new_StaticHandler root))"
proof -
  note new = new_StaticHandler_simps[of root]
  have h: "h1 = static_open p contents (new_StaticHandler root)" "h2 = static_open p contents (new_StaticHandler root)"
    using assms(2,3) opens_file_request(1)[OF assms(1) new(2)] by simp_all
  have p: "p \<noteq> []" by (rule opens_file_request(2)[OF assms(1) new(2)])
  have none: "c p = None" using assms(1) unfolding opens_file_def by blast
  have "streaming p contents (c p) h1' c1"
    using streaming_run[OF _ assms(4-6)] streaming_open[OF p new(3-5), of contents c] h(1) by blast
  from streaming_complete[OF this assms(10)] have 1: "body_of (sh_out h1') = contents" "c1 p = Some contents"
    using assms(12) none by simp_all
  have "streaming p contents (c1 p) h2' c2"
    using streaming_run[OF _ assms(7-9)] streaming_open[OF p new(3-5), of contents c1] h(2) by blast
  from streaming_complete[OF this assms(11)] have 2: "body_of (sh_out h2') = contents" "c2 p = Some (contents @ contents)"
    using assms(12) 1 by simp_all
  have "static_onRequest open_file req (Some c2) (new_StaticHandler root) =
      Inr (sh_send (Send_With_EOM 200 ''OK'' [] (contents @ contents)) (new_StaticHandler root))"
    using assms(1) 2(2) expected_file_path_confined(2)[of "msg_path req" root]
    by (simp add: opens_file_def static_onRequest_def Let_def cache_exists_def cache_get_def)
  with 1 2 show ?thesis by blast
qed

theorem static_cache_doubled_witness:
  "\<exists>c2. static_onRequest sample_files (static_get ''/static/a.txt'') (Some c2) (new_StaticHandler ''/srv'') =
     Inr (sh_send (Send_With_EOM 200 ''OK'' [] ''hellohello'') (new_StaticHandler ''/srv''))"
proof -
  let ?h = "static_open ''/srv/a.txt'' ''hello'' (new_StaticHandler ''/srv'')"
  have s: "\<exists>h' c'. run (static_step sample_files) sample_events (?h, Some c) = Inr (h', Some c') \<and>
      message_complete (sh_out h')" for c
    by (simp add: sample_events_def static_eval message_complete_def)
  obtain h1' c1 where 1: "run (static_step sample_files) sample_events (?h, Some Map.empty) = Inr (h1', Some c1)"
    "message_complete (sh_out h1')" using s by blast
  obtain h2' c2 where 2: "run (static_step sample_files) sample_events (?h, Some c1) = Inr (h2', Some c2)"
    "message_complete (sh_out h2')" using s by blast
  have e: "list_all streams_on sample_events" by (simp add: sample_events_def)
  have o: "one_reader sample_files sample_events (?h, Some c)" for c
    by (simp add: sample_events_def static_eval)
  from static_cache_doubled[OF sample_opens sample_request sample_request e o 1(1) e o 2(1) 1(2) 2(2)]
  show ?thesis by auto
qed

end
