(* ===== verification/Shorten.thy ===== *)
theory Shorten
  imports Url_Shortening Url_Database Hash_Vectors
begin

text \<open>
  \<open>MakeUrlRequestHandler::do_shorten_url\<close> of \<^verbatim>\<open>url_shortener/make_url_request_handler.cc\<close>: the
  search for a slug that is free or already belongs to the URL, and its insertion.  The
  operations are written over the store's \<open>get\<close> and \<open>put\<close>; the handler passes \<open>db_get\<close> and
  \<open>db_put\<close>.
\<close>

section \<open>Definitions\<close>

text \<open>How the search ends: by \<open>break\<close>, or by a \<open>return\<close> from the function.\<close>

datatype loop_exit = Break_With string | Return_With string

text \<open>The measure of the search: the number of tries left.\<close>

lemma try_measure:
  assumes "(n :: u8) < 100" shows "100 - unat (n + 1) < 100 - unat n"
proof -
  have "unat n < 100" using assms by (simp add: word_less_nat_alt)
  moreover from this have "unat (n + 1) = unat n + 1" by (simp add: unat_word_ariths)
  ultimately show ?thesis by simp
qed

lemma next_try_nonzero: "(n :: u8) < 100 \<Longrightarrow> n + 1 \<noteq> 0"
  using try_measure[of n] by (cases "n + 1 = 0") (simp_all add: word_less_nat_alt)

text \<open>
  \<open>while (nth_try++ < max_tries)\<close> with \<open>max_tries = 100\<close>: \<open>nth_try\<close> is the value that is
  compared, the body sees it incremented.  \<open>slug\<close> is \<open>generated_short_url\<close>.
\<close>

function shorten_loop ::
    "('r \<Rightarrow> string \<Rightarrow> (UrlShorteningDbError + string) \<times> 'r) \<Rightarrow> UrlShorteningConfig \<Rightarrow> string \<Rightarrow>
     u8 \<Rightarrow> string \<Rightarrow> 'r \<Rightarrow> loop_exit res \<times> 'r" where
  "shorten_loop sget cfg long_url nth_try slug st =
     (if nth_try < 100 then
        (case generate_slug cfg slug long_url (nth_try + 1) of
           Inl f \<Rightarrow> (Inl f, st)
         | Inr None \<Rightarrow> (Inr (Return_With []), st)
         | Inr (Some slug') \<Rightarrow>
             (case sget st slug' of (got, st') \<Rightarrow>
                (case got of
                   Inl err \<Rightarrow>
                     (if err = NotFound then (Inr (Break_With slug'), st')
                      else (Inr (Return_With []), st'))
                 | Inr got_str \<Rightarrow>
                     (if got_str = [] then (Inr (Break_With slug'), st')
                      else if got_str = long_url then (Inr (Return_With slug'), st')
                      else shorten_loop sget cfg long_url (nth_try + 1) slug' st'))))
      else (Inr (Break_With slug), st))"
  by pat_completeness auto
termination
  by (relation "measure (\<lambda>(sget, cfg, long_url, nth_try, slug, st). 100 - unat nth_try)")
     (simp_all add: try_measure)

declare shorten_loop.simps [simp del]

text \<open>The empty string is the failure value.\<close>

definition do_shorten_url ::
    "('r \<Rightarrow> string \<Rightarrow> (UrlShorteningDbError + string) \<times> 'r) \<Rightarrow>
     ('r \<Rightarrow> string \<Rightarrow> string \<Rightarrow> UrlShorteningDbError option \<times> 'r) \<Rightarrow>
     UrlShorteningConfig \<Rightarrow> string \<Rightarrow> 'r \<Rightarrow> string res \<times> 'r" where
  "do_shorten_url sget sput cfg long_url st =
     (case shorten_loop sget cfg long_url 1 [] st of
        (Inl f, st') \<Rightarrow> (Inl f, st')
      | (Inr (Return_With slug), st') \<Rightarrow> (Inr slug, st')
      | (Inr (Break_With slug), st') \<Rightarrow>
          (case sput st' slug long_url of
             (Some err, st'') \<Rightarrow> (Inr [], st'')
           | (None, st'') \<Rightarrow> (Inr slug, st'')))"

section \<open>The search over a store\<close>

text \<open>The hundredth slug does not exist when three digits are needed for each.\<close>

definition tries_bounded :: "UrlShorteningConfig \<Rightarrow> string \<Rightarrow> bool" where
  "tries_bounded cfg long_url \<longleftrightarrow> (\<forall>dst. generate_slug cfg dst long_url 100 = Inl Undefined)"

lemma tries_bounded_if_long:
  assumes "base_ok cfg" and "3 \<le> usc_slug_length cfg"
  shows "tries_bounded cfg long_url"
proof -
  have "3 \<le> unat (usc_slug_length cfg)"
    using assms(2) by (simp add: word_le_nat_alt)
  then have "256 < 100 * unat (usc_slug_length cfg)" by simp
  moreover have "length (slug_stream cfg long_url) \<le> 256"
    using assms(1) by (intro slug_stream_le_256) (simp add: base_ok_def)
  ultimately show ?thesis
    using assms(1) by (simp add: tries_bounded_def generate_slug_stream)
qed

text \<open>
  Induction over a terminating search: one case for each way an iteration ends.  The branch
  for \<open>generate_slug\<close> returning false is absent, since it never does.
\<close>

lemma shorten_loop_rule [consumes 1, case_names exhausted fault missing failed blank same collision]:
  assumes run: "shorten_loop g cfg url n slug st = (r, st')"
    and exhausted: "\<And>n slug st. \<not> n < 100 \<Longrightarrow> P n slug st (Inr (Break_With slug)) st"
    and fault: "\<And>n slug st f. n < 100 \<Longrightarrow> generate_slug cfg slug url (n + 1) = Inl f \<Longrightarrow>
      P n slug st (Inl f) st"
    and missing: "\<And>n slug st s st'. n < 100 \<Longrightarrow> generate_slug cfg slug url (n + 1) = Inr (Some s) \<Longrightarrow>
      g st s = (Inl NotFound, st') \<Longrightarrow> P n slug st (Inr (Break_With s)) st'"
    and failed: "\<And>n slug st s e st'. n < 100 \<Longrightarrow> generate_slug cfg slug url (n + 1) = Inr (Some s) \<Longrightarrow>
      g st s = (Inl e, st') \<Longrightarrow> e \<noteq> NotFound \<Longrightarrow> P n slug st (Inr (Return_With [])) st'"
    and blank: "\<And>n slug st s st'. n < 100 \<Longrightarrow> generate_slug cfg slug url (n + 1) = Inr (Some s) \<Longrightarrow>
      g st s = (Inr [], st') \<Longrightarrow> P n slug st (Inr (Break_With s)) st'"
    and same: "\<And>n slug st s st'. n < 100 \<Longrightarrow> generate_slug cfg slug url (n + 1) = Inr (Some s) \<Longrightarrow>
      g st s = (Inr url, st') \<Longrightarrow> url \<noteq> [] \<Longrightarrow> P n slug st (Inr (Return_With s)) st'"
    and collision: "\<And>n slug st s v st1 r st'. n < 100 \<Longrightarrow>
      generate_slug cfg slug url (n + 1) = Inr (Some s) \<Longrightarrow> g st s = (Inr v, st1) \<Longrightarrow> v \<noteq> [] \<Longrightarrow>
      v \<noteq> url \<Longrightarrow> shorten_loop g cfg url (n + 1) s st1 = (r, st') \<Longrightarrow> P (n + 1) s st1 r st' \<Longrightarrow>
      P n slug st r st'"
  shows "P n slug st r st'"
  using run
proof (induction "100 - unat n" arbitrary: n slug st rule: less_induct)
  case less
  show ?case
  proof (cases "n < 100")
    case False
    then show ?thesis
      using less.prems exhausted[of n slug st] by (subst (asm) shorten_loop.simps) auto
  next
    case True
    show ?thesis
    proof (cases "generate_slug cfg slug url (n + 1)")
      case (Inl f)
      then show ?thesis
        using less.prems True fault[of n slug f st] by (subst (asm) shorten_loop.simps) auto
    next
      case (Inr x)
      then obtain s where s: "generate_slug cfg slug url (n + 1) = Inr (Some s)"
        using generate_slug_not_None by (cases x) auto
      obtain got st1 where g: "g st s = (got, st1)" by (cases "g st s")
      have IH: "got = Inr v \<Longrightarrow> v \<noteq> [] \<Longrightarrow> v \<noteq> url \<Longrightarrow>
          shorten_loop g cfg url (n + 1) s st1 = (r, st') \<Longrightarrow> P (n + 1) s st1 r st'" for v
        by (rule less.hyps) (use try_measure[OF True] in auto)
      show ?thesis
        using less.prems True s g IH missing[OF True s, of st] failed[OF True s, of st]
          blank[OF True s, of st] same[OF True s, of st] collision[OF True s, of st]
        by (subst (asm) shorten_loop.simps) (auto split: if_splits sum.splits)
    qed
  qed
qed

context url_store
begin

lemma shorten_loop_view:
  "shorten_loop sget cfg long_url n slug st = (r, st') \<Longrightarrow> view st' = view st"
  by (induction rule: shorten_loop_rule) (auto dest: get_view)

lemma shorten_loop_return:
  "shorten_loop sget cfg long_url n slug st = (r, st') \<Longrightarrow> r = Inr (Return_With s) \<Longrightarrow> s \<noteq> [] \<Longrightarrow>
   view st s = Some long_url"
  by (induction rule: shorten_loop_rule) (auto dest: get_view get_found)

text \<open>A slug that is inserted was free, or the search ran out of tries.\<close>

lemma shorten_loop_break:
  "shorten_loop sget cfg long_url n slug st = (r, st') \<Longrightarrow> r = Inr (Break_With s) \<Longrightarrow> n < 100 \<Longrightarrow>
   tries_bounded cfg long_url \<Longrightarrow> view st s = None \<or> view st s = Some []"
proof (induction rule: shorten_loop_rule)
  case (collision n slug st s' v st1 r st')
  have "n + 1 \<noteq> 100"
    using collision.hyps(2) collision.prems(3) by (auto simp: tries_bounded_def)
  then have "n + 1 < 100"
    using collision.hyps(1) by unat_arith
  then show ?case
    using collision by (auto dest: get_view)
qed (auto dest: get_view get_missing get_found)

lemma do_shorten_url_cases:
  assumes "do_shorten_url sget sput cfg long_url st = (r, st')"
  obtains (fault) f where "r = Inl f" "view st' = view st"
  | (returned) s where "r = Inr s" "shorten_loop sget cfg long_url 1 [] st = (Inr (Return_With s), st')"
      "view st' = view st"
  | (failed) s e st1 where "r = Inr []" "shorten_loop sget cfg long_url 1 [] st = (Inr (Break_With s), st1)"
      "view st1 = view st" "sput st1 s long_url = (Some e, st')"
  | (inserted) s st1 where "r = Inr s" "shorten_loop sget cfg long_url 1 [] st = (Inr (Break_With s), st1)"
      "view st1 = view st" "sput st1 s long_url = (None, st')"
proof -
  obtain r1 st1 where l: "shorten_loop sget cfg long_url 1 [] st = (r1, st1)"
    by (cases "shorten_loop sget cfg long_url 1 [] st")
  note v = shorten_loop_view[OF l]
  show ?thesis
  proof (cases r1)
    case (Inl f)
    then show ?thesis using assms l v fault by (auto simp: do_shorten_url_def)
  next
    case (Inr e)
    then show ?thesis
      using assms l v returned failed inserted
      by (cases e) (auto simp: do_shorten_url_def split: prod.splits option.splits)
  qed
qed

lemma shorten_loop_slug_wf:
  "shorten_loop sget cfg long_url n slug st = (r, st') \<Longrightarrow> r = Inr (Return_With s) \<or> r = Inr (Break_With s) \<Longrightarrow>
   set slug \<subseteq> set alphabet \<and> length slug < 256 \<Longrightarrow> set s \<subseteq> set alphabet \<and> length s < 256"
proof (induction rule: shorten_loop_rule)
  case (collision n slug st s' v st1 r st')
  note n = next_try_nonzero[OF collision.hyps(1)]
  then show ?case using collision generated_slug_wf[OF collision.hyps(2) n] by blast
next
  case (missing n slug st s' st')
  note n = next_try_nonzero[OF missing.hyps(1)]
  then show ?case using missing generated_slug_wf[OF missing.hyps(2) n] by auto
next
  case (blank n slug st s' st')
  note n = next_try_nonzero[OF blank.hyps(1)]
  then show ?case using blank generated_slug_wf[OF blank.hyps(2) n] by auto
next
  case (same n slug st s' st')
  note n = next_try_nonzero[OF same.hyps(1)]
  then show ?case using same generated_slug_wf[OF same.hyps(2) n] by auto
qed auto

text \<open>What is returned is a slug, so that a request for it is routed back.\<close>

lemma do_shorten_url_slug_wf:
  assumes "do_shorten_url sget sput cfg long_url st = (Inr s, st')"
  shows "set s \<subseteq> set alphabet \<and> length s < 256"
  using assms
proof (cases rule: do_shorten_url_cases)
  case (returned s')
  then show ?thesis using shorten_loop_slug_wf[OF returned(2)] by simp
next
  case (inserted s' st1)
  then show ?thesis using shorten_loop_slug_wf[OF inserted(2)] by simp
qed auto

lemma do_shorten_url_stores:
  assumes "do_shorten_url sget sput cfg long_url st = (Inr s, st')" and "s \<noteq> []"
  shows "view st' s = Some long_url"
  using assms(1)
proof (cases rule: do_shorten_url_cases)
  case (returned s')
  then show ?thesis using assms(2) shorten_loop_return[OF returned(2)] by auto
next
  case (inserted s' st1)
  then show ?thesis using put_ok[OF inserted(4)] by auto
qed (use assms(2) in auto)

lemma do_shorten_url_preserves:
  assumes "do_shorten_url sget sput cfg long_url st = (r, st')" and "tries_bounded cfg long_url"
    and "view st k = Some v" and "v \<noteq> []"
  shows "view st' k = Some v"
proof -
  have free: "k \<noteq> s" if "shorten_loop sget cfg long_url 1 [] st = (Inr (Break_With s), st1)" for s st1
    using shorten_loop_break[OF that refl _ assms(2)] assms(3,4) by auto
  show ?thesis
    using assms(1)
  proof (cases rule: do_shorten_url_cases)
    case (failed s e st1)
    then show ?thesis using free[OF failed(2)] put_frame[OF failed(4)] assms(3) by auto
  next
    case (inserted s st1)
    then show ?thesis using free[OF inserted(2)] put_frame[OF inserted(4)] assms(3) by auto
  qed (use assms(3) in auto)
qed

end

section \<open>Shortening a URL again\<close>

context healthy_url_store
begin

lemma do_shorten_url_change:
  assumes "do_shorten_url sget sput cfg long_url st = (r, st')"
  shows "view st' = view st \<or> (\<exists>slug. view st' = (view st)(slug \<mapsto> long_url))"
  using assms
proof (cases rule: do_shorten_url_cases)
  case (failed s e st1)
  then show ?thesis using put_healthy[of st1 s long_url] by simp
next
  case (inserted s st1)
  then show ?thesis using put_ok[OF inserted(4)] by auto
qed auto

lemma get_cong: "view st1 = view st2 \<Longrightarrow> fst (sget st1 k) = fst (sget st2 k)"
  by (simp add: get_cases)

lemma sget_value: "view st k = Some v \<Longrightarrow> \<exists>st'. sget st k = (Inr v, st') \<and> view st' = view st"
  using get_cases[of st k] by (cases "sget st k") (auto dest: get_view)

lemma sget_none: "view st k = None \<Longrightarrow> \<exists>st'. sget st k = (Inl NotFound, st') \<and> view st' = view st"
  using get_cases[of st k] by (cases "sget st k") (auto dest: get_view)

text \<open>
  A search that ended with the slug \<open>s\<close> returns \<open>s\<close> in every later state that holds the URL
  under \<open>s\<close> and agrees on the other keys.
\<close>

lemma shorten_loop_again:
  "shorten_loop sget cfg long_url n slug st = (r, st') \<Longrightarrow>
   r = Inr (Break_With s) \<or> r = Inr (Return_With s) \<Longrightarrow> s \<noteq> [] \<Longrightarrow> n < 100 \<Longrightarrow> tries_bounded cfg long_url \<Longrightarrow>
   long_url \<noteq> [] \<Longrightarrow> view st2 = (view st)(s \<mapsto> long_url) \<Longrightarrow>
   \<exists>st3. shorten_loop sget cfg long_url n slug st2 = (Inr (Return_With s), st3)"
proof (induction arbitrary: st2 rule: shorten_loop_rule)
  case (missing n slug st s' st')
  from missing.prems(1,6) sget_value[of st2 s'] show ?case
    using missing by (subst shorten_loop.simps) auto
next
  case (blank n slug st s' st')
  from blank.prems(1,6) sget_value[of st2 s'] show ?case
    using blank by (subst shorten_loop.simps) auto
next
  case (same n slug st s' st')
  from same.prems(1,6) sget_value[of st2 s'] show ?case
    using same by (subst shorten_loop.simps) auto
next
  case (collision n slug st s' v st1 r st')
  have n: "n + 1 \<noteq> 100"
    using collision.hyps(2) collision.prems(4) by (auto simp: tries_bounded_def)
  then have n1: "n + 1 < 100"
    using collision.hyps(1) by unat_arith
  have v1: "view st1 = view st" using collision.hyps(3) by (rule get_view)
  show ?case
  proof (cases "s' = s")
    case True
    then have "view st2 s' = Some long_url" using collision.prems(6) by simp
    with sget_value[of st2 s'] True show ?thesis
      using collision.hyps(1,2) collision.prems(5) by (subst shorten_loop.simps) auto
  next
    case False
    then have "view st2 s' = Some v"
      using collision.prems(6) get_found[OF collision.hyps(3)] by simp
    with sget_value[of st2 s'] obtain st4 where g: "sget st2 s' = (Inr v, st4)" "view st4 = view st2"
      by auto
    with collision.IH[of st4] collision.prems n1 v1 obtain st3 where
      "shorten_loop sget cfg long_url (n + 1) s' st4 = (Inr (Return_With s), st3)"
      by auto
    then show ?thesis
      using collision.hyps(1,2,4,5) g by (subst shorten_loop.simps) auto
  qed
qed (auto simp: tries_bounded_def)

lemma do_shorten_url_again:
  assumes run: "do_shorten_url sget sput cfg long_url st = (Inr s, st')" and "s \<noteq> []"
    and "tries_bounded cfg long_url" and "long_url \<noteq> []"
  shows "\<exists>st''. do_shorten_url sget sput cfg long_url st' = (Inr s, st'') \<and> view st'' = view st'"
proof -
  have again: "\<exists>st''. do_shorten_url sget sput cfg long_url st' = (Inr s, st'') \<and> view st'' = view st'"
    if l: "shorten_loop sget cfg long_url 1 [] st = (Inr e, st1)" "e = Break_With s \<or> e = Return_With s"
      and v: "view st' = (view st)(s \<mapsto> long_url)" for e st1
  proof -
    obtain st3 where "shorten_loop sget cfg long_url 1 [] st' = (Inr (Return_With s), st3)"
      using shorten_loop_again[OF l(1) _ assms(2) _ assms(3,4) v] l(2) by auto
    with shorten_loop_view[OF this] show ?thesis by (auto simp: do_shorten_url_def)
  qed
  show ?thesis
    using run
  proof (cases rule: do_shorten_url_cases)
    case (returned s')
    then have "view st s = Some long_url"
      using shorten_loop_return[OF returned(2)] assms(2) by auto
    then have v: "view st' = (view st)(s \<mapsto> long_url)"
      using returned(3) by auto
    show ?thesis
      by (rule again[OF returned(2) _ v]) (use returned(1) in simp)
  next
    case (inserted s' st1)
    then have v: "view st' = (view st)(s \<mapsto> long_url)" using put_ok[OF inserted(4)] by auto
    show ?thesis
      by (rule again[OF inserted(2) _ v]) (use inserted(1) in simp)
  qed (use assms(2) in auto)
qed

end

section \<open>Shortening into a database that is free\<close>

lemma do_shorten_url_fresh:
  assumes store: "healthy_url_store sget sput view" and b: "base_ok cfg"
    and len: "2 * unat (usc_slug_length cfg) \<le> length (slug_stream cfg long_url)"
    and free: "view st (slug_at cfg long_url 1) = None"
  shows "\<exists>st'. do_shorten_url sget sput cfg long_url st = (Inr (slug_at cfg long_url 1), st') \<and>
    view st' = (view st)(slug_at cfg long_url 1 \<mapsto> long_url)"
proof -
  let ?s = "slug_at cfg long_url 1"
  have g: "generate_slug cfg [] long_url (1 + 1) = Inr (Some ?s)"
    using b len by (simp add: generate_slug_stream)
  obtain st1 where "sget st ?s = (Inl NotFound, st1)" "view st1 = view st"
    using healthy_url_store.sget_none[OF store free] by auto
  moreover obtain st2 where p: "sput st1 ?s long_url = (None, st2)"
    using healthy_url_store.put_healthy[OF store, of st1 ?s long_url] by (cases "sput st1 ?s long_url") auto
  moreover have "view st2 = (view st1)(?s \<mapsto> long_url)"
    using url_store.put_ok[OF healthy_url_store.axioms(1)[OF store] p] .
  ultimately show ?thesis
    using g by (simp add: do_shorten_url_def shorten_loop.simps[of _ _ _ 1] word_less_nat_alt)
qed

text \<open>A URL whose hash is known: the string of one null character under the test key.\<close>

definition test_url :: string where
  "test_url = [CHR 0x00]"

text \<open>Its first two hash words in base 58, and those of the empty string.\<close>

lemma test_digits:
  "digits_of 58 0xEDB941BCE45F8254 = [56, 48, 53, 15, 9, 57, 53, 34, 12, 44, 39]"
  "digits_of 58 0xE20D44EF3DCAC60F = [57, 57, 29, 7, 36, 42, 41, 10, 57, 46, 37]"
  "digits_of 58 0xDD44482AC2C874F5 = [51, 25, 52, 49, 52, 53, 39, 42, 32, 0, 37]"
  "digits_of 58 0xD946017313C7351F = [37, 55, 41, 22, 27, 55, 21, 48, 47, 19, 36]"
  by (simp_all add: digits_of.simps)

lemma test_streams:
  "slug_stream (default_svc test_key) test_url =
     digits_of 58 0xEDB941BCE45F8254 @ digits_of 58 0xE20D44EF3DCAC60F @
     digits_of 58 0x72651B9BCB324A47 @ digits_of 58 0x2073624CB275E484"
  "slug_stream (default_svc test_key) [] =
     digits_of 58 0xDD44482AC2C874F5 @ digits_of 58 0xD946017313C7351F @
     digits_of 58 0xB3AEBECCB98714FF @ digits_of 58 0x41DA233145751DF4"
  by (simp_all add: slug_stream_def stream_from_def default_svc_def new_UrlShorteningConfig_def
      bytes_of_string_def test_url_def test_key_def highway_hash256_zero_byte[unfolded test_key_def]
      highway_hash256_empty[unfolded test_key_def] word_digits_def)

lemma test_stream: "14 \<le> length (slug_stream (default_svc test_key) test_url)"
  by (simp add: test_streams test_digits)

lemma slug_length_default [simp]: "usc_slug_length (default_svc key) = 7"
  by (simp add: default_svc_def new_UrlShorteningConfig_def)

lemma test_slugs:
  "slug_at (default_svc test_key) test_url 1 = ''bDmgzzW''"
  "slug_at (default_svc test_key) [] 1 = ''jZ1eexi''"
  by (simp_all add: slug_at_def test_streams test_digits) (simp_all add: alphabet_def)

lemma test_slug_nonempty: "slug_at (default_svc test_key) test_url 1 \<noteq> []"
  unfolding test_slugs by simp

text \<open>The run that the witnesses use: the test URL shortened into an empty database.\<close>

lemma test_run:
  "\<exists>st'. do_shorten_url (db_get mem_rocksdb) (db_put mem_rocksdb) (default_svc test_key) test_url (\<lambda>_. None) =
     (Inr (slug_at (default_svc test_key) test_url 1), st') \<and>
   st' = [slug_at (default_svc test_key) test_url 1 \<mapsto> test_url]"
  using do_shorten_url_fresh[OF mem.healthy_url_store_axioms, of "default_svc test_key" test_url "\<lambda>_. None"]
    test_stream by simp

section \<open>Properties\<close>

text \<open>
  A slug that \<open>do_shorten_url\<close> returns is stored: after the call the database maps it to
  the URL, for any database behaviour that meets the contract, including failing calls.
\<close>

theorem shortened_url_is_stored:
  assumes "rocksdb_contract R view"
    and "do_shorten_url (db_get R) (db_put R) cfg long_url st = (Inr s, st')" and "s \<noteq> []"
  shows "view st' s = Some long_url"
  by (rule url_store.do_shorten_url_stores[OF url_store_db[OF assms(1)] assms(2,3)])

theorem shortened_url_is_stored_witness:
  "\<exists>st'. do_shorten_url (db_get mem_rocksdb) (db_put mem_rocksdb) (default_svc test_key) test_url (\<lambda>_. None) =
      (Inr (slug_at (default_svc test_key) test_url 1), st') \<and>
    st' (slug_at (default_svc test_key) test_url 1) = Some test_url"
  using shortened_url_is_stored[OF mem_contract] test_run test_slug_nonempty by blast

text \<open>
  With slugs of at least three characters over 2 to 58 symbols, shortening a URL never
  changes an existing entry, whether it succeeds, fails or faults.  (An entry whose stored
  URL is empty counts as free in the code.)
\<close>

theorem shortening_preserves_entries:
  assumes "rocksdb_contract R view" and "base_ok cfg" and "3 \<le> usc_slug_length cfg"
    and "view st k = Some v" and "v \<noteq> []"
  shows "view (snd (do_shorten_url (db_get R) (db_put R) cfg long_url st)) k = Some v"
  by (rule url_store.do_shorten_url_preserves[OF url_store_db[OF assms(1)] _
        tries_bounded_if_long[OF assms(2,3)] assms(4,5)])
     (rule prod.collapse[symmetric])

theorem shortening_preserves_entries_witness:
  "snd (do_shorten_url (db_get mem_rocksdb) (db_put mem_rocksdb) (default_svc test_key) test_url
     [''abc'' \<mapsto> ''http://a'']) ''abc'' = Some ''http://a''"
  using shortening_preserves_entries[OF mem_contract base_ok_default, of test_key "[''abc'' \<mapsto> ''http://a'']" "''abc''"]
  by simp

text \<open>
  C22  Different URLs get different slugs, one search after the other: with slugs of at least 3
  characters over 2 to 58 symbols and a database that keeps to its contract, a URL shortened after
  another, non-empty one is never given the slug of that one.  (With shorter slugs it can be, once
  all its tries collide; with overlapping searches it can be, too.)
\<close>

theorem different_urls_different_slugs:
  assumes "rocksdb_contract R view" and "base_ok cfg" and "3 \<le> usc_slug_length cfg"
    and "do_shorten_url (db_get R) (db_put R) cfg url1 st = (Inr s1, st1)" and "s1 \<noteq> []"
    and "do_shorten_url (db_get R) (db_put R) cfg url2 st1 = (Inr s2, st2)" and "s2 \<noteq> []"
    and "url1 \<noteq> url2" and "url1 \<noteq> []"
  shows "s1 \<noteq> s2"
proof -
  note store = url_store_db[OF assms(1)]
  have "view st1 s1 = Some url1"
    by (rule url_store.do_shorten_url_stores[OF store assms(4,5)])
  then have "view st2 s1 = Some url1"
    using url_store.do_shorten_url_preserves[OF store assms(6) tries_bounded_if_long[OF assms(2,3)]] assms(9)
    by blast
  moreover have "view st2 s2 = Some url2"
    by (rule url_store.do_shorten_url_stores[OF store assms(6,7)])
  ultimately show ?thesis using assms(8) by auto
qed

theorem different_urls_different_slugs_witness:
  "''bDmgzzW'' \<noteq> ''jZ1eexi'' \<and>
   (\<exists>st1 st2. do_shorten_url (db_get mem_rocksdb) (db_put mem_rocksdb) (default_svc test_key) test_url
        (\<lambda>_. None) = (Inr ''bDmgzzW'', st1) \<and>
      do_shorten_url (db_get mem_rocksdb) (db_put mem_rocksdb) (default_svc test_key) [] st1 =
        (Inr ''jZ1eexi'', st2))"
proof -
  obtain st1 where r1: "do_shorten_url (db_get mem_rocksdb) (db_put mem_rocksdb) (default_svc test_key) test_url
      (\<lambda>_. None) = (Inr ''bDmgzzW'', st1)" "st1 = [''bDmgzzW'' \<mapsto> test_url]"
    using test_run unfolding test_slugs by blast
  moreover have "\<exists>st2. do_shorten_url (db_get mem_rocksdb) (db_put mem_rocksdb) (default_svc test_key) [] st1 =
      (Inr ''jZ1eexi'', st2)"
    using do_shorten_url_fresh[OF mem.healthy_url_store_axioms base_ok_default, of test_key "[]" st1] r1(2)
    unfolding test_slugs by (auto simp: test_streams test_digits)
  moreover have "test_url \<noteq> []" by (simp add: test_url_def)
  ultimately show ?thesis
    using different_urls_different_slugs[OF mem_contract base_ok_default[of test_key]] by fastforce
qed

text \<open>
  C16  Shortening is idempotent on a database that does not fail: the second request for a URL
  returns the slug of the first one and changes no entry.
\<close>

theorem shortening_is_idempotent:
  assumes "rocksdb_contract R view" and "rocksdb_healthy R"
    and "base_ok cfg" and "3 \<le> usc_slug_length cfg" and "long_url \<noteq> []"
    and "do_shorten_url (db_get R) (db_put R) cfg long_url st = (Inr s, st')" and "s \<noteq> []"
  shows "\<exists>st''. do_shorten_url (db_get R) (db_put R) cfg long_url st' = (Inr s, st'') \<and> view st'' = view st'"
  by (rule healthy_url_store.do_shorten_url_again[OF healthy_url_store_db[OF assms(1,2)] assms(6,7)
        tries_bounded_if_long[OF assms(3,4)] assms(5)])

theorem shortening_is_idempotent_witness:
  "do_shorten_url (db_get mem_rocksdb) (db_put mem_rocksdb) (default_svc test_key) test_url
     [slug_at (default_svc test_key) test_url 1 \<mapsto> test_url] =
     (Inr (slug_at (default_svc test_key) test_url 1), [slug_at (default_svc test_key) test_url 1 \<mapsto> test_url])"
proof -
  have "test_url \<noteq> []" by (simp add: test_url_def)
  from shortening_is_idempotent[OF mem_contract mem_healthy base_ok_default _ this _ test_slug_nonempty] test_run
  show ?thesis by auto
qed

text \<open>
  C35  The first slug of a URL is never tried: \<open>nth_try\<close> is incremented before its first use.  On a
  database that keeps to its contract and does not fail, with an alphabet of 2 to 58 symbols and
  a hash with digits for two slugs, a URL whose second slug is free is stored under it, whether its
  first slug is free or not, and nothing else in the database changes.
\<close>

theorem first_insertion_uses_second_slug:
  assumes "rocksdb_contract R view" and "rocksdb_healthy R" and "base_ok cfg"
    and "2 * unat (usc_slug_length cfg) \<le> length (slug_stream cfg long_url)"
    and "view st (slug_at cfg long_url 1) = None"
  shows "\<exists>st'. do_shorten_url (db_get R) (db_put R) cfg long_url st = (Inr (slug_at cfg long_url 1), st') \<and>
    view st' = (view st)(slug_at cfg long_url 1 \<mapsto> long_url)"
  by (rule do_shorten_url_fresh[OF healthy_url_store_db[OF assms(1,2)] assms(3-5)])

theorem first_insertion_uses_second_slug_witness:
  "\<exists>st'. do_shorten_url (db_get mem_rocksdb) (db_put mem_rocksdb) (default_svc test_key) test_url (\<lambda>_. None) =
      (Inr (slug_at (default_svc test_key) test_url 1), st')"
  using first_insertion_uses_second_slug[OF mem_contract mem_healthy base_ok_default, of test_key test_url "\<lambda>_. None"]
    test_stream by auto

text \<open>When every candidate is taken by another URL, the search runs through all its tries.\<close>

lemma shorten_loop_exhausts:
  assumes store: "healthy_url_store sget sput view" and b: "base_ok cfg"
    and len: "100 * unat (usc_slug_length cfg) \<le> length (slug_stream cfg url)"
    and taken: "\<And>k. k < 100 \<Longrightarrow> \<exists>v. view st0 (slug_at cfg url k) = Some v \<and> v \<noteq> [] \<and> v \<noteq> url"
  shows "n < 100 \<Longrightarrow> view st = view st0 \<Longrightarrow>
    \<exists>st'. shorten_loop sget cfg url n slug st = (Inr (Break_With (slug_at cfg url 99)), st') \<and>
      view st' = view st0"
proof (induction "100 - unat n" arbitrary: n slug st rule: less_induct)
  case less
  have n: "unat n < 100" "unat (n + 1) = Suc (unat n)" "n + 1 \<noteq> 0"
  proof -
    show "unat n < 100" using less.prems(1) by (simp add: word_less_nat_alt)
    then show s: "unat (n + 1) = Suc (unat n)" by (simp add: unat_word_ariths)
    show "n + 1 \<noteq> 0" using s by (metis nat.simps(3) unat_0)
  qed
  have "Suc (unat n) * unat (usc_slug_length cfg) \<le> length (slug_stream cfg url)"
    using n(1) len by (meson Suc_leI le_trans mult_le_mono1)
  then have g: "generate_slug cfg slug url (n + 1) = Inr (Some (slug_at cfg url (unat n)))"
    using b n by (simp add: generate_slug_stream)
  from taken[OF n(1)] obtain v where v: "view st (slug_at cfg url (unat n)) = Some v" "v \<noteq> []" "v \<noteq> url"
    using less.prems(2) by auto
  obtain st1 where s: "sget st (slug_at cfg url (unat n)) = (Inr v, st1)" "view st1 = view st"
    using healthy_url_store.sget_value[OF store v(1)] by auto
  have step: "shorten_loop sget cfg url n slug st =
      shorten_loop sget cfg url (n + 1) (slug_at cfg url (unat n)) st1"
    using less.prems(1) g s(1) v by (subst shorten_loop.simps) simp
  show ?case
  proof (cases "n + 1 < 100")
    case True
    show ?thesis
      unfolding step by (rule less.hyps) (use try_measure[OF less.prems(1)] True s(2) less.prems(2) in auto)
  next
    case False
    then have "unat n = 99" using n by (simp add: word_less_nat_alt)
    then show ?thesis
      unfolding step using False s(2) less.prems(2) by (subst shorten_loop.simps) simp
  qed
qed

text \<open>
  C40  The search can run out of its 99 tries, and then the code falls through to the insertion:
  if every slug of the configured length is taken by another URL, shortening a URL whose hash
  has digits for a hundred slugs overwrites the entry of a different URL.
\<close>

theorem exhausted_search_overwrites:
  assumes "rocksdb_contract R view" and "rocksdb_healthy R" and "base_ok cfg"
    and "100 * unat (usc_slug_length cfg) \<le> length (slug_stream cfg url)"
    and "\<And>s. length s = unat (usc_slug_length cfg) \<Longrightarrow> \<exists>v. view st s = Some v \<and> v \<noteq> [] \<and> v \<noteq> url"
  shows "\<exists>s st' v. do_shorten_url (db_get R) (db_put R) cfg url st = (Inr s, st') \<and>
    view st s = Some v \<and> v \<noteq> url \<and> view st' s = Some url"
proof -
  note store = healthy_url_store_db[OF assms(1,2)]
  have len: "length (slug_at cfg url k) = unat (usc_slug_length cfg)" if "k < 100" for k
  proof (rule length_slug_at)
    show "Suc k * unat (usc_slug_length cfg) \<le> length (slug_stream cfg url)"
      using assms(4) that by (meson Suc_leI le_trans mult_le_mono1)
  qed
  obtain st1 where l: "shorten_loop (db_get R) cfg url 1 [] st = (Inr (Break_With (slug_at cfg url 99)), st1)"
    "view st1 = view st"
    using shorten_loop_exhausts[OF store assms(3,4), of st 1 st "[]"] assms(5) len by auto
  obtain st2 where p: "db_put R st1 (slug_at cfg url 99) url = (None, st2)"
    using healthy_url_store.put_healthy[OF store, of st1 "slug_at cfg url 99" url]
    by (cases "db_put R st1 (slug_at cfg url 99) url") auto
  have "view st2 (slug_at cfg url 99) = Some url"
    using url_store.put_ok[OF healthy_url_store.axioms(1)[OF store] p] by simp
  with l p assms(5)[OF len, of 99] show ?thesis
    by (auto simp: do_shorten_url_def)
qed

definition binary_svc :: UrlShorteningConfig where
  "binary_svc = new_UrlShorteningConfig ''12'' 1 test_key"

theorem exhausted_search_overwrites_witness:
  "\<exists>s st'. do_shorten_url (db_get mem_rocksdb) (db_put mem_rocksdb) binary_svc test_url (\<lambda>_. Some ''http://a'') =
     (Inr s, st') \<and> st' s = Some test_url"
proof -
  have d: "63 < length (digits_of 2 0xEDB941BCE45F8254)" "63 < length (digits_of 2 0xE20D44EF3DCAC60F)"
    by (rule length_digits_of_ge; simp)+
  have "100 \<le> length (slug_stream binary_svc test_url)"
    using d[unfolded numeral_2_eq_2]
    by (simp add: slug_stream_def stream_from_def binary_svc_def new_UrlShorteningConfig_def
        bytes_of_string_def test_url_def test_key_def highway_hash256_zero_byte[unfolded test_key_def]
        word_digits_def)
  moreover have "base_ok binary_svc" "usc_slug_length binary_svc = 1"
    by (simp_all add: base_ok_def binary_svc_def new_UrlShorteningConfig_def)
  moreover have "''http://a'' \<noteq> test_url" by (simp add: test_url_def)
  ultimately show ?thesis
    using exhausted_search_overwrites[OF mem_contract mem_healthy, of binary_svc test_url "\<lambda>_. Some ''http://a''"]
    by fastforce
qed

end
