(* ===== verification/Make_Url_Handler.thy ===== *)
theory Make_Url_Handler
  imports Shorten App_Config Http
begin

text \<open>
  \<^verbatim>\<open>url_shortener/make_url_request_handler.h\<close> and \<^verbatim>\<open>make_url_request_handler.cc\<close>: the handler of
  \<open>/api/v1/create\<close>.  It collects the JSON body of the client, asks the reCAPTCHA service
  whether the client's answer is good, shortens the URL if it is, and replies.

  The events of the model are the callbacks of proxygen's downstream side, those of the
  connector and of the transaction with the captcha service, and the two executors running the
  continuations of the captcha future.  JSON, URI escaping, name resolution and the loading of
  certificates are parameters.
\<close>

section \<open>Parameters and data\<close>

text \<open>
  What the handler uses of \<open>folly::dynamic\<close>.  \<open>parse_json\<close> is None where \<open>parseJson\<close> throws,
  \<open>as_json_string\<close> and \<open>as_json_bool\<close> are None where \<open>asString\<close> and \<open>asBool\<close> throw (\<open>asString\<close>
  converts numbers and booleans).
  \<open>json_member\<close> is \<open>operator[]\<close> on an object: a missing member reads as null.
\<close>

record 'j json_api =
  parse_json :: "string \<Rightarrow> 'j option"
  json_is_object :: "'j \<Rightarrow> bool"
  json_member :: "'j \<Rightarrow> string \<Rightarrow> 'j"
  json_is_null :: "'j \<Rightarrow> bool"
  as_json_string :: "'j \<Rightarrow> string option"
  as_json_bool :: "'j \<Rightarrow> bool option"

text \<open>
  \<open>me_resolve\<close>: does \<open>setFromHostPort\<close> find an address; \<open>me_load_certs\<close>: can the trusted
  certificates be loaded.  Both calls throw if not.
\<close>

record ('j, 'net, 'r) make_env =
  me_json :: "'j json_api"
  me_resolve :: "string \<Rightarrow> bool"
  me_load_certs :: "path \<Rightarrow> bool"
  me_uri_escape :: "string \<Rightarrow> string"
  me_config :: "'net ReadOnlyAppConfig"
  me_svc :: UrlShorteningConfig
  me_db :: "'r rocksdb"

record captcha_request =
  cr_path :: string
  cr_query :: string
  cr_headers :: "(string \<times> string) list"
  cr_body :: "string option"

text \<open>
  The captcha promise, and how far the chain of continuations on its future has come.  In the
  handler, \<open>mk_txn\<close> says whether \<open>txn_\<close> points to a transaction, and \<open>mk_ingress_paused\<close> whether
  the handler has paused the client's ingress.
\<close>

datatype promise = Promise_Open | Promise_Set "exn + string"

datatype chain =
    Chain_None
  | Chain_Waiting string
  | Chain_Cpu string "exn + bool"
  | Chain_Evb "exn + string"
  | Chain_Done

record make_handler =
  mk_alive :: bool
  mk_headers :: bool
  mk_body :: "string option"
  mk_client_terminated :: bool
  mk_captcha_headers_body :: "captcha_request option"
  mk_promise :: promise
  mk_chain :: chain
  mk_ingress_paused :: bool
  mk_txn :: bool
  mk_cs_cancelled :: bool
  mk_cs_status :: "nat option"
  mk_cs_body :: "string option"
  mk_txn_sent :: "captcha_request list"
  mk_out :: "downstream_op list"

definition new_MakeUrlRequestHandler :: make_handler where
  "new_MakeUrlRequestHandler =
     \<lparr>mk_alive = True, mk_headers = False, mk_body = None, mk_client_terminated = False,
      mk_captcha_headers_body = None, mk_promise = Promise_Open, mk_chain = Chain_None,
      mk_ingress_paused = False, mk_txn = False, mk_cs_cancelled = False, mk_cs_status = None, mk_cs_body = None, mk_txn_sent = [], mk_out = []\<rparr>"

definition mk_send :: "downstream_op \<Rightarrow> make_handler \<Rightarrow> make_handler" where
  "mk_send op h = h\<lparr>mk_out := mk_out h @ [op]\<rparr>"

definition allow_origin :: "(string \<times> string) list" where
  "allow_origin = [(''Access-Control-Allow-Origin'', ''*'')]"

section \<open>The client's request\<close>

definition make_onRequest :: "'ip http_message \<Rightarrow> make_handler \<Rightarrow> make_handler" where
  "make_onRequest request h =
     (let h' = h\<lparr>mk_headers := True\<rparr>
      in if msg_method request \<noteq> Some POST \<and> msg_method request \<noteq> Some PUT
         then mk_send (Send_With_EOM 405 ''Method Not Allowed'' [] '''') h'
         else h')"

definition make_onBody :: "string \<Rightarrow> make_handler \<Rightarrow> make_handler" where
  "make_onBody body h =
     (case mk_body h of Some b \<Rightarrow> h\<lparr>mk_body := Some (b @ body)\<rparr> | None \<Rightarrow> h\<lparr>mk_body := Some body\<rparr>)"

text \<open>The two strings of the JSON body; both are empty unless both members are there.\<close>

definition parse_make_request :: "'j json_api \<Rightarrow> string \<Rightarrow> (string \<times> string) res" where
  "parse_make_request J body_str =
     (case parse_json J body_str of
        None \<Rightarrow> Inl (Throws (Runtime_Error ''parse_error''))
      | Some body_json \<Rightarrow>
          if json_is_object J body_json \<and> \<not> json_is_null J (json_member J body_json ''user_captcha_response'') \<and>
             \<not> json_is_null J (json_member J body_json ''long_url'')
          then (case as_json_string J (json_member J body_json ''user_captcha_response'') of
                  None \<Rightarrow> Inl (Throws (Runtime_Error ''TypeError''))
                | Some user_captcha_response \<Rightarrow>
                    (case as_json_string J (json_member J body_json ''long_url'') of
                       None \<Rightarrow> Inl (Throws (Runtime_Error ''TypeError''))
                     | Some long_url \<Rightarrow> Inr (user_captcha_response, long_url)))
          else Inr ('''', ''''))"

text \<open>\<^verbatim>\<open>std::to_string\<close> of a size.\<close>

definition to_decimal :: "nat \<Rightarrow> string" where
  "to_decimal n = (if n = 0 then ''0'' else rev (map ((!) ''0123456789'') (digits_of 10 n)))"

text \<open>The request to \<^verbatim>\<open>https://www.google.com/recaptcha/api/siteverify\<close>.\<close>

definition captcha_service_request :: "('j, 'net, 'r) make_env \<Rightarrow> string \<Rightarrow> captcha_request" where
  "captcha_service_request E captcha_user_response =
     (let secret_encoded = me_uri_escape E (captcha_service_api_key (me_config E));
          response_encoded = me_uri_escape E captcha_user_response;
          body = ''secret='' @ secret_encoded @ ''&response='' @ response_encoded
      in \<lparr>cr_path = ''/recaptcha/api/siteverify'', cr_query = '''',
          cr_headers =
            [(''Origin'', ''localhost''), (''Host'', ''www.google.com''), (''Accept'', ''application/json''),
             (''User-Agent'', server_user_agent (me_config E)),
             (''Content-Type'', ''application/x-www-form-urlencoded''),
             (''Content-Length'', to_decimal (length body))],
          cr_body = Some body\<rparr>)"

text \<open>
  \<open>query_captcha_service\<close>: resolve, build the request, set up TLS, pause the client, start
  connecting, take the future.  A future can be taken once.
\<close>

definition query_captcha_service ::
  "('j, 'net, 'r) make_env \<Rightarrow> string \<Rightarrow> string \<Rightarrow> make_handler \<Rightarrow> make_handler res" where
  "query_captcha_service E captcha_user_response long_url h =
     (if \<not> me_resolve E ''www.google.com'' then Inl (Throws (Runtime_Error ''system_error''))
      else
        (let h' = h\<lparr>mk_captcha_headers_body := Some (captcha_service_request E captcha_user_response)\<rparr>
         in if \<not> me_load_certs E (trusted_certificates_path (me_config E))
            then Inl (Throws (Runtime_Error ''SSL''))
            else if mk_chain h' \<noteq> Chain_None then Inl (Throws (Runtime_Error ''FutureAlreadyRetrieved''))
            else Inr (h'\<lparr>mk_ingress_paused := True, mk_chain := Chain_Waiting long_url\<rparr>)))"

definition bad_request :: "make_handler \<Rightarrow> make_handler" where
  "bad_request h = mk_send (Send_With_EOM 400 ''Bad Request'' [] '''') h"

text \<open>\<open>onEOM\<close> is \<open>noexcept\<close>.  The branch for missing headers has no \<open>return\<close>.\<close>

definition make_onEOM :: "('j, 'net, 'r) make_env \<Rightarrow> make_handler \<Rightarrow> make_handler res" where
  "make_onEOM E h =
     at_noexcept
       (if mk_client_terminated h then Inr h
        else
          (let h' = (if \<not> mk_headers h then bad_request h else h)
           in case mk_body h' of
                None \<Rightarrow> Inr (bad_request h')
              | Some body_str \<Rightarrow>
                  res_bind (parse_make_request (me_json E) body_str) (\<lambda>(user_captcha_response, long_url).
                    if length user_captcha_response = 0 then Inr (bad_request h')
                    else if length long_url = 0 then Inr (bad_request h')
                    else query_captcha_service E user_captcha_response long_url h')))"

section \<open>The captcha service\<close>

text \<open>The first continuation: what the text of the service says.\<close>

definition captcha_verdict :: "'j json_api \<Rightarrow> string \<Rightarrow> exn + bool" where
  "captcha_verdict J result =
     (case parse_json J result of
        None \<Rightarrow> Inl (Runtime_Error ''parse_error'')
      | Some json \<Rightarrow>
          if json_is_object J json \<and> \<not> json_is_null J (json_member J json ''success'')
          then (case as_json_bool J (json_member J json ''success'') of
                  None \<Rightarrow> Inl (Runtime_Error ''TypeError'')
                | Some b \<Rightarrow> Inr b)
          else Inl (Runtime_Error ''json parse fail''))"

text \<open>
  Fulfilling the promise runs the first continuation and queues the second one on the CPU
  executor.  A promise can be fulfilled once.
\<close>

definition fulfil_chain :: "'j json_api \<Rightarrow> exn + string \<Rightarrow> chain \<Rightarrow> chain" where
  "fulfil_chain J r ch =
     (case ch of
        Chain_Waiting long_url \<Rightarrow>
          Chain_Cpu long_url (case r of Inl e \<Rightarrow> Inl e | Inr text \<Rightarrow> captcha_verdict J text)
      | _ \<Rightarrow> ch)"

definition set_promise :: "'j json_api \<Rightarrow> exn + string \<Rightarrow> make_handler \<Rightarrow> make_handler res" where
  "set_promise J r h =
     (case mk_promise h of
        Promise_Set _ \<Rightarrow> Inl (Throws (Runtime_Error ''PromiseAlreadySatisfied''))
      | Promise_Open \<Rightarrow> Inr (h\<lparr>mk_promise := Promise_Set r, mk_chain := fulfil_chain J r (mk_chain h)\<rparr>))"

text \<open>
  \<open>newTransaction\<close> calls \<open>setTransaction\<close> of the transaction handler.  The body is moved to the
  transaction.
\<close>

definition connectSuccess :: "make_handler \<Rightarrow> make_handler res" where
  "connectSuccess h =
     (case mk_captcha_headers_body h of
        None \<Rightarrow> Inl Aborts
      | Some req \<Rightarrow>
          Inr (h\<lparr>mk_txn := True, mk_cs_cancelled := False, mk_txn_sent := mk_txn_sent h @ [req],
                 mk_captcha_headers_body := Some (req\<lparr>cr_body := None\<rparr>), mk_ingress_paused := False\<rparr>))"

definition connectError :: "make_handler \<Rightarrow> make_handler" where
  "connectError h =
     (if mk_client_terminated h then mk_send Send_Abort h
      else mk_send (Send_With_EOM 503 ''Bad Gateway'' [] '''') h)"

definition on_captcha_service_EOM :: "'j json_api \<Rightarrow> nat option \<Rightarrow> string option \<Rightarrow> make_handler \<Rightarrow> make_handler res" where
  "on_captcha_service_EOM J headers body h =
     (case headers of
        None \<Rightarrow> Inl Aborts
      | Some status \<Rightarrow>
          if status \<noteq> 200 then set_promise J (Inl (Runtime_Error ''received status code'')) h
          else (case body of
                  None \<Rightarrow> set_promise J (Inl (Runtime_Error ''body missing'')) h
                | Some response_text \<Rightarrow> set_promise J (Inr response_text) h))"

text \<open>Nothing depends on the value of \<open>check_for_shutdown\<close>.\<close>

definition check_for_shutdown :: "make_handler \<Rightarrow> bool" where
  "check_for_shutdown h = True"

definition on_captcha_service_detach_transaction :: "make_handler \<Rightarrow> make_handler" where
  "on_captcha_service_detach_transaction h =
     (let h' = h\<lparr>mk_txn := False\<rparr>; shutdown = check_for_shutdown h' in h')"

definition on_captcha_service_error :: "'j json_api \<Rightarrow> make_handler \<Rightarrow> make_handler res" where
  "on_captcha_service_error J h = set_promise J (Inl (Runtime_Error ''captcha service'')) h"

datatype captcha_event = Cs_Headers nat | Cs_Body string | Cs_EOM | Cs_Error | Cs_Detach

text \<open>The callbacks of \<open>CaptchaServiceHTTPTransactionHandler\<close>, all of them \<open>noexcept\<close>.\<close>

definition captcha_callback :: "'j json_api \<Rightarrow> captcha_event \<Rightarrow> make_handler \<Rightarrow> make_handler res" where
  "captcha_callback J e h =
     at_noexcept (case e of
        Cs_Headers status \<Rightarrow> Inr (h\<lparr>mk_cs_status := Some status\<rparr>)
      | Cs_Body b \<Rightarrow>
          res_bind (check_that (\<not> mk_cs_cancelled h)) (\<lambda>_.
            Inr (h\<lparr>mk_cs_body := Some (case mk_cs_body h of None \<Rightarrow> b | Some b0 \<Rightarrow> b0 @ b)\<rparr>))
      | Cs_EOM \<Rightarrow>
          if mk_cs_cancelled h then Inr h
          else on_captcha_service_EOM J (mk_cs_status h) (mk_cs_body h) (h\<lparr>mk_cs_status := None, mk_cs_body := None\<rparr>)
      | Cs_Error \<Rightarrow> on_captcha_service_error J (h\<lparr>mk_cs_cancelled := True\<rparr>)
      | Cs_Detach \<Rightarrow> Inr (on_captcha_service_detach_transaction (h\<lparr>mk_cs_cancelled := True\<rparr>)))"

lemmas captcha_error_defs = on_captcha_service_error_def on_captcha_service_detach_transaction_def Let_def

section \<open>The end of the request\<close>

text \<open>
  Deleting the handler destroys the promise; one whose future is waiting is broken, which sends
  an exception down the chain.
\<close>

definition delete_handler :: "'j json_api \<Rightarrow> make_handler \<Rightarrow> make_handler" where
  "delete_handler J h =
     (case mk_promise h of
        Promise_Open \<Rightarrow>
          h\<lparr>mk_alive := False, mk_chain := fulfil_chain J (Inl (Runtime_Error ''BrokenPromise'')) (mk_chain h)\<rparr>
      | Promise_Set _ \<Rightarrow> h\<lparr>mk_alive := False\<rparr>)"

definition make_requestComplete :: "'j json_api \<Rightarrow> make_handler \<Rightarrow> make_handler" where
  "make_requestComplete J h = delete_handler J (h\<lparr>mk_client_terminated := True\<rparr>)"

definition make_onError :: "'j json_api \<Rightarrow> make_handler \<Rightarrow> make_handler res" where
  "make_onError J h =
     at_noexcept (res_map (delete_handler J)
       (set_promise J (Inl (Runtime_Error ''proxygenError'')) (h\<lparr>mk_client_terminated := True\<rparr>)))"

fun make_callback :: "('j, 'net, 'r) make_env \<Rightarrow> 'ip callback \<Rightarrow> make_handler \<Rightarrow> make_handler res" where
  "make_callback E (On_Request request) h = Inr (make_onRequest request h)"
| "make_callback E (On_Body body) h = Inr (make_onBody body h)"
| "make_callback E On_EOM h = make_onEOM E h"
| "make_callback E Request_Complete h = Inr (make_requestComplete (me_json E) h)"
| "make_callback E On_Error h = make_onError (me_json E) h"
| "make_callback E On_Upgrade h = Inr h"
| "make_callback E On_Egress_Paused h = Inr h"
| "make_callback E On_Egress_Resumed h = Inr h"

text \<open>A member that nothing calls.\<close>

definition abort_downstream :: "make_handler \<Rightarrow> make_handler" where
  "abort_downstream h = (if \<not> mk_client_terminated h then mk_send Send_Abort h else h)"

section \<open>The continuations\<close>

text \<open>
  On the CPU executor: \<open>do_shorten_url\<close> if the verdict is good, the empty string if it is bad.
  An exception passes by without looking at the handler.  The search is one step here;
  \<open>Interleaved_Server\<close> runs it call by call among the other events.
\<close>

definition run_shorten :: "('j, 'net, 'r) make_env \<Rightarrow> make_handler \<times> 'r \<Rightarrow> (make_handler \<times> 'r) res" where
  "run_shorten E hs =
     (case hs of (h, st) \<Rightarrow>
        (case mk_chain h of
           Chain_Cpu long_url (Inl e) \<Rightarrow> Inr (h\<lparr>mk_chain := Chain_Evb (Inl e)\<rparr>, st)
         | Chain_Cpu long_url (Inr False) \<Rightarrow> Inr (h\<lparr>mk_chain := Chain_Evb (Inr '''')\<rparr>, st)
         | Chain_Cpu long_url (Inr True) \<Rightarrow>
             (if mk_alive h then
                (case do_shorten_url (db_get (me_db E)) (db_put (me_db E)) (me_svc E) long_url st of
                   (Inl f, st') \<Rightarrow> Inl f
                 | (Inr short_url, st') \<Rightarrow> Inr (h\<lparr>mk_chain := Chain_Evb (Inr short_url)\<rparr>, st'))
              else Inl Undefined)
         | _ \<Rightarrow> Inr (h, st)))"

text \<open>On the event base: the reply, or the error reply of \<open>thenError\<close>.\<close>

definition run_reply :: "make_handler \<Rightarrow> make_handler res" where
  "run_reply h =
     (case mk_chain h of
        Chain_Evb r \<Rightarrow>
          (if mk_alive h then
             Inr (mk_send
               (case r of
                  Inl e \<Rightarrow> Send_With_EOM 500 ''Internal Server Error'' allow_origin ''''
                | Inr short_url \<Rightarrow>
                    if short_url = '''' then Send_With_EOM 400 ''Bad Request'' allow_origin ''''
                    else Send_With_EOM 200 ''OK'' allow_origin short_url)
               (h\<lparr>mk_chain := Chain_Done\<rparr>))
           else Inl Undefined)
      | _ \<Rightarrow> Inr h)"

datatype 'ip make_event =
    Mk_Callback "'ip callback"
  | Connect_Success
  | Connect_Error
  | Captcha captcha_event
  | Run_Shorten
  | Run_Mk_Reply

text \<open>
  The connector is a member of the handler and drops its callbacks with it; the transaction with
  the captcha service and the continuations keep bare pointers.
\<close>

fun make_step ::
  "('j, 'net, 'r) make_env \<Rightarrow> 'ip make_event \<Rightarrow> make_handler \<times> 'r \<Rightarrow> (make_handler \<times> 'r) res" where
  "make_step E (Mk_Callback e) (h, st) =
     (if mk_alive h then res_map (\<lambda>h'. (h', st)) (make_callback E e h) else Inl Undefined)"
| "make_step E Connect_Success (h, st) =
     (if mk_alive h then res_map (\<lambda>h'. (h', st)) (connectSuccess h) else Inr (h, st))"
| "make_step E Connect_Error (h, st) =
     (if mk_alive h then Inr (connectError h, st) else Inr (h, st))"
| "make_step E (Captcha e) (h, st) =
     (if mk_alive h then res_map (\<lambda>h'. (h', st)) (captcha_callback (me_json E) e h) else Inl Undefined)"
| "make_step E Run_Shorten (h, st) = run_shorten E (h, st)"
| "make_step E Run_Mk_Reply (h, st) = res_map (\<lambda>h'. (h', st)) (run_reply h)"

section \<open>From a request to its reply\<close>

text \<open>A client's message, its body in any number of parts.\<close>

definition client_events :: "'ip http_message \<Rightarrow> string list \<Rightarrow> 'ip make_event list" where
  "client_events req parts =
     Mk_Callback (On_Request req) # map (\<lambda>b. Mk_Callback (On_Body b)) parts @ [Mk_Callback On_EOM]"

text \<open>The service's answer: a status, a body in any number of parts, and the end.\<close>

definition captcha_events :: "nat \<Rightarrow> string list \<Rightarrow> 'ip make_event list" where
  "captcha_events status parts =
     Connect_Success # Captcha (Cs_Headers status) # map (\<lambda>b. Captcha (Cs_Body b)) parts @ [Captcha Cs_EOM]"

definition captcha_outcome :: "'j json_api \<Rightarrow> nat \<Rightarrow> string list \<Rightarrow> exn + bool" where
  "captcha_outcome J status parts =
     (if status \<noteq> 200 then Inl (Runtime_Error ''received status code'')
      else if parts = [] then Inl (Runtime_Error ''body missing'')
      else captcha_verdict J (concat parts))"

definition is_create :: "'ip http_message \<Rightarrow> bool" where
  "is_create req \<longleftrightarrow> msg_method req = Some POST \<or> msg_method req = Some PUT"

lemma run_bodies:
  fixes E :: "('j, 'net, 'r) make_env"
  shows "parts \<noteq> [] \<Longrightarrow> mk_alive h \<Longrightarrow>
   run (make_step E) (map (\<lambda>b. Mk_Callback (On_Body b) :: 'ip make_event) parts) (h, st) =
     Inr (h\<lparr>mk_body := Some ((case mk_body h of None \<Rightarrow> [] | Some b \<Rightarrow> b) @ concat parts)\<rparr>, st)"
proof (induction parts arbitrary: h)
  case (Cons b parts)
  then show ?case
    by (cases "parts = []") (auto simp: make_onBody_def split: option.split)
qed simp

lemma run_captcha_bodies:
  fixes E :: "('j, 'net, 'r) make_env"
  shows "parts \<noteq> [] \<Longrightarrow> mk_alive h \<Longrightarrow> \<not> mk_cs_cancelled h \<Longrightarrow>
   run (make_step E) (map (\<lambda>b. Captcha (Cs_Body b) :: 'ip make_event) parts) (h, st) =
     Inr (h\<lparr>mk_cs_body := Some ((case mk_cs_body h of None \<Rightarrow> [] | Some b \<Rightarrow> b) @ concat parts)\<rparr>, st)"
proof (induction parts arbitrary: h)
  case (Cons b parts)
  then show ?case
    by (cases "parts = []") (auto simp: captcha_callback_def split: option.split)
qed simp

text \<open>The handler that waits for the captcha service.\<close>

definition waiting_handler :: "('j, 'net, 'r) make_env \<Rightarrow> string \<Rightarrow> string \<Rightarrow> string \<Rightarrow> make_handler" where
  "waiting_handler E body response long_url =
     new_MakeUrlRequestHandler\<lparr>mk_headers := True, mk_body := Some body,
       mk_captcha_headers_body := Some (captcha_service_request E response),
       mk_ingress_paused := True, mk_chain := Chain_Waiting long_url\<rparr>"

definition reachable_service :: "('j, 'net, 'r) make_env \<Rightarrow> bool" where
  "reachable_service E \<longleftrightarrow>
     me_resolve E ''www.google.com'' \<and> me_load_certs E (trusted_certificates_path (me_config E))"

lemma run_client:
  fixes req :: "'ip http_message"
  assumes "is_create req" and "parts \<noteq> []"
  shows "run (make_step E) (client_events req parts) (new_MakeUrlRequestHandler, st) =
    res_map (\<lambda>h. (h, st))
      (make_onEOM E (new_MakeUrlRequestHandler\<lparr>mk_headers := True, mk_body := Some (concat parts)\<rparr>))"
proof -
  let ?h = "new_MakeUrlRequestHandler\<lparr>mk_headers := True\<rparr>"
  let ?h' = "new_MakeUrlRequestHandler\<lparr>mk_headers := True, mk_body := Some (concat parts)\<rparr>"
  have 1: "make_step E (Mk_Callback (On_Request req)) (new_MakeUrlRequestHandler, st) = Inr (?h, st)"
    using assms(1) by (auto simp: make_onRequest_def is_create_def new_MakeUrlRequestHandler_def)
  have 2: "run (make_step E) (map (\<lambda>b. Mk_Callback (On_Body b) :: 'ip make_event) parts) (?h, st) = Inr (?h', st)"
    using run_bodies[OF assms(2), of ?h E st, where 'ip = 'ip] by (simp add: new_MakeUrlRequestHandler_def)
  have 3: "make_step E (Mk_Callback On_EOM :: 'ip make_event) (?h', st) = res_map (\<lambda>h. (h, st)) (make_onEOM E ?h')"
    by (simp add: new_MakeUrlRequestHandler_def)
  show ?thesis
    unfolding client_events_def run.simps(2) 1 res_bind_simps run_append 2 3
    by (cases "make_onEOM E ?h'") simp_all
qed

lemma run_client_waiting:
  assumes "is_create req" and "parts \<noteq> []" and "reachable_service E"
    and "parse_make_request (me_json E) (concat parts) = Inr (response, long_url)"
    and "response \<noteq> []" and "long_url \<noteq> []"
  shows "run (make_step E) (client_events req parts) (new_MakeUrlRequestHandler, st) =
    Inr (waiting_handler E (concat parts) response long_url, st)"
  using assms(3-6) unfolding run_client[OF assms(1,2)]
  by (simp add: make_onEOM_def new_MakeUrlRequestHandler_def query_captcha_service_def
      reachable_service_def waiting_handler_def Let_def)

lemma run_captcha:
  fixes E :: "('j, 'net, 'r) make_env"
  shows "\<exists>h. run (make_step E) (captcha_events status parts :: 'ip make_event list)
       (waiting_handler E body response long_url, st) = Inr (h, st) \<and>
     mk_alive h \<and> mk_chain h = Chain_Cpu long_url (captcha_outcome (me_json E) status parts) \<and> mk_out h = [] \<and>
     mk_txn_sent h = [captcha_service_request E response] \<and> \<not> mk_client_terminated h \<and> mk_promise h \<noteq> Promise_Open"
proof -
  let ?w = "waiting_handler E body response long_url"
  let ?h1 = "?w\<lparr>mk_txn := True, mk_txn_sent := [captcha_service_request E response],
    mk_captcha_headers_body := Some ((captcha_service_request E response)\<lparr>cr_body := None\<rparr>),
    mk_ingress_paused := False, mk_cs_status := Some status\<rparr>"
  have c: "run (make_step E) [Connect_Success :: 'ip make_event, Captcha (Cs_Headers status)] (?w, st) = Inr (?h1, st)"
    by (simp add: waiting_handler_def new_MakeUrlRequestHandler_def connectSuccess_def captcha_callback_def captcha_error_defs)
  let ?h2 = "if parts = [] then ?h1 else ?h1\<lparr>mk_cs_body := Some (concat parts)\<rparr>"
  have b: "run (make_step E) (map (\<lambda>b. Captcha (Cs_Body b) :: 'ip make_event) parts) (?h1, st) = Inr (?h2, st)"
    using run_captcha_bodies[of parts ?h1 E st, where 'ip = 'ip]
    by (simp add: waiting_handler_def new_MakeUrlRequestHandler_def)
  have "captcha_events status parts =
      [Connect_Success :: 'ip make_event, Captcha (Cs_Headers status)] @
      map (\<lambda>b. Captcha (Cs_Body b)) parts @ [Captcha Cs_EOM]"
    by (simp add: captcha_events_def)
  then have "run (make_step E) (captcha_events status parts :: 'ip make_event list) (?w, st) =
      make_step E (Captcha Cs_EOM :: 'ip make_event) (?h2, st)"
    by (simp only: run_append c b res_bind_simps run_single)
  then show ?thesis
    by (auto simp: captcha_callback_def captcha_error_defs on_captcha_service_EOM_def set_promise_def fulfil_chain_def
        captcha_outcome_def waiting_handler_def new_MakeUrlRequestHandler_def)
qed

section \<open>Witnesses' environment\<close>

text \<open>
  A JSON of three texts: \<open>req\<close>, the client's object; \<open>yes\<close> and \<open>no\<close>, the service's answers.
  Every other text does not parse.
\<close>

definition sample_json :: "nat json_api" where
  "sample_json =
     \<lparr>parse_json = (\<lambda>s. if s = ''req'' then Some 1 else if s = ''yes'' then Some 2 else if s = ''no'' then Some 3 else None),
      json_is_object = (\<lambda>j. j \<in> {1, 2, 3}),
      json_member = (\<lambda>j k. if j = 1 \<and> k = ''user_captcha_response'' then 10 else if j = 1 \<and> k = ''long_url'' then 11
                           else if j = 2 \<and> k = ''success'' then 12 else if j = 3 \<and> k = ''success'' then 13 else 0),
      json_is_null = (\<lambda>j. j = 0),
      as_json_string = (\<lambda>j. if j = 10 then Some ''token'' else if j = 11 then Some test_url else None),
      as_json_bool = (\<lambda>j. if j = 12 then Some True else if j = 13 then Some False else None)\<rparr>"

definition sample_make_env :: "bool \<Rightarrow> (nat, nat, string \<Rightarrow> string option) make_env" where
  "sample_make_env reachable =
     \<lparr>me_json = sample_json, me_resolve = (\<lambda>_. reachable), me_load_certs = (\<lambda>_. True), me_uri_escape = (\<lambda>s. s),
      me_config = initial_config, me_svc = default_svc test_key, me_db = mem_rocksdb\<rparr>"

definition create_request :: "nat http_message" where
  "create_request =
     \<lparr>msg_method = Some POST, msg_path = ''/api/v1/create'', msg_client_ip = 0,
      msg_header_exists = (\<lambda>_. False), msg_header_single = (\<lambda>_. '''')\<rparr>"

lemma sample_make_simps [simp]:
  "me_json (sample_make_env b) = sample_json" "me_svc (sample_make_env b) = default_svc test_key"
  "me_db (sample_make_env b) = mem_rocksdb" "reachable_service (sample_make_env b) = b" "is_create create_request"
  "parse_make_request sample_json ''req'' = Inr (''token'', test_url)" "test_url \<noteq> []"
  "captcha_outcome sample_json 200 [''yes''] = Inr True" "captcha_outcome sample_json 200 [''n'', ''o''] = Inr False"
  by (simp_all add: sample_make_env_def sample_json_def reachable_service_def is_create_def create_request_def
      parse_make_request_def captcha_outcome_def captcha_verdict_def test_url_def)

section \<open>Replies\<close>

lemma run_create:
  fixes req :: "'ip http_message"
  assumes "is_create req" and "parts \<noteq> []" and "reachable_service E"
    and "parse_make_request (me_json E) (concat parts) = Inr (response, long_url)"
    and "response \<noteq> []" and "long_url \<noteq> []"
    and "captcha_outcome (me_json E) status answer = Inr True"
    and "do_shorten_url (db_get (me_db E)) (db_put (me_db E)) (me_svc E) long_url st = (Inr slug, st')"
  shows "\<exists>h. run (make_step E) (client_events req parts @ captcha_events status answer @ [Run_Shorten, Run_Mk_Reply])
      (new_MakeUrlRequestHandler, st) = Inr (h, st') \<and>
    mk_txn_sent h = [captcha_service_request E response] \<and>
    mk_out h = [if slug = '''' then Send_With_EOM 400 ''Bad Request'' allow_origin ''''
                else Send_With_EOM 200 ''OK'' allow_origin slug]"
proof -
  obtain h where h: "run (make_step E) (captcha_events status answer :: 'ip make_event list)
      (waiting_handler E (concat parts) response long_url, st) = Inr (h, st)"
    "mk_alive h" "mk_chain h = Chain_Cpu long_url (Inr True)" "mk_out h = []"
    "mk_txn_sent h = [captcha_service_request E response]"
    using run_captcha[of E status answer "concat parts" response long_url st, where 'ip = 'ip] assms(7) by auto
  then show ?thesis
    using assms(8)
    by (auto simp: run_append run_client_waiting[OF assms(1-6)] run_shorten_def run_reply_def mk_send_def)
qed

text \<open>
  C3  Creating a short URL, end to end: when a client sends a JSON body with a captcha answer
  and a URL, in any number of parts, and the captcha service confirms the answer, the client
  gets one response, 200 with a slug, the database then holds the URL under this slug, and the
  captcha service has been asked exactly once, with the client's answer; if no slug could be
  stored, the response is 400.
\<close>

theorem create_url_end_to_end:
  fixes req :: "'ip http_message"
  assumes "rocksdb_contract (me_db E) view" and "is_create req" and "parts \<noteq> []" and "reachable_service E"
    and "parse_make_request (me_json E) (concat parts) = Inr (response, long_url)"
    and "response \<noteq> []" and "long_url \<noteq> []"
    and "captcha_outcome (me_json E) status answer = Inr True"
    and "do_shorten_url (db_get (me_db E)) (db_put (me_db E)) (me_svc E) long_url st = (Inr slug, st')"
  shows "\<exists>h. run (make_step E) (client_events req parts @ captcha_events status answer @ [Run_Shorten, Run_Mk_Reply])
      (new_MakeUrlRequestHandler, st) = Inr (h, st') \<and>
    mk_txn_sent h = [captcha_service_request E response] \<and>
    (if slug = '''' then mk_out h = [Send_With_EOM 400 ''Bad Request'' allow_origin '''']
     else mk_out h = [Send_With_EOM 200 ''OK'' allow_origin slug] \<and> view st' slug = Some long_url)"
proof -
  have "slug \<noteq> '''' \<Longrightarrow> view st' slug = Some long_url"
    using url_store.do_shorten_url_stores[OF url_store_db[OF assms(1)] assms(9)] .
  then show ?thesis using run_create[OF assms(2-9)] by (auto simp del: run.simps split: if_splits)
qed

theorem create_url_end_to_end_witness:
  "\<exists>h st'. run (make_step (sample_make_env True))
       (client_events create_request [''r'', ''eq''] @ captcha_events 200 [''yes''] @ [Run_Shorten, Run_Mk_Reply])
       (new_MakeUrlRequestHandler, \<lambda>_. None) = Inr (h, st') \<and>
     mk_out h = [Send_With_EOM 200 ''OK'' allow_origin (slug_at (default_svc test_key) test_url 1)]"
proof -
  obtain st' where d: "do_shorten_url (db_get (me_db (sample_make_env True))) (db_put (me_db (sample_make_env True)))
      (me_svc (sample_make_env True)) test_url (\<lambda>_. None) = (Inr (slug_at (default_svc test_key) test_url 1), st')"
    using test_run by auto
  have c: "rocksdb_contract (me_db (sample_make_env True)) (\<lambda>st. st)" by (simp add: mem_contract)
  have p: "parse_make_request (me_json (sample_make_env True)) (concat [''r'', ''eq'']) = Inr (''token'', test_url)"
    by simp
  from create_url_end_to_end[OF c _ _ _ p _ _ _ d, of create_request 200 "[''yes'']"] test_slug_nonempty
  show ?thesis by (simp del: run.simps) blast
qed

text \<open>What a service sends before it ends, fails or goes away.\<close>

fun answer_part :: "captcha_event \<Rightarrow> bool" where
  "answer_part (Cs_Headers status) \<longleftrightarrow> True"
| "answer_part (Cs_Body b) \<longleftrightarrow> True"
| "answer_part _ \<longleftrightarrow> False"

lemma run_answer_parts:
  fixes E :: "('j, 'net, 'r) make_env"
  shows "list_all answer_part cs \<Longrightarrow> mk_alive h \<Longrightarrow> \<not> mk_cs_cancelled h \<Longrightarrow>
    \<exists>a b. run (make_step E) (map Captcha cs :: 'ip make_event list) (h, st) =
      Inr (h\<lparr>mk_cs_status := a, mk_cs_body := b\<rparr>, st)"
proof (induction cs arbitrary: h)
  case Nil
  have "h = h\<lparr>mk_cs_status := mk_cs_status h, mk_cs_body := mk_cs_body h\<rparr>" by simp
  then show ?case by (metis list.simps(8) run.simps(1))
next
  case (Cons c cs)
  let ?a = "case c of Cs_Headers status \<Rightarrow> Some status | _ \<Rightarrow> mk_cs_status h"
  let ?b = "case c of Cs_Body b \<Rightarrow> Some (case mk_cs_body h of None \<Rightarrow> b | Some b0 \<Rightarrow> b0 @ b) | _ \<Rightarrow> mk_cs_body h"
  have "make_step E (Captcha c :: 'ip make_event) (h, st) = Inr (h\<lparr>mk_cs_status := ?a, mk_cs_body := ?b\<rparr>, st)"
    using Cons.prems by (cases c; cases h) (simp_all add: captcha_callback_def)
  then obtain a b where "make_step E (Captcha c :: 'ip make_event) (h, st) =
      Inr (h\<lparr>mk_cs_status := a, mk_cs_body := b\<rparr>, st)" by blast
  then show ?case using Cons.IH[of "h\<lparr>mk_cs_status := a, mk_cs_body := b\<rparr>"] Cons.prems by auto
qed

lemma run_unconfirmed:
  fixes req :: "'ip http_message"
  assumes "is_create req" and "parts \<noteq> []" and "reachable_service E"
    and "parse_make_request (me_json E) (concat parts) = Inr (response, long_url)"
    and "response \<noteq> []" and "long_url \<noteq> []"
    and "captcha_outcome (me_json E) status answer \<noteq> Inr True"
  shows "\<exists>h. run (make_step E) (client_events req parts @ captcha_events status answer @ [Run_Shorten, Run_Mk_Reply])
      (new_MakeUrlRequestHandler, st) = Inr (h, st) \<and>
    mk_out h = [if captcha_outcome (me_json E) status answer = Inr False
                then Send_With_EOM 400 ''Bad Request'' allow_origin ''''
                else Send_With_EOM 500 ''Internal Server Error'' allow_origin '''']"
proof -
  obtain h where h: "run (make_step E) (captcha_events status answer :: 'ip make_event list)
      (waiting_handler E (concat parts) response long_url, st) = Inr (h, st)"
    "mk_alive h" "mk_chain h = Chain_Cpu long_url (captcha_outcome (me_json E) status answer)" "mk_out h = []"
    using run_captcha[of E status answer "concat parts" response long_url st, where 'ip = 'ip] by auto
  consider e where "captcha_outcome (me_json E) status answer = Inl e"
    | "captcha_outcome (me_json E) status answer = Inr False"
    using assms(7) by (cases "captcha_outcome (me_json E) status answer") auto
  then show ?thesis
    by cases (use h in \<open>auto simp: run_append run_client_waiting[OF assms(1-6)] run_shorten_def run_reply_def mk_send_def\<close>)
qed

lemma run_cut_short:
  fixes req :: "'ip http_message"
  assumes "is_create req" and "parts \<noteq> []" and "reachable_service E"
    and "parse_make_request (me_json E) (concat parts) = Inr (response, long_url)"
    and "response \<noteq> []" and "long_url \<noteq> []"
    and "list_all answer_part cs"
  shows "\<exists>h. run (make_step E) (client_events req parts @ Connect_Success # map Captcha cs @
             [Captcha Cs_Error, Run_Shorten, Run_Mk_Reply]) (new_MakeUrlRequestHandler, st) = Inr (h, st) \<and>
       mk_out h = [Send_With_EOM 500 ''Internal Server Error'' allow_origin '''']"
    and "\<exists>h. run (make_step E) (client_events req parts @ Connect_Success # map Captcha cs @
             [Captcha Cs_Detach, Run_Shorten, Run_Mk_Reply]) (new_MakeUrlRequestHandler, st) = Inr (h, st) \<and>
       mk_out h = [] \<and> mk_chain h = Chain_Waiting long_url"
proof -
  let ?w = "waiting_handler E (concat parts) response long_url"
  obtain h where c: "make_step E (Connect_Success :: 'ip make_event) (?w, st) = Inr (h, st)" "mk_alive h"
    "\<not> mk_cs_cancelled h" "mk_chain h = Chain_Waiting long_url" "mk_promise h = Promise_Open" "mk_out h = []"
    by (simp add: waiting_handler_def new_MakeUrlRequestHandler_def connectSuccess_def)
  obtain a b where "run (make_step E) (map Captcha cs :: 'ip make_event list) (h, st) =
      Inr (h\<lparr>mk_cs_status := a, mk_cs_body := b\<rparr>, st)"
    using run_answer_parts[OF assms(7) c(2,3), of E st, where 'ip = 'ip] by blast
  note steps = run_append run_client_waiting[OF assms(1-6)] c this captcha_callback_def captcha_error_defs
    set_promise_def fulfil_chain_def run_shorten_def run_reply_def mk_send_def
  show "\<exists>h. run (make_step E) (client_events req parts @ Connect_Success # map Captcha cs @
             [Captcha Cs_Error, Run_Shorten, Run_Mk_Reply]) (new_MakeUrlRequestHandler, st) = Inr (h, st) \<and>
       mk_out h = [Send_With_EOM 500 ''Internal Server Error'' allow_origin '''']"
    by (simp add: steps del: make_step.simps(2))
  show "\<exists>h. run (make_step E) (client_events req parts @ Connect_Success # map Captcha cs @
             [Captcha Cs_Detach, Run_Shorten, Run_Mk_Reply]) (new_MakeUrlRequestHandler, st) = Inr (h, st) \<and>
       mk_out h = [] \<and> mk_chain h = Chain_Waiting long_url"
    by (simp add: steps del: make_step.simps(2))
qed

lemma run_unconnected:
  fixes req :: "'ip http_message"
  assumes "is_create req" and "parts \<noteq> []" and "reachable_service E"
    and "parse_make_request (me_json E) (concat parts) = Inr (response, long_url)"
    and "response \<noteq> []" and "long_url \<noteq> []"
  shows "\<exists>h. run (make_step E) (client_events req parts @ [Connect_Error, Run_Shorten, Run_Mk_Reply])
             (new_MakeUrlRequestHandler, st) = Inr (h, st) \<and>
       mk_out h = [Send_With_EOM 503 ''Bad Gateway'' [] ''''] \<and> mk_chain h = Chain_Waiting long_url"
proof -
  have "\<exists>h. run (make_step E) [Connect_Error :: 'ip make_event, Run_Shorten, Run_Mk_Reply]
      (waiting_handler E (concat parts) response long_url, st) = Inr (h, st) \<and>
      mk_out h = [Send_With_EOM 503 ''Bad Gateway'' [] ''''] \<and> mk_chain h = Chain_Waiting long_url"
    by (simp add: connectError_def waiting_handler_def new_MakeUrlRequestHandler_def run_shorten_def run_reply_def
        mk_send_def)
  then show ?thesis by (simp add: run_append run_client_waiting[OF assms] del: run.simps)
qed



section \<open>No URL is stored without a confirmed captcha\<close>

text \<open>The service has confirmed with the text that the promise was fulfilled with.\<close>

definition confirmed :: "'j json_api \<Rightarrow> make_handler \<Rightarrow> bool" where
  "confirmed J h \<longleftrightarrow> (\<exists>text. mk_promise h = Promise_Set (Inr text) \<and> captcha_verdict J text = Inr True)"

definition chain_sound :: "'j json_api \<Rightarrow> make_handler \<Rightarrow> bool" where
  "chain_sound J h \<longleftrightarrow> (\<forall>url. mk_chain h = Chain_Cpu url (Inr True) \<longrightarrow> confirmed J h)"

lemma chain_sound_set_promise:
  assumes "chain_sound J h" and "set_promise J r h = Inr h'"
  shows "chain_sound J h'"
  using assms
  by (cases r; cases "mk_chain h")
     (auto simp: chain_sound_def confirmed_def set_promise_def fulfil_chain_def split: promise.splits)

lemma chain_sound_cong:
  "mk_chain h' = mk_chain h \<Longrightarrow> mk_promise h' = mk_promise h \<Longrightarrow> chain_sound J h' = chain_sound J h"
  by (simp add: chain_sound_def confirmed_def)

lemma chain_sound_delete: "chain_sound J h \<Longrightarrow> chain_sound J (delete_handler J h)"
  by (cases "mk_chain h")
     (auto simp: chain_sound_def confirmed_def delete_handler_def fulfil_chain_def split: promise.splits)

lemma make_onEOM_chain:
  assumes "make_onEOM E h = Inr h'"
  shows "mk_promise h' = mk_promise h \<and> (mk_chain h' = mk_chain h \<or> (\<exists>url. mk_chain h' = Chain_Waiting url))"
  using assms
  by (auto simp: make_onEOM_def Let_def res_bind_eq_Inr query_captcha_service_def bad_request_def mk_send_def
      split: if_splits option.splits)

lemma chain_sound_callback:
  assumes "chain_sound (me_json E) h" and "make_callback E cb h = Inr h'"
  shows "chain_sound (me_json E) h'"
proof (cases cb)
  case (On_Request x)
  then have "chain_sound (me_json E) h' = chain_sound (me_json E) h"
    using assms(2) by (intro chain_sound_cong) (auto simp: make_onRequest_def Let_def mk_send_def)
  then show ?thesis using assms(1) by simp
next
  case (On_Body x)
  then have "chain_sound (me_json E) h' = chain_sound (me_json E) h"
    using assms(2) by (intro chain_sound_cong) (auto simp: make_onBody_def split: option.splits)
  then show ?thesis using assms(1) by simp
next
  case On_EOM
  then show ?thesis using make_onEOM_chain[of E h h'] assms by (auto simp: chain_sound_def confirmed_def)
next
  case Request_Complete
  have "chain_sound (me_json E) (h\<lparr>mk_client_terminated := True\<rparr>)"
    using assms(1) chain_sound_cong[of "h\<lparr>mk_client_terminated := True\<rparr>" h "me_json E"] by simp
  then show ?thesis
    using Request_Complete assms(2) chain_sound_delete by (auto simp: make_requestComplete_def)
next
  case On_Error
  have s: "chain_sound (me_json E) (h\<lparr>mk_client_terminated := True\<rparr>)"
    using assms(1) chain_sound_cong[of "h\<lparr>mk_client_terminated := True\<rparr>" h "me_json E"] by simp
  obtain h1 where "set_promise (me_json E) (Inl (Runtime_Error ''proxygenError''))
      (h\<lparr>mk_client_terminated := True\<rparr>) = Inr h1" "h' = delete_handler (me_json E) h1"
    using On_Error assms(2) by (auto simp: make_onError_def res_map_eq_Inr)
  then show ?thesis using chain_sound_delete[OF chain_sound_set_promise[OF s]] by blast
qed (use assms in auto)

lemma chain_sound_captcha:
  assumes "chain_sound J h" and "captcha_callback J e h = Inr h'"
  shows "chain_sound J h'"
proof -
  have u: "chain_sound J (h\<lparr>mk_cs_status := x, mk_cs_body := y\<rparr>)" "chain_sound J (h\<lparr>mk_cs_cancelled := z\<rparr>)" for x y z
    using assms(1) by (simp_all add: chain_sound_def confirmed_def)
  show ?thesis
  proof (cases e)
    case Cs_EOM
    then show ?thesis
      using assms chain_sound_set_promise[OF u(1)]
      by (auto simp: captcha_callback_def captcha_error_defs on_captcha_service_EOM_def split: if_splits option.splits)
  next
    case Cs_Error
    then show ?thesis
      using assms(2) chain_sound_set_promise[OF u(2)] by (auto simp: captcha_callback_def captcha_error_defs)
  qed (use assms in \<open>auto simp: captcha_callback_def captcha_error_defs res_bind_eq_Inr chain_sound_def confirmed_def\<close>)
qed

lemma chain_sound_step:
  assumes "chain_sound (me_json E) h" and "make_step E e (h, st) = Inr (h', st')"
  shows "chain_sound (me_json E) h' \<and> (st' \<noteq> st \<longrightarrow> confirmed (me_json E) h')"
proof (cases e)
  case (Mk_Callback cb)
  then show ?thesis
    using assms chain_sound_callback[OF assms(1)] by (auto simp: res_map_eq_Inr split: if_splits)
next
  case (Captcha ce)
  then show ?thesis
    using assms chain_sound_captcha[OF assms(1)] by (auto simp: res_map_eq_Inr split: if_splits)
next
  case Connect_Success
  then show ?thesis
    using assms by (auto simp: res_map_eq_Inr connectSuccess_def chain_sound_def confirmed_def
        split: if_splits option.splits)
next
  case Connect_Error
  then show ?thesis
    using assms by (auto simp: connectError_def mk_send_def chain_sound_def confirmed_def split: if_splits)
next
  case Run_Shorten
  then show ?thesis
    using assms
    by (auto simp: run_shorten_def chain_sound_def confirmed_def
        split: chain.splits sum.splits bool.splits if_splits prod.splits)
next
  case Run_Mk_Reply
  then show ?thesis
    using assms
    by (auto simp: res_map_eq_Inr run_reply_def mk_send_def chain_sound_def confirmed_def
        split: chain.splits if_splits)
qed

text \<open>
  Responses sent and owed.  Before the request only the missing headers can add a second one,
  so the count starts with the request.
\<close>

definition make_weight :: "make_handler \<times> 'r \<Rightarrow> nat" where
  "make_weight hs =
     length (mk_out (fst hs)) + (case mk_chain (fst hs) of Chain_None \<Rightarrow> 0 | Chain_Done \<Rightarrow> 0 | _ \<Rightarrow> 1)"

fun may_answer :: "'ip make_event \<Rightarrow> bool" where
  "may_answer (Mk_Callback (On_Request req)) = (\<not> is_create req)"
| "may_answer (Mk_Callback On_EOM) = True"
| "may_answer Connect_Error = True"
| "may_answer _ = False"

definition chain_owes :: "chain \<Rightarrow> nat" where
  "chain_owes ch = (case ch of Chain_None \<Rightarrow> 0 | Chain_Done \<Rightarrow> 0 | _ \<Rightarrow> 1)"

lemma chain_owes_simps [simp]:
  "chain_owes Chain_None = 0" "chain_owes Chain_Done = 0" "chain_owes (Chain_Waiting u) = 1"
  "chain_owes (Chain_Cpu u v) = 1" "chain_owes (Chain_Evb w) = 1"
  by (simp_all add: chain_owes_def)

lemma make_weight_owes: "make_weight (h, st) = length (mk_out h) + chain_owes (mk_chain h)"
  by (simp add: make_weight_def chain_owes_def)

lemma chain_owes_fulfil [simp]: "chain_owes (fulfil_chain J r ch) = chain_owes ch"
  by (cases ch) (simp_all add: fulfil_chain_def)

lemma set_promise_frame:
  "set_promise J r h = Inr h' \<Longrightarrow>
   mk_out h' = mk_out h \<and> chain_owes (mk_chain h') = chain_owes (mk_chain h) \<and> mk_headers h' = mk_headers h"
  by (auto simp: set_promise_def split: promise.splits)

lemma delete_handler_frame:
  "mk_out (delete_handler J h) = mk_out h \<and> chain_owes (mk_chain (delete_handler J h)) = chain_owes (mk_chain h) \<and>
   mk_headers (delete_handler J h) = mk_headers h"
  by (auto simp: delete_handler_def split: promise.splits)

lemma make_onEOM_frame:
  assumes "make_onEOM E h = Inr h'" and "mk_headers h"
  shows "mk_headers h' \<and>
    length (mk_out h') + chain_owes (mk_chain h') \<le> length (mk_out h) + chain_owes (mk_chain h) + 1"
  using assms
  by (auto simp: make_onEOM_def Let_def res_bind_eq_Inr query_captcha_service_def bad_request_def mk_send_def
      split: if_splits option.splits)

lemma make_callback_frame:
  assumes "make_callback E cb h = Inr h'" and "mk_headers h"
  shows "mk_headers h' \<and> length (mk_out h') + chain_owes (mk_chain h') \<le>
    length (mk_out h) + chain_owes (mk_chain h) + (if may_answer (Mk_Callback cb) then 1 else 0)"
proof (cases cb)
  case On_EOM
  then show ?thesis using make_onEOM_frame assms by auto
next
  case On_Error
  then obtain h1 where "set_promise (me_json E) (Inl (Runtime_Error ''proxygenError''))
      (h\<lparr>mk_client_terminated := True\<rparr>) = Inr h1" "h' = delete_handler (me_json E) h1"
    using assms(1) by (auto simp: make_onError_def res_map_eq_Inr)
  then show ?thesis
    using set_promise_frame delete_handler_frame[of "me_json E" h1] assms(2) by fastforce
next
  case Request_Complete
  then show ?thesis
    using delete_handler_frame[of "me_json E" "h\<lparr>mk_client_terminated := True\<rparr>"] assms
    by (auto simp: make_requestComplete_def)
qed (use assms in \<open>auto simp: make_onRequest_def is_create_def mk_send_def make_onBody_def Let_def
       split: if_splits option.splits\<close>)

lemma captcha_callback_frame:
  assumes "captcha_callback J e h = Inr h'"
  shows "mk_headers h' = mk_headers h \<and> mk_out h' = mk_out h \<and> chain_owes (mk_chain h') = chain_owes (mk_chain h)"
proof (cases e)
  case Cs_EOM
  then show ?thesis
    using assms set_promise_frame[of J _ "h\<lparr>mk_cs_status := None, mk_cs_body := None\<rparr>" h']
    by (auto simp: captcha_callback_def captcha_error_defs on_captcha_service_EOM_def split: if_splits option.splits)
next
  case Cs_Error
  then show ?thesis
    using assms set_promise_frame[of J _ "h\<lparr>mk_cs_cancelled := True\<rparr>" h'] by (auto simp: captcha_callback_def captcha_error_defs)
qed (use assms in \<open>auto simp: captcha_callback_def captcha_error_defs res_bind_eq_Inr\<close>)

lemma make_step_frame:
  assumes "make_step E e (h, st) = Inr (h', st')" and "mk_headers h"
  shows "mk_headers h' \<and> make_weight (h', st') \<le> make_weight (h, st) + (if may_answer e then 1 else 0)"
proof (cases e)
  case (Mk_Callback cb)
  then show ?thesis
    using assms make_callback_frame[of E cb h h']
    by (auto simp: make_weight_owes res_map_eq_Inr split: if_splits)
next
  case (Captcha ce)
  then show ?thesis
    using assms captcha_callback_frame[of "me_json E" ce h h']
    by (auto simp: make_weight_owes res_map_eq_Inr split: if_splits)
next
  case Run_Shorten
  then show ?thesis
    using assms
    by (auto simp: make_weight_owes run_shorten_def split: chain.splits sum.splits bool.splits if_splits prod.splits)
next
  case Run_Mk_Reply
  then show ?thesis
    using assms
    by (auto simp: make_weight_owes res_map_eq_Inr run_reply_def mk_send_def split: chain.splits if_splits)
qed (use assms in \<open>auto simp: make_weight_owes res_map_eq_Inr connectSuccess_def connectError_def mk_send_def
       split: if_splits option.splits\<close>)

interpretation make: handler
  "make_step E :: 'ip make_event \<Rightarrow> make_handler \<times> 'r \<Rightarrow> (make_handler \<times> 'r) res"
  "\<lambda>hs. chain_sound (me_json E) (fst hs) \<and> mk_headers (fst hs)" make_weight may_answer
  for E :: "('j, 'net, 'r) make_env"
proof
  fix s s' :: "make_handler \<times> 'r" and e :: "'ip make_event"
  assume i: "chain_sound (me_json E) (fst s) \<and> mk_headers (fst s)" and r: "make_step E e s = Inr s'"
  obtain h st h' st' where s: "s = (h, st)" "s' = (h', st')" by (cases s, cases s')
  show "chain_sound (me_json E) (fst s') \<and> mk_headers (fst s')"
    using i r chain_sound_step[of E h e st h' st'] make_step_frame[of E e h st h' st'] by (simp add: s)
  show "make_weight s' \<le> make_weight s + (if may_answer e then 1 else 0)"
    using i r make_step_frame[of E e h st h' st'] by (simp add: s)
qed

text \<open>What a run that changes the database has gone through.\<close>

lemma run_confirmed:
  fixes E :: "('j, 'net, 'r) make_env"
  shows "chain_sound (me_json E) h \<Longrightarrow> run (make_step E) es (h, st) = Inr (h', st') \<Longrightarrow> st' \<noteq> st \<Longrightarrow>
    \<exists>es1 e es2 h1. es = es1 @ e # es2 \<and> run (make_step E) es1 (h, st) = Inr (h1, st) \<and> confirmed (me_json E) h1"
proof (induction es arbitrary: h)
  case (Cons e es)
  then obtain h1 st1 where s: "make_step E e (h, st) = Inr (h1, st1)" "run (make_step E) es (h1, st1) = Inr (h', st')"
    by (auto simp: res_bind_eq_Inr)
  show ?case
  proof (cases "st1 = st")
    case True
    have "chain_sound (me_json E) h1" using chain_sound_step[OF Cons.prems(1) s(1)] by blast
    from Cons.IH[OF this] s(2) True Cons.prems(3)
    obtain es1 e' es2 h2 where "es = es1 @ e' # es2" "run (make_step E) es1 (h1, st) = Inr (h2, st)"
      "confirmed (me_json E) h2" by blast
    then have "e # es = (e # es1) @ e' # es2" "run (make_step E) (e # es1) (h, st) = Inr (h2, st)"
      using s(1) True by simp_all
    then show ?thesis using \<open>confirmed (me_json E) h2\<close> by blast
  next
    case False
    have "confirmed (me_json E) h"
    proof (cases e)
      case Run_Shorten
      then show ?thesis
        using s(1) False Cons.prems(1)
        by (auto simp: run_shorten_def chain_sound_def split: chain.splits sum.splits bool.splits if_splits prod.splits)
    qed (use s(1) False in \<open>auto simp: res_map_eq_Inr split: if_splits\<close>)
    then show ?thesis
      by (intro exI[of _ "[]"] exI[of _ e] exI[of _ es] exI[of _ h]) simp
  qed
qed simp

lemma set_promise_result: "set_promise J r h = Inr h' \<Longrightarrow> mk_promise h = Promise_Open \<and> mk_promise h' = Promise_Set r"
  by (auto simp: set_promise_def split: promise.splits)

lemma make_onError_promise:
  assumes "make_onError J h = Inr h'"
  shows "mk_promise h = Promise_Open \<and> (\<exists>e. mk_promise h' = Promise_Set (Inl e))"
proof -
  obtain h1 where "set_promise J (Inl (Runtime_Error ''proxygenError'')) (h\<lparr>mk_client_terminated := True\<rparr>) = Inr h1"
    "h' = delete_handler J h1"
    using assms by (auto simp: make_onError_def res_map_eq_Inr)
  then show ?thesis using set_promise_result by (fastforce simp: delete_handler_def split: promise.splits)
qed

text \<open>The promise gets a text only from the end of a confirming answer, and keeps what it has.\<close>

lemma make_step_promise:
  assumes "make_step E e (h, st) = Inr (h', st')"
  shows "mk_promise h' = mk_promise h \<or> (\<exists>x. mk_promise h' = Promise_Set (Inl x) \<and> mk_promise h = Promise_Open) \<or>
    (\<exists>text. e = Captcha Cs_EOM \<and> mk_promise h = Promise_Open \<and> mk_promise h' = Promise_Set (Inr text) \<and>
       mk_cs_status h = Some 200 \<and> mk_cs_body h = Some text)"
proof (cases e)
  case (Mk_Callback cb)
  then have c: "make_callback E cb h = Inr h'" using assms by (auto simp: res_map_eq_Inr split: if_splits)
  show ?thesis
  proof (cases cb)
    case On_EOM
    then show ?thesis using c make_onEOM_chain[of E h h'] by simp
  next
    case On_Error
    then show ?thesis using c make_onError_promise[of "me_json E" h h'] by auto
  qed (use c in \<open>auto simp: make_onRequest_def mk_send_def make_onBody_def Let_def make_requestComplete_def
         delete_handler_def split: if_splits option.splits promise.splits\<close>)
next
  case (Captcha ce)
  then have c: "captcha_callback (me_json E) ce h = Inr h'" using assms by (auto simp: res_map_eq_Inr split: if_splits)
  show ?thesis
  proof (cases ce)
    case Cs_EOM
    then show ?thesis
      using c Captcha by (auto simp: captcha_callback_def captcha_error_defs on_captcha_service_EOM_def dest!: set_promise_result
          split: if_splits option.splits)
  next
    case Cs_Error
    then show ?thesis using c by (auto simp: captcha_callback_def captcha_error_defs dest!: set_promise_result)
  qed (use c in \<open>auto simp: captcha_callback_def captcha_error_defs res_bind_eq_Inr\<close>)
next
  case Run_Shorten
  then show ?thesis
    using assms by (auto simp: run_shorten_def split: chain.splits sum.splits bool.splits if_splits prod.splits)
qed (use assms in \<open>auto simp: res_map_eq_Inr connectSuccess_def connectError_def mk_send_def run_reply_def
       split: if_splits option.splits chain.splits\<close>)

lemma run_promise_kept:
  "mk_promise h = Promise_Set r \<Longrightarrow> run (make_step E) es (h, st) = Inr (h', st') \<Longrightarrow> mk_promise h' = Promise_Set r"
proof (induction es arbitrary: h st)
  case (Cons e es)
  then obtain h1 st1 where "make_step E e (h, st) = Inr (h1, st1)" "run (make_step E) es (h1, st1) = Inr (h', st')"
    by (auto simp: res_bind_eq_Inr)
  then show ?case using make_step_promise[of E e h st h1 st1] Cons by auto
qed simp

lemma run_promise_source:
  fixes E :: "('j, 'net, 'r) make_env" and es :: "'ip make_event list"
  shows "mk_promise h = Promise_Open \<Longrightarrow> run (make_step E) es (h, st) = Inr (h', st') \<Longrightarrow>
    mk_promise h' = Promise_Set (Inr text) \<Longrightarrow>
    \<exists>es1 es2 h1 st1. es = es1 @ Captcha Cs_EOM # es2 \<and> run (make_step E) es1 (h, st) = Inr (h1, st1) \<and>
      mk_cs_status h1 = Some 200 \<and> mk_cs_body h1 = Some text"
proof (induction es arbitrary: h st)
  case (Cons e es)
  then obtain h1 st1 where s: "make_step E e (h, st) = Inr (h1, st1)" "run (make_step E) es (h1, st1) = Inr (h', st')"
    by (auto simp: res_bind_eq_Inr)
  show ?case
  proof (cases "mk_promise h1")
    case Promise_Open
    from Cons.IH[OF this s(2) Cons.prems(3)] obtain es1 es2 h2 st2 where
      i: "es = es1 @ Captcha Cs_EOM # es2" "run (make_step E) es1 (h1, st1) = Inr (h2, st2)"
      "mk_cs_status h2 = Some 200" "mk_cs_body h2 = Some text" by blast
    have "run (make_step E) (e # es1) (h, st) = Inr (h2, st2)" using s(1) i(2) by simp
    moreover have "e # es = (e # es1) @ Captcha Cs_EOM # es2" using i(1) by simp
    ultimately show ?thesis using i(3,4) by blast
  next
    case (Promise_Set r)
    then have "mk_promise h' = Promise_Set r" by (rule run_promise_kept[OF _ s(2)])
    then have "r = Inr text" using Cons.prems(3) by simp
    then have "e = Captcha Cs_EOM" "mk_cs_status h = Some 200" "mk_cs_body h = Some text"
      using make_step_promise[OF s(1)] Promise_Set Cons.prems(1) by auto
    then show ?thesis
      by (intro exI[of _ "[]"] exI[of _ es] exI[of _ h] exI[of _ st]) simp
  qed
qed simp

text \<open>
  No URL is stored without a confirmed captcha: in every sequence of events, however the
  callbacks, the service and the executors interleave, a change of the database is preceded
  by the end of an answer of the captcha service with status 200 and a text that is an object
  whose \<open>success\<close> is true.
\<close>

theorem no_url_without_captcha:
  fixes es :: "'ip make_event list"
  assumes "run (make_step E) es (new_MakeUrlRequestHandler, st) = Inr (h', st')" and "st' \<noteq> st"
  shows "\<exists>es1 es2 h1 st1 text. es = es1 @ Captcha Cs_EOM # es2 \<and>
    run (make_step E) es1 (new_MakeUrlRequestHandler, st) = Inr (h1, st1) \<and>
    mk_cs_status h1 = Some 200 \<and> mk_cs_body h1 = Some text \<and> captcha_verdict (me_json E) text = Inr True"
proof -
  have "chain_sound (me_json E) new_MakeUrlRequestHandler"
    by (simp add: chain_sound_def new_MakeUrlRequestHandler_def)
  from run_confirmed[OF this assms] obtain es1 e es2 h1 where
    c: "es = es1 @ e # es2" "run (make_step E) es1 (new_MakeUrlRequestHandler, st) = Inr (h1, st)"
    "confirmed (me_json E) h1" by blast
  then obtain answer where t: "mk_promise h1 = Promise_Set (Inr answer)" "captcha_verdict (me_json E) answer = Inr True"
    by (auto simp: confirmed_def)
  have "mk_promise new_MakeUrlRequestHandler = Promise_Open" by (simp add: new_MakeUrlRequestHandler_def)
  from run_promise_source[OF this c(2) t(1)] obtain es3 es4 h2 st2 where
    "es1 = es3 @ Captcha Cs_EOM # es4" "run (make_step E) es3 (new_MakeUrlRequestHandler, st) = Inr (h2, st2)"
    "mk_cs_status h2 = Some 200" "mk_cs_body h2 = Some answer" by blast
  then show ?thesis using c(1) t(2) by (intro exI[of _ es3] exI[of _ "es4 @ e # es2"]) auto
qed


theorem no_url_without_captcha_witness:
  "\<exists>es1 es2 h1 st1 answer.
     client_events create_request [''req''] @ captcha_events 200 [''yes''] @ [Run_Shorten, Run_Mk_Reply] =
       es1 @ Captcha Cs_EOM # es2 \<and>
     run (make_step (sample_make_env True)) es1 (new_MakeUrlRequestHandler, \<lambda>_. None) = Inr (h1, st1) \<and>
     mk_cs_status h1 = Some 200 \<and> mk_cs_body h1 = Some answer \<and> captcha_verdict sample_json answer = Inr True"
proof -
  let ?E = "sample_make_env True"
  let ?es = "client_events create_request [''req''] @ captcha_events 200 [''yes''] @ [Run_Shorten, Run_Mk_Reply]"
  obtain h where h: "run (make_step ?E) (captcha_events 200 [''yes''] :: nat make_event list)
      (waiting_handler ?E ''req'' ''token'' test_url, \<lambda>_. None) = Inr (h, \<lambda>_. None)"
    "mk_alive h" "mk_chain h = Chain_Cpu test_url (Inr True)"
    using run_captcha[of ?E 200 "[''yes'']" "''req''" "''token''" test_url "\<lambda>_. None", where 'ip = nat] by auto
  have c: "run (make_step ?E) (client_events create_request [''req'']) (new_MakeUrlRequestHandler, \<lambda>_. None) =
      Inr (waiting_handler ?E ''req'' ''token'' test_url, \<lambda>_. None)"
    using run_client_waiting[of create_request "[''req'']" ?E "''token''" test_url "\<lambda>_. None"] by simp
  obtain st' where d: "do_shorten_url (db_get mem_rocksdb) (db_put mem_rocksdb) (default_svc test_key) test_url (\<lambda>_. None) =
      (Inr (slug_at (default_svc test_key) test_url 1), st')"
    using test_run by auto
  have "st' (slug_at (default_svc test_key) test_url 1) = Some test_url"
    using url_store.do_shorten_url_stores[OF url_store_db[OF mem_contract] d] test_slug_nonempty by simp
  then have ne: "st' \<noteq> (\<lambda>_. None)" by auto
  obtain h' where "run (make_step ?E) ?es (new_MakeUrlRequestHandler, \<lambda>_. None) = Inr (h', st')"
    using c h d by (auto simp: run_append run_shorten_def run_reply_def)
  from no_url_without_captcha[OF this ne] show ?thesis by (simp only: sample_make_simps)
qed

section \<open>Faults\<close>

text \<open>A client that sends no body.\<close>

lemma run_client_no_body:
  fixes req :: "'ip http_message"
  assumes "is_create req"
  shows "\<exists>h. run (make_step E) (client_events req []) (new_MakeUrlRequestHandler, st) = Inr (h, st) \<and>
    mk_out h = [Send_With_EOM 400 ''Bad Request'' [] ''''] \<and> mk_chain h = Chain_None"
  using assms
  by (auto simp: client_events_def make_onRequest_def is_create_def new_MakeUrlRequestHandler_def make_onEOM_def
      bad_request_def mk_send_def Let_def)

text \<open>A client that sends one.\<close>

lemma client_message_parsed:
  fixes req :: "'ip http_message"
  assumes "is_create req" and "parts \<noteq> []"
  shows "(case parse_make_request (me_json E) (concat parts) of
      Inl e \<Rightarrow> run (make_step E) (client_events req parts) (new_MakeUrlRequestHandler, st) = Inl Aborts
    | Inr (response, long_url) \<Rightarrow>
        if response = '''' \<or> long_url = ''''
        then \<exists>h. run (make_step E) (client_events req parts) (new_MakeUrlRequestHandler, st) = Inr (h, st) \<and>
               mk_out h = [Send_With_EOM 400 ''Bad Request'' [] ''''] \<and> mk_chain h = Chain_None
        else if \<not> reachable_service E
        then run (make_step E) (client_events req parts) (new_MakeUrlRequestHandler, st) = Inl Aborts
        else run (make_step E) (client_events req parts) (new_MakeUrlRequestHandler, st) =
               Inr (waiting_handler E (concat parts) response long_url, st))"
proof (cases "parse_make_request (me_json E) (concat parts)")
  case (Inl e)
  then have "\<exists>x. e = Throws x"
    by (auto simp: parse_make_request_def split: option.splits if_splits)
  then have "make_onEOM E (new_MakeUrlRequestHandler\<lparr>mk_headers := True, mk_body := Some (concat parts)\<rparr>) = Inl Aborts"
    using Inl by (auto simp: make_onEOM_def new_MakeUrlRequestHandler_def)
  then show ?thesis by (simp add: run_client[OF assms] Inl)
next
  case (Inr p)
  obtain response long_url where p: "p = (response, long_url)" by (cases p)
  show ?thesis
  proof (cases "response = [] \<or> long_url = [] \<or> \<not> reachable_service E")
    case True
    then show ?thesis
      unfolding run_client[OF assms]
      by (auto simp: Inr p make_onEOM_def new_MakeUrlRequestHandler_def bad_request_def
          mk_send_def query_captcha_service_def reachable_service_def Let_def)
  next
    case False
    then show ?thesis
      using run_client_waiting[OF assms, of E response long_url st] Inr p by simp
  qed
qed



lemma waiting_handler_simps [simp]:
  "mk_alive (waiting_handler E b r u)" "mk_chain (waiting_handler E b r u) = Chain_Waiting u"
  "mk_promise (waiting_handler E b r u) = Promise_Open" "\<not> mk_client_terminated (waiting_handler E b r u)"
  "mk_out (waiting_handler E b r u) = []"
  by (simp_all add: waiting_handler_def new_MakeUrlRequestHandler_def)

text \<open>
  C39  When the captcha service cannot be connected to, or the client leaves while its answer is
  awaited, the process uses a deleted handler: the client gets 503 in the first case, but
  deleting the handler breaks the promise, and the error reply at the end of its chain goes
  through the dangling \<open>this\<close>.
\<close>

theorem unanswered_captcha_use_after_free:
  fixes req :: "'ip http_message"
  assumes "is_create req" and "parts \<noteq> []" and "reachable_service E"
    and "parse_make_request (me_json E) (concat parts) = Inr (response, long_url)"
    and "response \<noteq> []" and "long_url \<noteq> []"
  shows "(\<exists>h. run (make_step E) (client_events req parts @ [Connect_Error]) (new_MakeUrlRequestHandler, st) = Inr (h, st) \<and>
           mk_out h = [Send_With_EOM 503 ''Bad Gateway'' [] '''']) \<and>
    run (make_step E) (client_events req parts @ [Connect_Error, Mk_Callback Request_Complete, Run_Shorten, Run_Mk_Reply])
      (new_MakeUrlRequestHandler, st) = Inl Undefined \<and>
    run (make_step E) (client_events req parts @ [Mk_Callback On_Error, Run_Shorten, Run_Mk_Reply])
      (new_MakeUrlRequestHandler, st) = Inl Undefined"
  by (simp add: run_append run_client_waiting[OF assms] connectError_def mk_send_def make_requestComplete_def
      make_onError_def delete_handler_def set_promise_def fulfil_chain_def run_shorten_def run_reply_def)

theorem unanswered_captcha_use_after_free_witness:
  "run (make_step (sample_make_env True))
     (client_events create_request [''req''] @ [Mk_Callback On_Error, Run_Shorten, Run_Mk_Reply])
     (new_MakeUrlRequestHandler, \<lambda>_. None) = Inl Undefined"
  using unanswered_captcha_use_after_free[of create_request "[''req'']" "sample_make_env True" "''token''" test_url
      "\<lambda>_. None"]
  by (simp del: run.simps)

text \<open>
  A client that leaves after the service has answered brings the process down as well: an
  error of the connection fulfils the promise a second time, whose exception meets a
  \<open>noexcept\<close>; a completed request deletes the handler under the continuation that shortens
  the URL, or under its reply.
\<close>

theorem answered_captcha_client_leaves:
  fixes req :: "'ip http_message"
  assumes "is_create req" and "parts \<noteq> []" and "reachable_service E"
    and "parse_make_request (me_json E) (concat parts) = Inr (response, long_url)"
    and "response \<noteq> []" and "long_url \<noteq> []"
  shows "run (make_step E) (client_events req parts @ captcha_events status answer @ [Mk_Callback On_Error])
      (new_MakeUrlRequestHandler, st) = Inl Aborts \<and>
    run (make_step E) (client_events req parts @ captcha_events status answer @
        [Mk_Callback Request_Complete, Run_Shorten, Run_Mk_Reply])
      (new_MakeUrlRequestHandler, st) = Inl Undefined"
proof -
  obtain h where h: "run (make_step E) (captcha_events status answer :: 'ip make_event list)
      (waiting_handler E (concat parts) response long_url, st) = Inr (h, st)"
    "mk_alive h" "mk_chain h = Chain_Cpu long_url (captcha_outcome (me_json E) status answer)"
    "mk_promise h \<noteq> Promise_Open"
    using run_captcha[of E status answer "concat parts" response long_url st, where 'ip = 'ip] by auto
  obtain r where r: "mk_promise h = Promise_Set r" using h(4) by (cases "mk_promise h") auto
  consider e where "captcha_outcome (me_json E) status answer = Inl e"
    | "captcha_outcome (me_json E) status answer = Inr False" | "captcha_outcome (me_json E) status answer = Inr True"
    by (cases "captcha_outcome (me_json E) status answer") auto
  then show ?thesis
    by cases (simp_all add: run_append run_client_waiting[OF assms] h r make_onError_def set_promise_def
        make_requestComplete_def delete_handler_def run_shorten_def run_reply_def)
qed

theorem answered_captcha_client_leaves_witness:
  "run (make_step (sample_make_env True))
     (client_events create_request [''req''] @ captcha_events 200 [''yes''] @ [Mk_Callback On_Error])
     (new_MakeUrlRequestHandler, \<lambda>_. None) = Inl Aborts"
  using answered_captcha_client_leaves[of create_request "[''req'']" "sample_make_env True" "''token''" test_url
      200 "[''yes'']" "\<lambda>_. None"]
  by (simp del: run.simps)

lemma count_answers:
  assumes "\<And>req'. Mk_Callback (On_Request req') \<notin> set es"
  shows "length (filter may_answer es) = count_list es (Mk_Callback On_EOM) + count_list es Connect_Error"
  using assms
proof (induction es)
  case (Cons e es)
  then show ?case by (cases e rule: may_answer.cases) auto
qed simp

text \<open>
  C38  A create request is never answered more often than it ends and the connector fails: in
  every sequence of events after it, in which the handler gets no second request, the responses are
  at most the calls of \<open>onEOM\<close> and of \<open>connectError\<close>.
\<close>

theorem create_answers_bounded:
  fixes req :: "'ip http_message"
  assumes "is_create req" and "\<And>req'. Mk_Callback (On_Request req') \<notin> set es"
    and "run (make_step E) (Mk_Callback (On_Request req) # es) (new_MakeUrlRequestHandler, st) = Inr (h, st')"
  shows "length (mk_out h) \<le> count_list es (Mk_Callback On_EOM) + count_list es Connect_Error"
proof -
  let ?h = "new_MakeUrlRequestHandler\<lparr>mk_headers := True\<rparr>"
  have s: "make_step E (Mk_Callback (On_Request req)) (new_MakeUrlRequestHandler, st) = Inr (?h, st)"
    using assms(1) by (auto simp: make_onRequest_def is_create_def new_MakeUrlRequestHandler_def)
  have r: "run (make_step E) es (?h, st) = Inr (h, st')"
    using assms(3) s by (simp del: make_step.simps)
  have i: "chain_sound (me_json E) (fst (?h, st)) \<and> mk_headers (fst (?h, st))"
    by (simp add: chain_sound_def new_MakeUrlRequestHandler_def)
  have "make_weight (h, st') \<le> make_weight (?h, st) + length (filter may_answer es)"
    using make.run_weight[OF i r] .
  then show ?thesis using count_answers[OF assms(2)] by (simp add: make_weight_owes new_MakeUrlRequestHandler_def)
qed

theorem create_answers_bounded_witness:
  "\<exists>h. run (make_step (sample_make_env True))
       (Mk_Callback (On_Request create_request) # [Mk_Callback On_EOM, Run_Mk_Reply])
       (new_MakeUrlRequestHandler, \<lambda>_. None) = Inr (h, \<lambda>_. None) \<and> length (mk_out h) \<le> 1"
proof -
  obtain h where h: "run (make_step (sample_make_env True))
      (Mk_Callback (On_Request create_request) # [Mk_Callback On_EOM, Run_Mk_Reply])
      (new_MakeUrlRequestHandler, \<lambda>_. None) = Inr (h, \<lambda>_. None)"
    by (simp add: make_onRequest_def create_request_def new_MakeUrlRequestHandler_def make_onEOM_def bad_request_def
        mk_send_def run_reply_def Let_def)
  then show ?thesis using create_answers_bounded[OF _ _ h] by simp
qed

end
