(* ===== verification/Web_Server.thy ===== *)
theory Web_Server
  imports Ddos_Protection Frontend_Handler Redirect_Handler Static_Handler Make_Url_Handler
begin

text \<open>
  \<^verbatim>\<open>url_shortener/web_server.cc\<close>: the handler for paths nobody serves, the factory that routes a
  request to its handler, and the server as one state machine in which any number of requests,
  their handlers' background work and proxygen's callbacks interleave on one event base.  The
  search for a slug is one step of it; the theory on concurrent searches takes that step apart.

  The factories are called in proxygen's order: the chain is built in reverse, so the router
  makes the handler first and \<open>AntiAbuseProtection\<close> is then given it.
\<close>

section \<open>NotFoundHandler\<close>

record not_found_handler =
  nf_alive :: bool
  nf_out :: "downstream_op list"

definition new_NotFoundHandler :: not_found_handler where
  "new_NotFoundHandler = \<lparr>nf_alive = True, nf_out = []\<rparr>"

fun not_found_callback :: "'ip callback \<Rightarrow> not_found_handler \<Rightarrow> not_found_handler" where
  "not_found_callback (On_Request req) h = h\<lparr>nf_out := nf_out h @ [Send_With_EOM 404 ''Not Found'' [] '''']\<rparr>"
| "not_found_callback Request_Complete h = h\<lparr>nf_alive := False\<rparr>"
| "not_found_callback On_Error h = h\<lparr>nf_alive := False\<rparr>"
| "not_found_callback (On_Body body) h = h"
| "not_found_callback On_EOM h = h"
| "not_found_callback On_Upgrade h = h"
| "not_found_callback On_Egress_Paused h = h"
| "not_found_callback On_Egress_Resumed h = h"

definition not_found_step :: "'ip callback \<Rightarrow> not_found_handler \<Rightarrow> not_found_handler res" where
  "not_found_step e h = (if nf_alive h then Inr (not_found_callback e h) else Inl Undefined)"

interpretation not_found: handler
  "not_found_step :: 'ip callback \<Rightarrow> not_found_handler \<Rightarrow> not_found_handler res"
  "\<lambda>h. True" "\<lambda>h. length (nf_out h)" is_request
proof
  fix e :: "'ip callback" and s s' :: not_found_handler
  assume "not_found_step e s = Inr s'"
  then show "length (nf_out s') \<le> length (nf_out s) + (if is_request e then 1 else 0)"
    by (cases e) (auto simp: not_found_step_def split: if_splits)
qed simp

section \<open>Routing\<close>

datatype handler_obj =
    Obj_Frontend frontend_handler
  | Obj_Static static_handler
  | Obj_Make make_handler
  | Obj_Redirect redirect_handler
  | Obj_Not_Found not_found_handler

text \<open>What the factories hold: the handlers' parameters, the frontend files and folly's addresses.\<close>

record ('j, 'net, 'r, 'ip) server_env =
  se_make :: "('j, 'net, 'r) make_env"
  se_open_file :: "path \<Rightarrow> string option"
  se_frontend :: dir_cache
  se_inSubnet :: "'ip \<Rightarrow> 'net \<Rightarrow> bool"
  se_tryFromString :: "string \<Rightarrow> 'ip option"

abbreviation se_config :: "('j, 'net, 'r, 'ip) server_env \<Rightarrow> 'net ReadOnlyAppConfig" where
  "se_config E \<equiv> me_config (se_make E)"

abbreviation se_db :: "('j, 'net, 'r, 'ip) server_env \<Rightarrow> 'r rocksdb" where
  "se_db E \<equiv> me_db (se_make E)"

text \<open>\<open>MyRequestHandlerFactory::onRequest\<close>.\<close>

definition route :: "('j, 'net, 'r, 'ip) server_env \<Rightarrow> 'ip http_message \<Rightarrow> handler_obj res" where
  "route E msg =
     (let path = msg_path msg; method = msg_method msg in
      at_noexcept
        (res_bind (frontend_lookup (se_frontend E) path) (\<lambda>maybe_frontend.
           case maybe_frontend of
             Some h \<Rightarrow> Inr (Obj_Frontend h)
           | None \<Rightarrow>
               if starts_with path ''/static/'' \<and> method = Some GET
               then Inr (Obj_Static (new_StaticHandler (static_file_doc_root (se_config E))))
               else if starts_with path ''/api/''
               then (if path = ''/api/v1/create'' \<and> (method = Some POST \<or> method = Some PUT)
                     then Inr (Obj_Make new_MakeUrlRequestHandler)
                     else Inr (Obj_Not_Found new_NotFoundHandler))
               else res_bind (parse_out_request_str path) (\<lambda>parsed.
                      if length parsed > 0 \<and> method = Some GET
                      then Inr (Obj_Redirect (new_UrlRedirectHandler parsed))
                      else Inr (Obj_Not_Found new_NotFoundHandler)))))"

section \<open>One transaction\<close>

text \<open>
  What the handlers share: the database, the cache of static files, which the factory owns
  (the handlers hold weak pointers to it), and the timer wheel of the connectors, with its
  timeout in milliseconds.
\<close>

record 'r world =
  w_db :: 'r
  w_cache :: "file_cache option"
  w_timer :: "nat option"

definition factory_onServerStart :: "'r world \<Rightarrow> 'r world" where
  "factory_onServerStart w = w\<lparr>w_cache := Some Map.empty, w_timer := Some 5000\<rparr>"

definition factory_onServerStop :: "'r world \<Rightarrow> 'r world" where
  "factory_onServerStop w = w\<lparr>w_cache := None, w_timer := None\<rparr>"

text \<open>A callback of proxygen, or a piece of the work the handlers have queued elsewhere.\<close>

datatype 'ip obj_event =
    Client "'ip callback"
  | File_Read nat "nat option"
  | File_Task
  | Url_Lookup
  | Url_Reply
  | Captcha_Connected
  | Captcha_Unreachable
  | Captcha_Service captcha_event
  | Shorten_Url
  | Shorten_Reply

fun static_event_of :: "'ip obj_event \<Rightarrow> 'ip static_event option" where
  "static_event_of (Client e) = Some (Sh_Callback e)"
| "static_event_of (File_Read i rc) = Some (Reader_Step i rc)"
| "static_event_of File_Task = Some Run_Task"
| "static_event_of _ = None"

fun redirect_event_of :: "'ip obj_event \<Rightarrow> 'ip redirect_event option" where
  "redirect_event_of (Client e) = Some (Rd_Callback e)"
| "redirect_event_of Url_Lookup = Some Run_Lookup"
| "redirect_event_of Url_Reply = Some Run_Reply"
| "redirect_event_of _ = None"

fun make_event_of :: "'ip obj_event \<Rightarrow> 'ip make_event option" where
  "make_event_of (Client e) = Some (Mk_Callback e)"
| "make_event_of Captcha_Connected = Some Connect_Success"
| "make_event_of Captcha_Unreachable = Some Connect_Error"
| "make_event_of (Captcha_Service e) = Some (Captcha e)"
| "make_event_of Shorten_Url = Some Run_Shorten"
| "make_event_of Shorten_Reply = Some Run_Mk_Reply"
| "make_event_of _ = None"

fun callback_of :: "'ip obj_event \<Rightarrow> 'ip callback option" where
  "callback_of (Client e) = Some e"
| "callback_of _ = None"

text \<open>An event that is none of a handler's leaves it as it is.\<close>

definition step_if :: "('e \<Rightarrow> 's \<Rightarrow> 's res) \<Rightarrow> 'e option \<Rightarrow> 's \<Rightarrow> 's res" where
  "step_if step e s = (case e of None \<Rightarrow> Inr s | Some e' \<Rightarrow> step e' s)"

fun obj_step ::
  "('j, 'net, 'r, 'ip) server_env \<Rightarrow> 'ip obj_event \<Rightarrow> handler_obj \<times> 'r world \<Rightarrow> (handler_obj \<times> 'r world) res" where
  "obj_step E ev (Obj_Frontend h, w) =
     res_map (\<lambda>h'. (Obj_Frontend h', w)) (step_if frontend_step (callback_of ev) h)"
| "obj_step E ev (Obj_Not_Found h, w) =
     res_map (\<lambda>h'. (Obj_Not_Found h', w)) (step_if not_found_step (callback_of ev) h)"
| "obj_step E ev (Obj_Static h, w) =
     res_map (\<lambda>(h', c). (Obj_Static h', w\<lparr>w_cache := c\<rparr>))
       (step_if (static_step (se_open_file E)) (static_event_of ev) (h, w_cache w))"
| "obj_step E ev (Obj_Redirect h, w) =
     res_map (\<lambda>(h', st). (Obj_Redirect h', w\<lparr>w_db := st\<rparr>))
       (step_if (redirect_step (se_db E)) (redirect_event_of ev) (h, w_db w))"
| "obj_step E ev (Obj_Make h, w) =
     res_map (\<lambda>(h', st). (Obj_Make h', w\<lparr>w_db := st\<rparr>))
       (step_if (make_step (se_make E)) (make_event_of ev) (h, w_db w))"

text \<open>The handler stands behind the rate limiter's filter when the request was limited.\<close>

datatype txn = Plain handler_obj | Filtered "handler_obj rate_limit_filter"

fun txn_step ::
  "('j, 'net, 'r, 'ip) server_env \<Rightarrow> 'ip obj_event \<Rightarrow> txn \<times> 'r world \<Rightarrow> (txn \<times> 'r world) res" where
  "txn_step E ev (Plain ob, w) = res_map (apfst Plain) (obj_step E ev (ob, w))"
| "txn_step E (Client e) (Filtered f, w) =
     res_map (apfst Filtered) (rl_step (\<lambda>e. obj_step E (Client e)) e (f, w))"
| "txn_step E ev (Filtered f, w) =
     res_map (apfst (\<lambda>ob. Filtered (f\<lparr>rl_object := ob\<rparr>))) (obj_step E ev (rl_object f, w))"

section \<open>The server\<close>

record ('ip, 'r) server =
  sv_txns :: "txn list"
  sv_world :: "'r world"
  sv_counts :: "'ip svc_ptr"

text \<open>
  A server with one thread, between the factories' \<open>onServerStart\<close> and their \<open>onServerStop\<close>.
\<close>

definition start_server ::
  "('j, 'net, 'r, 'ip) server_env \<Rightarrow> int \<Rightarrow> 'r \<Rightarrow> ('ip, 'r) server" where
  "start_server E now db =
     \<lparr>sv_txns = [], sv_world = factory_onServerStart \<lparr>w_db = db, w_cache = None, w_timer = None\<rparr>,
      sv_counts = aap_onServerStart (se_config E) now Null_Svc\<rparr>"

text \<open>The handler chain of a new request.\<close>

definition server_onRequest ::
  "('j, 'net, 'r, 'ip) server_env \<Rightarrow> int \<times> int \<times> int \<Rightarrow> 'ip http_message \<Rightarrow> 'ip svc_ptr \<Rightarrow>
   (txn \<times> 'ip svc_ptr) res" where
  "server_onRequest E clock msg ptr =
     res_bind (route E msg) (\<lambda>h.
     res_map (\<lambda>(v, ptr'). (case v of Pass \<Rightarrow> Plain h | Limited \<Rightarrow> Filtered (new_RateLimitFilter h), ptr'))
       (aap_onRequest (se_inSubnet E) (se_tryFromString E) (se_config E) clock msg ptr))"

text \<open>
  A new request with the clock readings made for it, or an event of the transaction with the
  given number.  Transactions are numbered in the order they arrive and keep their number.
\<close>

datatype 'ip server_event = Accept "int \<times> int \<times> int" "'ip http_message" | At nat "'ip obj_event"

fun server_step ::
  "('j, 'net, 'r, 'ip) server_env \<Rightarrow> 'ip server_event \<Rightarrow> ('ip, 'r) server \<Rightarrow> ('ip, 'r) server res" where
  "server_step E (Accept clock msg) s =
     res_bind (server_onRequest E clock msg (sv_counts s)) (\<lambda>(t, ptr).
     res_map (\<lambda>(t', w). s\<lparr>sv_txns := sv_txns s @ [t'], sv_world := w, sv_counts := ptr\<rparr>)
       (txn_step E (Client (On_Request msg)) (t, sv_world s)))"
| "server_step E (At i ev) s =
     (if i < length (sv_txns s)
      then res_map (\<lambda>(t', w). s\<lparr>sv_txns := (sv_txns s)[i := t'], sv_world := w\<rparr>)
             (txn_step E ev (sv_txns s ! i, sv_world s))
      else Inr s)"

section \<open>The routing table\<close>

text \<open>
  C8  Every request is routed by this table, and by nothing else: a file of the frontend wins
  over everything; then come static files, the one route of the API, and slugs for the rest.
  A request with an empty path reads past the end of a string.
\<close>

theorem route_table:
  "route E msg =
     (let path = msg_path msg; method = msg_method msg in
      if path = '''' then Inl Undefined
      else case (if hd path = CHR ''/'' then se_frontend E (lookup_key path) else None) of
        Some data \<Rightarrow> Inr (Obj_Frontend (new_FrontendHandler (Some data) (infer_mime_type (lookup_key path))))
      | None \<Rightarrow>
          if starts_with path ''/static/'' \<and> method = Some GET
          then Inr (Obj_Static (new_StaticHandler (static_file_doc_root (se_config E))))
          else if path = ''/api/v1/create'' \<and> method \<in> {Some POST, Some PUT}
          then Inr (Obj_Make new_MakeUrlRequestHandler)
          else if \<not> starts_with path ''/api/'' \<and> method = Some GET \<and> (\<exists>slug. slug_request path slug)
          then Inr (Obj_Redirect (new_UrlRedirectHandler (THE slug. slug_request path slug)))
          else Inr (Obj_Not_Found new_NotFoundHandler))"
proof (cases "msg_path msg = ''''")
  case True
  then show ?thesis by (simp add: route_def frontend_lookup_def)
next
  case False
  then obtain s where s: "parse_out_request_str (msg_path msg) = Inr s"
    using parse_out_request_str_total by blast
  have the: "slug_request (msg_path msg) x \<longleftrightarrow> s = x \<and> s \<noteq> []" for x
    using parse_slug_request[of "msg_path msg" x] s by auto
  have api: "starts_with ''/api/v1/create'' ''/api/''" by (simp add: starts_with_def)
  let ?p = "msg_path msg"
  let ?mk = "\<lambda>data. new_FrontendHandler (Some data) (infer_mime_type (lookup_key ?p))"
  let ?hit = "if hd ?p = CHR ''/'' then se_frontend E (lookup_key ?p) else None"
  have fl: "frontend_lookup (se_frontend E) ?p = Inr (map_option ?mk ?hit)"
    using False by (simp add: frontend_lookup_def split: option.split)
  show ?thesis
  proof (cases ?hit)
    case (Some data)
    then show ?thesis using False unfolding route_def Let_def fl by simp
  next
    case None
    show ?thesis
    proof (cases "s = ''''")
      case True
      then have "slug_request ?p = (\<lambda>_. False)" using the by auto
      with True s None False api show ?thesis unfolding route_def Let_def fl by auto
    next
      case nonempty: False
      then have "slug_request ?p = (=) s" using the by auto
      with nonempty s None False api show ?thesis unfolding route_def Let_def fl by auto
    qed
  qed
qed

end
