(* ===== verification/Server_Invariant.thy ===== *)
theory Server_Invariant
  imports Web_Server
begin

text \<open>
  What every event of the server keeps, wherever it happens: the entries of the database, and a
  property of each handler for new short URLs.  The argument from the steps of a handler to the
  runs of the server is made once, in the locale \<open>make_invariant\<close>.
\<close>

section \<open>What the steps change\<close>

text \<open>The handler of a transaction, and the relation of the stored entries before and after.\<close>

fun obj_of :: "txn \<Rightarrow> handler_obj" where
  "obj_of (Plain ob) = ob"
| "obj_of (Filtered f) = rl_object f"

definition keeps :: "('r \<Rightarrow> string \<Rightarrow> string option) \<Rightarrow> 'r \<Rightarrow> 'r \<Rightarrow> bool" where
  "keeps view st st' \<longleftrightarrow> (\<forall>k v. v \<noteq> [] \<longrightarrow> view st k = Some v \<longrightarrow> view st' k = Some v)"

lemma keeps_refl [simp, intro]: "keeps view st st"
  by (simp add: keeps_def)

lemma keeps_trans: "keeps view st st1 \<Longrightarrow> keeps view st1 st2 \<Longrightarrow> keeps view st st2"
  by (simp add: keeps_def)

lemma keepsD: "keeps view st st' \<Longrightarrow> view st k = Some v \<Longrightarrow> v \<noteq> [] \<Longrightarrow> view st' k = Some v"
  by (simp add: keeps_def)

lemma keeps_same: "view st' = view st \<Longrightarrow> keeps view st st'"
  by (simp add: keeps_def)

text \<open>A database that meets its contract, and slugs of which no hundred fit into the hash.\<close>

definition server_ok :: "('j, 'net, 'r, 'ip) server_env \<Rightarrow> ('r \<Rightarrow> string \<Rightarrow> string option) \<Rightarrow> bool" where
  "server_ok E view \<longleftrightarrow>
     rocksdb_contract (se_db E) view \<and> base_ok (me_svc (se_make E)) \<and> 3 \<le> usc_slug_length (me_svc (se_make E))"

lemma redirect_step_view:
  assumes "rocksdb_contract R view" and "redirect_step R e (h, st) = Inr (h', st')"
  shows "view st' = view st"
  using assms
  by (cases e)
     (auto simp: redirect_lookup_def db_get_fast_def rocksdb_contract_def split: if_splits prod.splits)

lemma make_step_view:
  assumes "rocksdb_contract (me_db E) view" and "base_ok (me_svc E)" and "3 \<le> usc_slug_length (me_svc E)"
    and "make_step E e (h, st) = Inr (h', st')"
  shows "keeps view st st'"
proof (cases e)
  case Run_Shorten
  note preserves = url_store.do_shorten_url_preserves[OF url_store_db[OF assms(1)] _
      tries_bounded_if_long[OF assms(2,3)]]
  from Run_Shorten assms(4) show ?thesis
    by (auto simp: run_shorten_def keeps_def dest: preserves
        split: chain.splits sum.splits bool.splits if_splits prod.splits)
qed (use assms(4) in \<open>auto simp: res_map_eq_Inr split: if_splits\<close>)

text \<open>What a filter does to its object are callbacks of the object, or nothing.\<close>

lemma rl_step_object:
  assumes "rl_step upcall e (f, w) = Inr (f', w')"
  shows "(rl_object f', w') = (rl_object f, w) \<or> (\<exists>e'. upcall e' (rl_object f, w) = Inr (rl_object f', w'))"
  using assms
  by (cases e) (auto simp: rl_defs res_map_eq_Inr split: if_splits)

lemma txn_step_object:
  assumes "txn_step E ev (t, w) = Inr (t', w')"
  shows "(obj_of t', w') = (obj_of t, w) \<or>
    (\<exists>ev'. obj_step E ev' (obj_of t, w) = Inr (obj_of t', w'))"
proof (cases t)
  case (Plain ob)
  then show ?thesis using assms by (auto simp: res_map_eq_Inr)
next
  case (Filtered f)
  show ?thesis
  proof (cases ev)
    case (Client e)
    then obtain f' where r: "rl_step (\<lambda>e. obj_step E (Client e)) e (f, w) = Inr (f', w')" "t' = Filtered f'"
      using assms Filtered by (auto simp: res_map_eq_Inr)
    show ?thesis using rl_step_object[OF r(1)] r(2) Filtered by auto
  qed (use assms Filtered in \<open>auto simp: res_map_eq_Inr\<close>)
qed

lemma server_onRequest_object:
  "server_onRequest E clock msg ptr = Inr (t, ptr') \<Longrightarrow> route E msg = Inr (obj_of t)"
  by (auto simp: server_onRequest_def res_bind_eq_Inr res_map_eq_Inr)
     (metis new_RateLimitFilter_def obj_of.simps rate_limit_filter.select_convs(3) verdict.exhaust verdict.simps(3,4))

section \<open>What a step makes of a create request\<close>

text \<open>The client has sent a message that asks for this URL.\<close>

definition asked :: "'j json_api \<Rightarrow> make_handler \<Rightarrow> string \<Rightarrow> bool" where
  "asked J h url \<longleftrightarrow>
     (\<exists>b rest r. mk_body h = Some (b @ rest) \<and> parse_make_request J b = Inr (r, url) \<and> url \<noteq> [])"

definition answered :: "make_handler \<Rightarrow> string \<Rightarrow> bool" where
  "answered h slug \<longleftrightarrow> Send_With_EOM 200 ''OK'' allow_origin slug \<in> set (mk_out h)"

fun carried :: "chain \<Rightarrow> string option" where
  "carried (Chain_Waiting url) = Some url"
| "carried (Chain_Cpu url v) = Some url"
| "carried _ = None"

definition holds_slug :: "make_handler \<Rightarrow> string \<Rightarrow> bool" where
  "holds_slug h slug \<longleftrightarrow> answered h slug \<or> mk_chain h = Chain_Evb (Inr slug) \<and> slug \<noteq> []"

lemma asked_nonempty: "asked J h url \<Longrightarrow> url \<noteq> []"
  by (auto simp: asked_def)

lemma asked_cong: "mk_body h' = mk_body h \<Longrightarrow> asked J h' url = asked J h url"
  by (simp add: asked_def)

text \<open>
  Steps that do not search: what has been asked for stays asked for, the URL that is carried is
  the same or one that is asked for, and no slug is sent that was not held before.
\<close>

definition make_frame :: "'j json_api \<Rightarrow> make_handler \<Rightarrow> make_handler \<Rightarrow> bool" where
  "make_frame J h h' \<longleftrightarrow>
     (\<forall>url. asked J h url \<longrightarrow> asked J h' url) \<and>
     (\<forall>url. carried (mk_chain h') = Some url \<longrightarrow> carried (mk_chain h) = Some url \<or> asked J h' url) \<and>
     (\<forall>slug. holds_slug h' slug \<longrightarrow> holds_slug h slug)"

lemma make_frame_same:
  assumes body: "mk_body h' = mk_body h"
    and "\<And>url. carried (mk_chain h') = Some url \<Longrightarrow> carried (mk_chain h) = Some url"
    and "\<And>slug. holds_slug h' slug \<Longrightarrow> holds_slug h slug"
  shows "make_frame J h h'"
  using assms(2,3) by (simp add: make_frame_def asked_cong[OF body])

lemma make_frame_refl [simp]: "make_frame J h h"
  by (simp add: make_frame_same)

lemma make_frame_trans: "make_frame J h h1 \<Longrightarrow> make_frame J h1 h' \<Longrightarrow> make_frame J h h'"
  unfolding make_frame_def by blast

lemma carried_fulfil [simp]: "carried (fulfil_chain J r ch) = carried ch"
  by (cases ch) (simp_all add: fulfil_chain_def)

lemma fulfil_chain_evb [simp]: "fulfil_chain J r ch = Chain_Evb x \<longleftrightarrow> ch = Chain_Evb x"
  by (cases ch) (simp_all add: fulfil_chain_def)

lemmas make_frame_defs = holds_slug_def answered_def mk_send_def bad_request_def

lemma make_frame_set_promise: "set_promise J r h = Inr h' \<Longrightarrow> make_frame J h h'"
  by (rule make_frame_same) (auto simp: set_promise_def make_frame_defs split: promise.splits)

lemma make_frame_delete: "make_frame J h (delete_handler J h)"
  by (rule make_frame_same) (auto simp: delete_handler_def make_frame_defs split: promise.splits)

lemma make_frame_update:
  "make_frame J h (h\<lparr>mk_client_terminated := a\<rparr>)" "make_frame J h (h\<lparr>mk_cs_cancelled := a\<rparr>)"
  "make_frame J h (h\<lparr>mk_cs_status := b, mk_cs_body := c\<rparr>)"
  by (rule make_frame_same; simp add: holds_slug_def answered_def)+

lemma make_frame_onEOM:
  assumes "make_onEOM E h = Inr h'"
  shows "make_frame (me_json E) h h'"
proof -
  have w: "mk_body h' = mk_body h \<and> (holds_slug h' slug \<longrightarrow> holds_slug h slug) \<and>
    (mk_chain h' = mk_chain h \<or>
     (\<exists>b r url. mk_body h = Some b \<and> parse_make_request (me_json E) b = Inr (r, url) \<and> url \<noteq> [] \<and>
        mk_chain h' = Chain_Waiting url))" for slug
    using assms
    by (auto simp: make_onEOM_def Let_def res_bind_eq_Inr query_captcha_service_def make_frame_defs
        split: if_splits option.splits)
  then have "asked (me_json E) h' url \<or> carried (mk_chain h) = Some url" if "carried (mk_chain h') = Some url" for url
    using that by (force simp: asked_def)
  with w show ?thesis by (auto simp: make_frame_def asked_def)
qed

lemma make_frame_callback:
  assumes run: "make_callback E cb h = Inr h'"
  shows "make_frame (me_json E) h h'"
proof (cases cb)
  case (On_Request req)
  then show ?thesis
    using run by (intro make_frame_same) (auto simp: make_onRequest_def Let_def make_frame_defs split: if_splits)
next
  case (On_Body b)
  have "asked (me_json E) h' url" if "asked (me_json E) h url" for url
    using that run On_Body by (auto simp: asked_def make_onBody_def) metis
  then show ?thesis
    using run On_Body by (auto simp: make_frame_def make_onBody_def make_frame_defs split: option.splits)
next
  case On_EOM
  then show ?thesis using make_frame_onEOM run by simp
next
  case Request_Complete
  then show ?thesis
    using run make_frame_trans[OF make_frame_update(1) make_frame_delete] by (auto simp: make_requestComplete_def)
next
  case On_Error
  then show ?thesis
    using run make_frame_trans[OF make_frame_trans[OF make_frame_update(1) make_frame_set_promise] make_frame_delete]
    by (auto simp: make_onError_def res_map_eq_Inr)
qed (use run in auto)

lemma make_frame_captcha:
  assumes run: "captcha_callback J e h = Inr h'"
  shows "make_frame J h h'"
proof (cases e)
  case Cs_EOM
  then show ?thesis
    using run make_frame_trans[OF make_frame_update(3) make_frame_set_promise]
    by (auto simp: captcha_callback_def captcha_error_defs on_captcha_service_EOM_def split: if_splits option.splits)
next
  case Cs_Error
  then show ?thesis
    using run make_frame_trans[OF make_frame_update(2) make_frame_set_promise]
    by (auto simp: captcha_callback_def captcha_error_defs)
qed (use run in \<open>auto simp: captcha_callback_def captcha_error_defs res_bind_eq_Inr make_frame_defs intro!: make_frame_same\<close>)

lemma make_frame_step:
  assumes "make_step E e (h, st) = Inr (h', st')" and "e \<noteq> Run_Shorten"
  shows "make_frame (me_json E) h h'"
proof (cases e)
  case (Mk_Callback cb)
  then show ?thesis using make_frame_callback assms by (auto simp: res_map_eq_Inr split: if_splits)
next
  case (Captcha ce)
  then show ?thesis using make_frame_captcha assms by (auto simp: res_map_eq_Inr split: if_splits)
next
  case Run_Mk_Reply
  then show ?thesis
    using assms
    by (intro make_frame_same)
       (auto simp: res_map_eq_Inr run_reply_def make_frame_defs split: chain.splits if_splits sum.splits)
next
  case Connect_Success
  then show ?thesis
    using assms
    by (intro make_frame_same)
       (auto simp: res_map_eq_Inr connectSuccess_def make_frame_defs split: if_splits option.splits)
next
  case Connect_Error
  then show ?thesis
    using assms by (intro make_frame_same) (auto simp: connectError_def make_frame_defs split: if_splits)
qed (use assms(2) in simp)

section \<open>Invariants of the create requests of a server\<close>

text \<open>
  What a property of the handlers for new short URLs, that may speak of the database, has to
  meet to hold of all of them in every run of the server: a new handler has it, its own steps keep it,
  and so does whatever the steps of others do to the database.
\<close>

locale make_invariant =
  fixes E :: "('j, 'net, 'r, 'ip) server_env" and P :: "'r \<Rightarrow> make_handler \<Rightarrow> bool" and kept :: "'r \<Rightarrow> 'r \<Rightarrow> bool"
  assumes new_handler: "P st new_MakeUrlRequestHandler"
    and make_keeps: "make_step (se_make E) (e :: 'ip make_event) (h, st) = Inr (h', st') \<Longrightarrow> kept st st'"
    and make_inv: "make_step (se_make E) (e :: 'ip make_event) (h, st) = Inr (h', st') \<Longrightarrow> P st h \<Longrightarrow> P st' h'"
    and redirect_keeps:
      "redirect_step (se_db E) (re :: 'ip redirect_event) (rd, st) = Inr (rd', st') \<Longrightarrow> kept st st'"
    and kept_refl: "kept st st"
    and stable: "P st h \<Longrightarrow> kept st st' \<Longrightarrow> P st' h"
begin

definition obj_inv :: "'r \<Rightarrow> handler_obj \<Rightarrow> bool" where
  "obj_inv st ob \<longleftrightarrow> (\<forall>h. ob = Obj_Make h \<longrightarrow> P st h)"

definition server_inv :: "('ip, 'r) server \<Rightarrow> bool" where
  "server_inv s \<longleftrightarrow> (\<forall>t \<in> set (sv_txns s). obj_inv (w_db (sv_world s)) (obj_of t))"

lemma obj_inv_kept: "obj_inv st ob \<Longrightarrow> kept st st' \<Longrightarrow> obj_inv st' ob"
  by (auto simp: obj_inv_def intro: stable)

lemma obj_step_inv:
  assumes step: "obj_step E ev (ob, w) = Inr (ob', w')"
  shows "kept (w_db w) (w_db w') \<and> (obj_inv (w_db w) ob \<longrightarrow> obj_inv (w_db w') ob')"
proof (cases ob)
  case (Obj_Redirect h)
  then show ?thesis
    using step redirect_keeps kept_refl by (auto simp: res_map_eq_Inr step_if_def obj_inv_def split: option.splits)
next
  case (Obj_Make h)
  then show ?thesis
    using step make_keeps make_inv kept_refl
    by (auto simp: res_map_eq_Inr step_if_def obj_inv_def split: option.splits)
qed (use step kept_refl in \<open>auto simp: res_map_eq_Inr step_if_def obj_inv_def split: option.splits\<close>)

lemma txn_step_inv:
  assumes "txn_step E ev (t, w) = Inr (t', w')"
  shows "kept (w_db w) (w_db w') \<and> (obj_inv (w_db w) (obj_of t) \<longrightarrow> obj_inv (w_db w') (obj_of t'))"
  using txn_step_object[OF assms] obj_step_inv kept_refl by auto

lemma route_inv: "route E msg = Inr ob \<Longrightarrow> obj_inv st ob"
  using new_handler
  by (auto simp: route_def Let_def obj_inv_def res_bind_eq_Inr split: option.splits if_splits)

lemma server_step_inv:
  assumes step: "server_step E ev s = Inr s'"
  shows "kept (w_db (sv_world s)) (w_db (sv_world s')) \<and> (server_inv s \<longrightarrow> server_inv s')"
proof (cases ev)
  case (Accept clock msg)
  then obtain t ptr t' w where t: "server_onRequest E clock msg (sv_counts s) = Inr (t, ptr)"
    "txn_step E (Client (On_Request msg)) (t, sv_world s) = Inr (t', w)"
    "s' = s\<lparr>sv_txns := sv_txns s @ [t'], sv_world := w, sv_counts := ptr\<rparr>"
    using step by (auto simp: res_bind_eq_Inr res_map_eq_Inr)
  note k = txn_step_inv[OF t(2)]
  have "obj_inv (w_db (sv_world s)) (obj_of t)"
    using route_inv[OF server_onRequest_object[OF t(1)]] .
  then show ?thesis using k t(3) by (auto simp: server_inv_def intro: obj_inv_kept)
next
  case (At i oe)
  show ?thesis
  proof (cases "i < length (sv_txns s)")
    case True
    then obtain t' w where t: "txn_step E oe (sv_txns s ! i, sv_world s) = Inr (t', w)"
      "s' = s\<lparr>sv_txns := (sv_txns s)[i := t'], sv_world := w\<rparr>"
      using step At by (auto simp: res_map_eq_Inr)
    note k = txn_step_inv[OF t(1)]
    have "obj_inv (w_db w) (obj_of t'')" if "server_inv s" "t'' \<in> set ((sv_txns s)[i := t'])" for t''
      using that(2)[THEN set_update_subset_insert[THEN subsetD]] that(1) k nth_mem[OF True]
      by (auto simp: server_inv_def intro: obj_inv_kept)
    then show ?thesis using k t(2) by (simp add: server_inv_def)
  qed (use step At kept_refl in auto)
qed

lemma server_invD:
  "server_inv s \<Longrightarrow> k < length (sv_txns s) \<Longrightarrow> obj_of (sv_txns s ! k) = Obj_Make h \<Longrightarrow> P (w_db (sv_world s)) h"
  using nth_mem by (fastforce simp: server_inv_def obj_inv_def)

end

fun is_accept :: "'ip server_event \<Rightarrow> bool" where
  "is_accept (Accept clock msg) = True"
| "is_accept (At i ev) = False"

lemma server_step_length:
  "server_step E ev s = Inr s' \<Longrightarrow> length (sv_txns s') = length (sv_txns s) + (if is_accept ev then 1 else 0)"
  by (cases ev) (auto simp: res_bind_eq_Inr res_map_eq_Inr split: if_splits)

section \<open>What is asked for, and what is stored\<close>

text \<open>The URL a handler carries was asked for, and it searches only if the captcha is confirmed.\<close>

definition make_sound :: "'j json_api \<Rightarrow> make_handler \<Rightarrow> bool" where
  "make_sound J h \<longleftrightarrow> (\<forall>url. carried (mk_chain h) = Some url \<longrightarrow> asked J h url) \<and> chain_sound J h"

lemma make_sound_new [simp]: "make_sound J new_MakeUrlRequestHandler"
  by (simp add: make_sound_def chain_sound_def new_MakeUrlRequestHandler_def)

lemma make_sound_step:
  assumes sound: "make_sound (me_json E) h" and step: "make_step E e (h, st) = Inr (h', st')"
  shows "make_sound (me_json E) h'"
proof (cases "e = Run_Shorten")
  case True
  then have "mk_body h' = mk_body h" "carried (mk_chain h') = Some url \<Longrightarrow> carried (mk_chain h) = Some url" for url
    using step by (auto simp: run_shorten_def split: chain.splits sum.splits bool.splits if_splits prod.splits)
  then show ?thesis
    using sound chain_sound_step[OF _ step] asked_cong[of h' h] by (auto simp: make_sound_def)
next
  case False
  from make_frame_step[OF step this] show ?thesis
    using sound chain_sound_step[OF _ step] unfolding make_sound_def make_frame_def by blast
qed

interpretation sound: make_invariant E "\<lambda>st. make_sound (me_json (se_make E))" "\<lambda>st st'. True"
  for E :: "('j, 'net, 'r, 'ip) server_env"
  by unfold_locales (auto intro: make_sound_step)

definition server_sound :: "('j, 'net, 'r, 'ip) server_env \<Rightarrow> ('ip, 'r) server \<Rightarrow> bool" where
  "server_sound E s \<longleftrightarrow>
     (\<forall>t \<in> set (sv_txns s). \<forall>h. obj_of t = Obj_Make h \<longrightarrow> make_sound (me_json (se_make E)) h)"

lemma server_soundD:
  "server_sound E s \<Longrightarrow> k < length (sv_txns s) \<Longrightarrow> obj_of (sv_txns s ! k) = Obj_Make h \<Longrightarrow>
   make_sound (me_json (se_make E)) h"
  using nth_mem by (fastforce simp: server_sound_def)

lemma server_step_sound: "server_step E ev s = Inr s' \<Longrightarrow> server_sound E s \<Longrightarrow> server_sound E s'"
  using sound.server_step_inv[of E ev s s'] unfolding server_sound_def sound.server_inv_def sound.obj_inv_def by blast

text \<open>
  Moreover a slug the handler has sent, or is about to, is well-formed and has a property \<open>S\<close> that
  what is stored under it gives: it leads to a URL that was asked for, or at least to some URL.
\<close>

definition make_holds :: "'j json_api \<Rightarrow> (string \<Rightarrow> bool) \<Rightarrow> make_handler \<Rightarrow> bool" where
  "make_holds J S h \<longleftrightarrow> make_sound J h \<and>
     (\<forall>slug. holds_slug h slug \<longrightarrow> slug \<noteq> [] \<and> set slug \<subseteq> set alphabet \<and> length slug < 256 \<and> S slug)"

lemma make_holds_new [simp]: "make_holds J S new_MakeUrlRequestHandler"
  by (simp add: make_holds_def) (simp add: holds_slug_def answered_def new_MakeUrlRequestHandler_def)

lemma make_holds_mono: "make_holds J S h \<Longrightarrow> (\<And>slug. S slug \<Longrightarrow> S' slug) \<Longrightarrow> make_holds J S' h"
  by (simp add: make_holds_def)

lemma run_shorten_slug:
  assumes "rocksdb_contract (me_db E) view" and run: "run_shorten E (h, st) = Inr (h', st')"
  shows "make_frame (me_json E) h h' \<or>
    (\<exists>url slug. mk_chain h = Chain_Cpu url (Inr True) \<and> h' = h\<lparr>mk_chain := Chain_Evb (Inr slug)\<rparr> \<and>
       set slug \<subseteq> set alphabet \<and> length slug < 256 \<and> (slug \<noteq> [] \<longrightarrow> view st' slug = Some url))"
proof (cases "\<exists>url. mk_chain h = Chain_Cpu url (Inr True)")
  case True
  then obtain url where url: "mk_chain h = Chain_Cpu url (Inr True)" by blast
  with run obtain slug where d: "do_shorten_url (db_get (me_db E)) (db_put (me_db E)) (me_svc E) url st = (Inr slug, st')"
    and h': "h' = h\<lparr>mk_chain := Chain_Evb (Inr slug)\<rparr>"
    by (auto simp: run_shorten_def split: if_splits prod.splits sum.splits)
  note store = url_store_db[OF assms(1)]
  show ?thesis
    using url h' url_store.do_shorten_url_slug_wf[OF store d] url_store.do_shorten_url_stores[OF store d] by blast
next
  case False
  then have "make_frame (me_json E) h h'"
    using run
    by (intro make_frame_same)
       (auto simp: run_shorten_def make_frame_defs split: chain.splits sum.splits bool.splits if_splits prod.splits)
  then show ?thesis by blast
qed

lemma make_holds_step:
  assumes contract: "rocksdb_contract (me_db E) view" and holds: "make_holds (me_json E) S h"
    and step: "make_step E e (h, st) = Inr (h', st')"
    and kept: "\<And>slug. S slug \<Longrightarrow> S' slug"
    and stored: "\<And>slug url. asked (me_json E) h url \<Longrightarrow> view st' slug = Some url \<Longrightarrow> S' slug"
  shows "make_holds (me_json E) S' h'"
proof -
  have sound: "make_sound (me_json E) h'"
    using make_sound_step[OF _ step] holds by (simp add: make_holds_def)
  have "make_frame (me_json E) h h' \<or>
    (\<exists>url slug. mk_chain h = Chain_Cpu url (Inr True) \<and> h' = h\<lparr>mk_chain := Chain_Evb (Inr slug)\<rparr> \<and>
       set slug \<subseteq> set alphabet \<and> length slug < 256 \<and> (slug \<noteq> [] \<longrightarrow> view st' slug = Some url))"
    using make_frame_step[OF step] run_shorten_slug[OF contract] step by (cases "e = Run_Shorten") auto
  then show ?thesis
  proof (elim disjE exE conjE)
    assume "make_frame (me_json E) h h'"
    then show ?thesis using holds sound kept by (simp add: make_holds_def make_frame_def)
  next
    fix url slug
    assume c: "mk_chain h = Chain_Cpu url (Inr True)" "h' = h\<lparr>mk_chain := Chain_Evb (Inr slug)\<rparr>"
      "set slug \<subseteq> set alphabet" "length slug < 256" "slug \<noteq> [] \<longrightarrow> view st' slug = Some url"
    have "asked (me_json E) h url" using holds c(1) by (simp add: make_holds_def make_sound_def)
    then have "slug \<noteq> [] \<Longrightarrow> S' slug" using stored c(5) by blast
    then show ?thesis
      using holds sound kept c(3,4) by (auto simp: make_holds_def holds_slug_def answered_def c(2))
  qed
qed

definition make_good :: "'j json_api \<Rightarrow> ('r \<Rightarrow> string \<Rightarrow> string option) \<Rightarrow> 'r \<Rightarrow> make_handler \<Rightarrow> bool" where
  "make_good J view st h = make_holds J (\<lambda>slug. \<exists>url. asked J h url \<and> view st slug = Some url) h"

lemma make_goodD:
  assumes "make_good J view st h"
  shows "make_sound J h"
    and "holds_slug h slug \<Longrightarrow>
      slug \<noteq> [] \<and> set slug \<subseteq> set alphabet \<and> length slug < 256 \<and> (\<exists>url. asked J h url \<and> view st slug = Some url)"
  using assms by (simp_all add: make_good_def make_holds_def)

lemma make_good_keeps: "make_good J view st h \<Longrightarrow> keeps view st st' \<Longrightarrow> make_good J view st' h"
  unfolding make_good_def by (erule make_holds_mono) (metis asked_nonempty keepsD)

lemma make_step_asked:
  assumes step: "make_step E e (h, st) = Inr (h', st')" and asked: "asked (me_json E) h url"
  shows "asked (me_json E) h' url"
proof (cases "e = Run_Shorten")
  case True
  then have body: "mk_body h' = mk_body h"
    using step by (auto simp: run_shorten_def split: chain.splits sum.splits bool.splits if_splits prod.splits)
  show ?thesis using asked unfolding asked_cong[OF body] .
next
  case False
  from make_frame_step[OF step this] asked show ?thesis by (simp add: make_frame_def)
qed

lemma make_good_step:
  assumes ok: "server_ok E view" and good: "make_good (me_json (se_make E)) view st h"
    and step: "make_step (se_make E) e (h, st) = Inr (h', st')"
  shows "make_good (me_json (se_make E)) view st' h'"
  unfolding make_good_def
proof (rule make_holds_step[OF _ good[unfolded make_good_def] step])
  show "rocksdb_contract (se_db E) view" using ok by (simp add: server_ok_def)
  have keeps: "keeps view st st'" using make_step_view[OF _ _ _ step] ok by (simp add: server_ok_def)
  fix slug
  show "\<exists>url. asked (me_json (se_make E)) h' url \<and> view st' slug = Some url"
    if "\<exists>url. asked (me_json (se_make E)) h url \<and> view st slug = Some url"
    using that make_step_asked[OF step] keepsD[OF keeps] asked_nonempty by blast
  show "\<exists>url. asked (me_json (se_make E)) h' url \<and> view st' slug = Some url"
    if "asked (me_json (se_make E)) h url" "view st' slug = Some url" for url
    using that make_step_asked[OF step] by blast
qed

interpretation good: make_invariant E
  "\<lambda>st h. server_ok E view \<longrightarrow> make_good (me_json (se_make E)) view st h" "\<lambda>st st'. server_ok E view \<longrightarrow> keeps view st st'"
  for E :: "('j, 'net, 'r, 'ip) server_env" and view
proof unfold_locales
  fix e :: "'ip make_event" and h st h' st'
  assume step: "make_step (se_make E) e (h, st) = Inr (h', st')"
  then show "server_ok E view \<longrightarrow> keeps view st st'"
    using make_step_view[OF _ _ _ step] by (simp add: server_ok_def)
next
  fix st h st'
  assume "server_ok E view \<longrightarrow> make_good (me_json (se_make E)) view st h" "server_ok E view \<longrightarrow> keeps view st st'"
  then show "server_ok E view \<longrightarrow> make_good (me_json (se_make E)) view st' h"
    by (intro impI) (rule make_good_keeps; simp)
next
  fix re :: "'ip redirect_event" and rd st rd' st'
  assume step: "redirect_step (se_db E) re (rd, st) = Inr (rd', st')"
  then show "server_ok E view \<longrightarrow> keeps view st st'"
    using redirect_step_view[OF _ step] by (simp add: server_ok_def keeps_same)
qed (use make_good_step in \<open>auto simp: make_good_def\<close>)

end
