(* ===== verification/Server_Properties.thy ===== *)
theory Server_Properties
  imports Server_Invariant
begin

text \<open>
  What the components give together: what a client that has been given a slug can rely on, what
  the database holds, and what the rate limiter's filter shields.
\<close>

section \<open>The invariant of the server\<close>

definition server_good ::
  "('j, 'net, 'r, 'ip) server_env \<Rightarrow> ('r \<Rightarrow> string \<Rightarrow> string option) \<Rightarrow> ('ip, 'r) server \<Rightarrow> bool" where
  "server_good E view s \<longleftrightarrow>
     (\<forall>t \<in> set (sv_txns s). \<forall>h. obj_of t = Obj_Make h \<longrightarrow>
        make_good (me_json (se_make E)) view (w_db (sv_world s)) h)"

lemma server_goodD:
  assumes "server_good E view s" and "k < length (sv_txns s)" and "obj_of (sv_txns s ! k) = Obj_Make h"
  shows "make_good (me_json (se_make E)) view (w_db (sv_world s)) h"
  using assms nth_mem by (fastforce simp: server_good_def)

lemma server_step_good:
  assumes ok: "server_ok E view" and step: "server_step E ev s = Inr s'"
  shows "keeps view (w_db (sv_world s)) (w_db (sv_world s'))" and "server_good E view s \<Longrightarrow> server_good E view s'"
  using good.server_step_inv[OF step, of view] ok
  unfolding server_good_def good.server_inv_def good.obj_inv_def by simp_all

interpretation server: handler
  "server_step E :: 'ip server_event \<Rightarrow> ('ip, 'r) server \<Rightarrow> ('ip, 'r) server res"
  "\<lambda>s. server_ok E view \<and> server_good E view s \<and> keeps view st0 (w_db (sv_world s))"
  "\<lambda>s. length (sv_txns s)" is_accept
  for E :: "('j, 'net, 'r, 'ip) server_env" and view st0
  by unfold_locales (auto dest: server_step_length intro: server_step_good keeps_trans)

lemma start_server_good [simp]: "server_good E view (start_server E now db)"
  by (simp add: server_good_def start_server_def)

lemma run_good:
  assumes "server_ok E view" and "run (server_step E) es (start_server E now db) = Inr s"
  shows "server_good E view s"
  using server.run_inv[OF _ assms(2), of view db] assms(1)
  by (simp add: start_server_def server_good_def factory_onServerStart_def)

text \<open>
  C4  What is stored stays stored, when searches do not overlap: on a database that keeps to its
  contract, and with slugs of at least 3 characters over 2 to 58 symbols (\<open>server_ok\<close>), whatever
  requests arrive at a started server and however their callbacks, the captcha service, lookups,
  reads and replies interleave, an entry with a non-empty URL is never changed or removed.  Each call of
  \<open>do_shorten_url\<close> is one step here; what becomes of this when two of them overlap on the pool
  is the matter of \<open>Interleaved_Server\<close>.
\<close>

theorem server_keeps_entries:
  assumes "server_ok E view"
    and "run (server_step E) es (start_server E now db) = Inr s"
    and "run (server_step E) es' s = Inr s'"
    and "view (w_db (sv_world s)) slug = Some url" and "url \<noteq> []"
  shows "view (w_db (sv_world s')) slug = Some url"
proof -
  have "server_good E view s" by (rule run_good[OF assms(1,2)])
  then have "keeps view (w_db (sv_world s)) (w_db (sv_world s'))"
    using server.run_inv[OF _ assms(3), of view "w_db (sv_world s)"] assms(1) by simp
  then show ?thesis using assms(4,5) by (rule keepsD)
qed

section \<open>A slug that was given out redirects\<close>

text \<open>Events of other transactions, and new requests, do not touch a transaction.\<close>

definition leaves :: "nat \<Rightarrow> 'ip server_event \<Rightarrow> bool" where
  "leaves k ev \<longleftrightarrow> (\<forall>oe. ev \<noteq> At k oe)"

lemma server_step_leaves:
  assumes "server_step E ev s = Inr s'" and "leaves k ev" and "k < length (sv_txns s)"
  shows "k < length (sv_txns s') \<and> sv_txns s' ! k = sv_txns s ! k"
  using assms
  by (cases ev) (auto simp: leaves_def res_bind_eq_Inr res_map_eq_Inr nth_append nth_list_update split: if_splits)

lemma run_leaves:
  "run (server_step E) es s = Inr s' \<Longrightarrow> list_all (leaves k) es \<Longrightarrow> k < length (sv_txns s) \<Longrightarrow>
   k < length (sv_txns s') \<and> sv_txns s' ! k = sv_txns s ! k"
proof (induction es arbitrary: s)
  case (Cons ev es)
  then obtain s1 where s: "server_step E ev s = Inr s1" "run (server_step E) es s1 = Inr s'"
    by (auto simp: res_bind_eq_Inr)
  show ?case
    using server_step_leaves[OF s(1)] Cons.IH[OF s(2)] Cons.prems(2,3) by simp
qed simp

text \<open>The request for a slug, as the chain of factories sees it.\<close>

definition slug_get :: "('j, 'net, 'r, 'ip) server_env \<Rightarrow> string \<Rightarrow> 'ip http_message \<Rightarrow> bool" where
  "slug_get E slug msg \<longleftrightarrow>
     msg_method msg = Some GET \<and> msg_path msg = CHR ''/'' # slug \<and> se_frontend E slug = None"

lemma slug_no_slash: "set slug \<subseteq> set alphabet \<Longrightarrow> CHR ''/'' \<notin> set slug"
  by (auto simp: alphabet_def)

lemma route_slug:
  assumes "slug_get E slug msg" and "slug \<noteq> []" and "set slug \<subseteq> set alphabet" and "length slug < 256"
  shows "route E msg = Inr (Obj_Redirect (new_UrlRedirectHandler slug))" and "\<not> is_protected msg"
proof -
  have "parse_out_request_str (CHR ''/'' # slug) = Inr slug"
    using parse_slug_request slug_request_plain[OF assms(2-4)] by blast
  moreover have noslash: "CHR ''/'' \<notin> set slug" using assms(3) by (rule slug_no_slash)
  then have "last (CHR ''/'' # slug) \<noteq> CHR ''/''" using assms(2) last_in_set by fastforce
  then have "lookup_key (CHR ''/'' # slug) = slug" by (simp add: lookup_key_def)
  moreover have pre: "\<not> starts_with (CHR ''/'' # slug) (CHR ''/'' # p)" if "CHR ''/'' \<in> set p" for p
  proof
    assume "starts_with (CHR ''/'' # slug) (CHR ''/'' # p)"
    then have "p = take (length p) slug" by (simp add: starts_with_def)
    then show False using that noslash in_set_takeD by metis
  qed
  ultimately show "route E msg = Inr (Obj_Redirect (new_UrlRedirectHandler slug))"
    using assms(1,2) by (auto simp: route_def slug_get_def frontend_lookup_def)
  show "\<not> is_protected msg"
    using assms(1) pre[of "''api/''"] by (simp add: is_protected_def slug_get_def)
qed

definition asked_redirect :: "string \<Rightarrow> redirect_handler" where
  "asked_redirect slug = (new_UrlRedirectHandler slug)\<lparr>rd_lookups := 1\<rparr>"

lemma accept_slug:
  assumes "slug_get E slug msg" and "slug \<noteq> []" and "set slug \<subseteq> set alphabet" and "length slug < 256"
  shows "server_step E (Accept clock msg) s =
    Inr (s\<lparr>sv_txns := sv_txns s @ [Plain (Obj_Redirect (asked_redirect slug))]\<rparr>)"
  using route_slug[OF assms] assms
  by (simp add: server_onRequest_def aap_onRequest_def slug_get_def step_if_def redirect_onRequest_def
      new_UrlRedirectHandler_def asked_redirect_def)

text \<open>The two closures of a redirect transaction, whatever the rest of the server has done.\<close>

definition found_redirect :: "string \<Rightarrow> string \<Rightarrow> redirect_handler" where
  "found_redirect slug url =
     (new_UrlRedirectHandler slug)\<lparr>rd_buf := url, rd_replies := [True]\<rparr>"

lemma lookup_slug:
  assumes "rocksdb_contract (se_db E) view" and "rocksdb_healthy (se_db E)"
    and "view (w_db (sv_world s)) slug = Some url"
    and "k < length (sv_txns s)" and "sv_txns s ! k = Plain (Obj_Redirect (asked_redirect slug))"
  shows "\<exists>s'. server_step E (At k Url_Lookup) s = Inr s' \<and> k < length (sv_txns s') \<and>
    sv_txns s' ! k = Plain (Obj_Redirect (found_redirect slug url))"
proof -
  obtain st v db' where g: "rocks_get (se_db E) (w_db (sv_world s)) slug = (st, v, db')"
    using prod_cases3 by blast
  have "(st = StatusOk \<longrightarrow> view (w_db (sv_world s)) slug = Some v) \<and>
      (st = StatusNotFound \<longrightarrow> view (w_db (sv_world s)) slug = None)"
    using assms(1)[unfolded rocksdb_contract_def, THEN conjunct2, rule_format, OF g] by blast
  then have "st = StatusOk \<and> v = url"
    using assms(3) g rocksdb_healthyD(2)[OF assms(2), of "w_db (sv_world s)" slug] by auto
  then show ?thesis
    using assms(4,5) g
    by (auto simp: step_if_def asked_redirect_def found_redirect_def new_UrlRedirectHandler_def
        redirect_lookup_def db_get_fast_def)
qed

lemma reply_slug:
  assumes "k < length (sv_txns s)" and "sv_txns s ! k = Plain (Obj_Redirect (found_redirect slug url))"
  shows "\<exists>s' h. server_step E (At k Url_Reply) s = Inr s' \<and> sv_txns s' ! k = Plain (Obj_Redirect h) \<and>
    rd_out h = [Send_With_EOM 301 ''Moved Permanently'' [(''Location'', url)] '''']"
  using assms
  by (auto simp: step_if_def found_redirect_def new_UrlRedirectHandler_def redirect_reply_def rd_send_def Let_def)

lemma answered_stored:
  assumes "server_good E view s" and "i < length (sv_txns s)" and "sv_txns s ! i = Plain (Obj_Make h)"
    and "answered h slug"
  obtains url where "asked (me_json (se_make E)) h url" "view (w_db (sv_world s)) slug = Some url"
    "slug \<noteq> []" "set slug \<subseteq> set alphabet" "length slug < 256" "url \<noteq> []"
proof -
  have "make_good (me_json (se_make E)) view (w_db (sv_world s)) h"
    using server_goodD[OF assms(1,2)] assms(3) by simp
  moreover have "holds_slug h slug" using assms(4) by (simp add: holds_slug_def)
  ultimately show ?thesis using that make_goodD(2) asked_nonempty by metis
qed

text \<open>
  C1  A slug that a client has been given redirects to the URL that this client asked for.  In
  every run of the server, once a handler has answered 200 with a slug, a later GET for the slug
  is routed to the redirect handler, and that transaction's lookup and reply cannot fail: it is
  answered once, with 301 and the URL, whatever the other transactions do before, between and
  after its steps.  (The database answers, its contract holds, slugs have at least three
  characters over 2 to 58 symbols, no frontend file has the slug as its name, and the searches of
  create requests do not overlap: each is one step.)
\<close>

theorem answered_slug_redirects:
  assumes ok: "server_ok E view" and healthy: "rocksdb_healthy (se_db E)"
    and run: "run (server_step E) es (start_server E now db) = Inr s"
    and i: "i < length (sv_txns s)" "sv_txns s ! i = Plain (Obj_Make h)" and slug: "answered h slug"
    and later: "run (server_step E) es1 s = Inr s1" and get: "slug_get E slug msg"
  shows "\<exists>url s2. asked (me_json (se_make E)) h url \<and>
    server_step E (Accept clock msg) s1 = Inr s2 \<and>
    (\<forall>es2 s3. run (server_step E) es2 s2 = Inr s3 \<and> list_all (leaves (length (sv_txns s1))) es2 \<longrightarrow>
       (\<exists>s4. server_step E (At (length (sv_txns s1)) Url_Lookup) s3 = Inr s4 \<and>
          (\<forall>es3 s5. run (server_step E) es3 s4 = Inr s5 \<and> list_all (leaves (length (sv_txns s1))) es3 \<longrightarrow>
             (\<exists>s6 r. server_step E (At (length (sv_txns s1)) Url_Reply) s5 = Inr s6 \<and>
                sv_txns s6 ! length (sv_txns s1) = Plain (Obj_Redirect r) \<and>
                rd_out r = [Send_With_EOM 301 ''Moved Permanently'' [(''Location'', url)] '''']))))"
proof -
  let ?k = "length (sv_txns s1)"
  have good: "server_good E view s" by (rule run_good[OF ok run])
  obtain url where url: "asked (me_json (se_make E)) h url" "view (w_db (sv_world s)) slug = Some url"
    and wf: "slug \<noteq> []" "set slug \<subseteq> set alphabet" "length slug < 256" and "url \<noteq> []"
    using slug by (elim answered_stored[OF good i])
  obtain s2 where s2: "server_step E (Accept clock msg) s1 = Inr s2"
    "sv_txns s2 = sv_txns s1 @ [Plain (Obj_Redirect (asked_redirect slug))]" "sv_world s2 = sv_world s1"
    using accept_slug[OF get wf] by simp
  have stored: "view (w_db (sv_world s3)) slug = Some url" if "run (server_step E) es2 s2 = Inr s3" for es2 s3
  proof -
    have "run (server_step E) (es1 @ [Accept clock msg] @ es2) s = Inr s3"
      using later s2(1) that by (simp add: run_append del: server_step.simps)
    then have "keeps view (w_db (sv_world s)) (w_db (sv_world s3))"
      using server.run_inv[of E view s "w_db (sv_world s)"] ok good by simp
    then show ?thesis using url(2) \<open>url \<noteq> []\<close> by (rule keepsD)
  qed
  have contract: "rocksdb_contract (se_db E) view" using ok by (simp add: server_ok_def)
  have "\<exists>s4. server_step E (At ?k Url_Lookup) s3 = Inr s4 \<and>
      (\<forall>es3 s5. run (server_step E) es3 s4 = Inr s5 \<and> list_all (leaves ?k) es3 \<longrightarrow>
         (\<exists>s6 r. server_step E (At ?k Url_Reply) s5 = Inr s6 \<and> sv_txns s6 ! ?k = Plain (Obj_Redirect r) \<and>
            rd_out r = [Send_With_EOM 301 ''Moved Permanently'' [(''Location'', url)] '''']))"
    if r: "run (server_step E) es2 s2 = Inr s3" and l: "list_all (leaves ?k) es2" for es2 s3
  proof -
    have "?k < length (sv_txns s3) \<and> sv_txns s3 ! ?k = Plain (Obj_Redirect (asked_redirect slug))"
      using run_leaves[OF r l] s2(2) by simp
    then obtain s4 where s4: "server_step E (At ?k Url_Lookup) s3 = Inr s4" "?k < length (sv_txns s4)"
      "sv_txns s4 ! ?k = Plain (Obj_Redirect (found_redirect slug url))"
      using lookup_slug[OF contract healthy stored[OF r]] by blast
    moreover have "\<exists>s6 r. server_step E (At ?k Url_Reply) s5 = Inr s6 \<and> sv_txns s6 ! ?k = Plain (Obj_Redirect r) \<and>
        rd_out r = [Send_With_EOM 301 ''Moved Permanently'' [(''Location'', url)] '''']"
      if "run (server_step E) es3 s4 = Inr s5" "list_all (leaves ?k) es3" for es3 s5
      using run_leaves[OF that s4(2)] s4(3) by (intro reply_slug) simp_all
    ultimately show ?thesis by blast
  qed
  with url(1) s2(1) show ?thesis by blast
qed

subsection \<open>Runs of a handler are runs of the server\<close>

fun of_make_event :: "'ip make_event \<Rightarrow> 'ip obj_event" where
  "of_make_event (Mk_Callback e) = Client e"
| "of_make_event Connect_Success = Captcha_Connected"
| "of_make_event Connect_Error = Captcha_Unreachable"
| "of_make_event (Captcha e) = Captcha_Service e"
| "of_make_event Run_Shorten = Shorten_Url"
| "of_make_event Run_Mk_Reply = Shorten_Reply"

lemma make_event_of_inverse [simp]: "make_event_of (of_make_event e) = Some e"
  by (cases e) simp_all

lemma server_step_make:
  assumes "make_step (se_make E) e (h, w_db (sv_world s)) = Inr (h', st')"
    and "k < length (sv_txns s)" and "sv_txns s ! k = Plain (Obj_Make h)"
  shows "server_step E (At k (of_make_event e)) s =
    Inr (s\<lparr>sv_txns := (sv_txns s)[k := Plain (Obj_Make h')], sv_world := (sv_world s)\<lparr>w_db := st'\<rparr>\<rparr>)"
  using assms by (simp add: step_if_def)

lemma run_server_make:
  "run (make_step (se_make E)) es (h, w_db (sv_world s)) = Inr (h', st') \<Longrightarrow>
   k < length (sv_txns s) \<Longrightarrow> sv_txns s ! k = Plain (Obj_Make h) \<Longrightarrow>
   \<exists>s'. run (server_step E) (map (\<lambda>e. At k (of_make_event e)) es) s = Inr s' \<and>
     sv_txns s' = (sv_txns s)[k := Plain (Obj_Make h')] \<and> w_db (sv_world s') = st'"
proof (induction es arbitrary: h s)
  case Nil
  then show ?case by simp (metis list_update_id)
next
  case (Cons e es)
  then obtain h1 st1 where s: "make_step (se_make E) e (h, w_db (sv_world s)) = Inr (h1, st1)"
    "run (make_step (se_make E)) es (h1, st1) = Inr (h', st')"
    by (auto simp: res_bind_eq_Inr)
  note step = server_step_make[OF s(1) Cons.prems(2,3)]
  show ?case
    using Cons.IH[of h1 "s\<lparr>sv_txns := (sv_txns s)[k := Plain (Obj_Make h1)], sv_world := (sv_world s)\<lparr>w_db := st1\<rparr>\<rparr>"]
      s(2) Cons.prems(2) step
    by (simp del: server_step.simps)
qed

text \<open>A request to the API's route that is not limited.\<close>

lemma accept_create:
  assumes "route E msg = Inr (Obj_Make new_MakeUrlRequestHandler)" and "is_create msg"
    and "aap_onRequest (se_inSubnet E) (se_tryFromString E) (se_config E) clock msg (sv_counts s) = Inr (Pass, ptr)"
  shows "server_step E (Accept clock msg) s =
    Inr (s\<lparr>sv_txns := sv_txns s @ [Plain (Obj_Make (new_MakeUrlRequestHandler\<lparr>mk_headers := True\<rparr>))],
           sv_counts := ptr\<rparr>)"
  using assms
  by (auto simp: server_onRequest_def step_if_def make_onRequest_def is_create_def new_MakeUrlRequestHandler_def)

definition sample_server_env :: "(nat, nat, string \<Rightarrow> string option, nat) server_env" where
  "sample_server_env =
     \<lparr>se_make = sample_make_env True, se_open_file = (\<lambda>_. None), se_frontend = Map.empty,
      se_inSubnet = (\<lambda>_ _. False), se_tryFromString = (\<lambda>_. None)\<rparr>"

lemma sample_server_simps [simp]:
  "se_make sample_server_env = sample_make_env True" "se_frontend sample_server_env = Map.empty"
  by (simp_all add: sample_server_env_def)

lemma sample_server_ok [simp]: "server_ok sample_server_env (\<lambda>st. st)"
  by (simp add: server_ok_def mem_contract)

abbreviation sample_start :: "(nat, string \<Rightarrow> string option) server" where
  "sample_start \<equiv> start_server sample_server_env 0 Map.empty"

lemma sample_create_passes:
  "\<exists>ptr. aap_onRequest (se_inSubnet sample_server_env) (se_tryFromString sample_server_env)
     (se_config sample_server_env) (0, 0, 0) create_request (sv_counts sample_start) = Inr (Pass, ptr)"
proof -
  have "fst (protect (\<lambda>ip net. False) (\<lambda>_. None) (initial_config :: nat ReadOnlyAppConfig) (0, 0, 0) create_request
      (new_IPAccessCountService 86400 0)) = Pass"
    by (rule protect_first_second(1))
       (simp_all add: new_IPAccessCountService_def in_first_second_def resolve_client_ip_def create_request_def)
  then show ?thesis
    by (auto simp: aap_onRequest_def start_server_def aap_onServerStart_def sample_server_env_def
        sample_make_env_def initial_config_def resolve_client_ip_def create_request_def split: prod.split)
qed

text \<open>A run in which a client is given a slug.\<close>

lemma sample_create_run:
  "\<exists>es s h. run (server_step sample_server_env) es sample_start = Inr s \<and>
     sv_txns s = [Plain (Obj_Make h)] \<and> answered h (slug_at (default_svc test_key) test_url 1)"
proof -
  let ?h0 = "new_MakeUrlRequestHandler\<lparr>mk_headers := True\<rparr>"
  let ?es = "tl (client_events create_request [''req'']) @ captcha_events 200 [''yes''] @ [Run_Shorten, Run_Mk_Reply]"
  have "route sample_server_env create_request = Inr (Obj_Make new_MakeUrlRequestHandler)"
    by (simp add: route_def create_request_def frontend_lookup_def starts_with_def)
  then obtain s1 where s1: "server_step sample_server_env (Accept (0, 0, 0) create_request) sample_start = Inr s1"
    "sv_txns s1 = [Plain (Obj_Make ?h0)]" "w_db (sv_world s1) = Map.empty"
    using accept_create[of sample_server_env create_request "(0, 0, 0)" sample_start] sample_create_passes
    by (auto simp: start_server_def factory_onServerStart_def simp del: server_step.simps)
  have "make_step (sample_make_env True) (Mk_Callback (On_Request create_request)) (new_MakeUrlRequestHandler, Map.empty) =
      Inr (?h0, Map.empty)"
    by (simp add: make_onRequest_def create_request_def new_MakeUrlRequestHandler_def)
  moreover obtain st where d: "do_shorten_url (db_get mem_rocksdb) (db_put mem_rocksdb) (default_svc test_key) test_url Map.empty =
      (Inr (slug_at (default_svc test_key) test_url 1), st)"
    using test_run by auto
  have "\<exists>h st. run (make_step (sample_make_env True))
      (client_events create_request [''req''] @ captcha_events 200 [''yes''] @ [Run_Shorten, Run_Mk_Reply])
      (new_MakeUrlRequestHandler, Map.empty) = Inr (h, st) \<and>
      mk_out h = [Send_With_EOM 200 ''OK'' allow_origin (slug_at (default_svc test_key) test_url 1)]"
    using run_create[of create_request "[''req'']" "sample_make_env True" "''token''" test_url 200 "[''yes'']"
        "Map.empty" _ st] d test_slug_nonempty
    by (simp del: run.simps) blast
  ultimately obtain h st where h: "run (make_step (sample_make_env True)) ?es (?h0, Map.empty) = Inr (h, st)"
    "mk_out h = [Send_With_EOM 200 ''OK'' allow_origin (slug_at (default_svc test_key) test_url 1)]"
    by (auto simp: client_events_def simp del: make_step.simps)
  then obtain s where "run (server_step sample_server_env) (map (\<lambda>e. At 0 (of_make_event e)) ?es) s1 = Inr s"
    "sv_txns s = [Plain (Obj_Make h)]"
    using run_server_make[of sample_server_env ?es ?h0 s1 h st 0] s1(2,3) by auto
  then show ?thesis
    using s1(1) h(2)
    by (intro exI[of _ "Accept (0, 0, 0) create_request # map (\<lambda>e. At 0 (of_make_event e)) ?es"] exI[of _ s] exI[of _ h])
       (simp add: answered_def del: server_step.simps)
qed

theorem answered_slug_redirects_witness:
  "\<exists>es s h url s2. run (server_step sample_server_env) es sample_start = Inr s \<and>
     sv_txns s = [Plain (Obj_Make h)] \<and> asked sample_json h url \<and>
     server_step sample_server_env
       (Accept (1, 1, 1) (get_request (CHR ''/'' # slug_at (default_svc test_key) test_url 1))) s = Inr s2"
proof -
  let ?slug = "slug_at (default_svc test_key) test_url 1"
  obtain es s h where s: "run (server_step sample_server_env) es sample_start = Inr s"
    "sv_txns s = [Plain (Obj_Make h)]" "answered h ?slug"
    using sample_create_run by blast
  have "0 < length (sv_txns s)" "sv_txns s ! 0 = Plain (Obj_Make h)" using s(2) by simp_all
  moreover have "run (server_step sample_server_env) [] s = Inr s" by simp
  moreover have "slug_get sample_server_env ?slug (get_request (CHR ''/'' # ?slug))"
    by (simp add: slug_get_def get_request_def)
  moreover have "rocksdb_healthy (se_db sample_server_env)" by (simp add: mem_healthy)
  ultimately show ?thesis
    using answered_slug_redirects[OF sample_server_ok _ s(1) _ _ s(3), of 0 "[]" s "get_request (CHR ''/'' # ?slug)" "(1, 1, 1)"]
      s(1,2) by (auto simp del: server_step.simps)
qed

section \<open>The database changes only for a confirmed request\<close>

lemma run_shorten_change:
  assumes contract: "rocksdb_contract (me_db E) view" and healthy: "rocksdb_healthy (me_db E)"
    and run: "run_shorten E (h, st) = Inr (h', st')" and change: "view st' \<noteq> view st"
  shows "\<exists>url slug. mk_chain h = Chain_Cpu url (Inr True) \<and> view st' = (view st)(slug \<mapsto> url)"
proof -
  obtain url slug where url: "mk_chain h = Chain_Cpu url (Inr True)"
    and d: "do_shorten_url (db_get (me_db E)) (db_put (me_db E)) (me_svc E) url st = (Inr slug, st')"
    using run change by (auto simp: run_shorten_def split: chain.splits sum.splits bool.splits if_splits prod.splits)
  show ?thesis
    using healthy_url_store.do_shorten_url_change[OF healthy_url_store_db[OF contract healthy] d] url change by auto
qed

lemma obj_step_change:
  assumes contract: "rocksdb_contract (se_db E) view"
    and step: "obj_step E ev (ob, w) = Inr (ob', w')" and change: "view (w_db w') \<noteq> view (w_db w)"
  shows "ev = Shorten_Url \<and> (\<exists>h h'. ob = Obj_Make h \<and> run_shorten (se_make E) (h, w_db w) = Inr (h', w_db w'))"
proof (cases ob)
  case (Obj_Redirect h)
  then have "view (w_db w') = view (w_db w)"
    using step redirect_step_view[OF contract]
    by (auto simp: res_map_eq_Inr step_if_def split: option.splits)
  then show ?thesis using change by simp
next
  case (Obj_Make h)
  have unchanged: "w_db w' = w_db w" if "ev \<noteq> Shorten_Url"
    using that step Obj_Make
    by (cases ev) (auto simp: step_if_def res_map_eq_Inr split: if_splits)
  then have "ev = Shorten_Url" using change by metis
  then show ?thesis using step Obj_Make by (auto simp: step_if_def res_map_eq_Inr)
qed (use step change in \<open>auto simp: res_map_eq_Inr step_if_def split: option.splits\<close>)

lemma txn_step_change:
  assumes contract: "rocksdb_contract (se_db E) view"
    and step: "txn_step E ev (t, w) = Inr (t', w')" and change: "view (w_db w') \<noteq> view (w_db w)"
  shows "ev = Shorten_Url \<and>
    (\<exists>h h'. obj_of t = Obj_Make h \<and> run_shorten (se_make E) (h, w_db w) = Inr (h', w_db w'))"
proof (cases t)
  case (Plain ob)
  then show ?thesis using step obj_step_change[OF contract _ change] by (auto simp: res_map_eq_Inr)
next
  case (Filtered f)
  show ?thesis
  proof (cases "\<exists>e. ev = Client e")
    case True
    then obtain e f' where "rl_step (\<lambda>e. obj_step E (Client e)) e (f, w) = Inr (f', w')"
      using step Filtered by (auto simp: res_map_eq_Inr)
    then consider "w' = w" | e' ob' where "obj_step E (Client e') (rl_object f, w) = Inr (ob', w')"
      using rl_step_object by fastforce
    then show ?thesis
    proof cases
      case 2
      then show ?thesis using obj_step_change[OF contract 2 change] by simp
    qed (use change in simp)
  next
    case False
    then obtain ob' where "obj_step E ev (rl_object f, w) = Inr (ob', w')"
      using step Filtered by (cases ev) (auto simp: res_map_eq_Inr)
    then show ?thesis using obj_step_change[OF contract _ change] Filtered by simp
  qed
qed

lemma server_step_change:
  assumes contract: "rocksdb_contract (se_db E) view" and healthy: "rocksdb_healthy (se_db E)"
    and step: "server_step E ev s = Inr s'" and change: "view (w_db (sv_world s')) \<noteq> view (w_db (sv_world s))"
  obtains k h url slug where "ev = At k Shorten_Url" "k < length (sv_txns s)" "obj_of (sv_txns s ! k) = Obj_Make h"
    "mk_chain h = Chain_Cpu url (Inr True)" "view (w_db (sv_world s')) = (view (w_db (sv_world s)))(slug \<mapsto> url)"
proof (cases ev)
  case (Accept clock msg)
  then obtain t t' w where "txn_step E (Client (On_Request msg)) (t, sv_world s) = Inr (t', w)" "sv_world s' = w"
    using step by (auto simp: res_bind_eq_Inr res_map_eq_Inr)
  then show ?thesis using txn_step_change[OF contract] change by blast
next
  case (At k oe)
  have k: "k < length (sv_txns s)" using step change At by (auto split: if_splits)
  then obtain t' where t: "txn_step E oe (sv_txns s ! k, sv_world s) = Inr (t', sv_world s')"
    using step At by (auto simp: res_map_eq_Inr)
  then obtain h h' where h: "oe = Shorten_Url" "obj_of (sv_txns s ! k) = Obj_Make h"
    "run_shorten (se_make E) (h, w_db (sv_world s)) = Inr (h', w_db (sv_world s'))"
    using txn_step_change[OF contract t change] by blast
  then show ?thesis using run_shorten_change[OF contract healthy h(3) change] that k At by blast
qed

lemma sample_create_changes:
  obtains es s where "run (server_step sample_server_env) es sample_start = Inr s"
    "w_db (sv_world s) \<noteq> w_db (sv_world sample_start)"
proof -
  let ?slug = "slug_at (default_svc test_key) test_url 1"
  obtain es s h where s: "run (server_step sample_server_env) es sample_start = Inr s"
    "sv_txns s = [Plain (Obj_Make h)]" "answered h ?slug"
    using sample_create_run by blast
  have "0 < length (sv_txns s)" "sv_txns s ! 0 = Plain (Obj_Make h)" using s(2) by simp_all
  from answered_stored[OF run_good[OF sample_server_ok s(1)] this s(3)]
  have "w_db (sv_world s) ?slug \<noteq> None" by blast
  moreover have "w_db (sv_world sample_start) ?slug = None" by (simp add: start_server_def factory_onServerStart_def)
  ultimately have "w_db (sv_world s) \<noteq> w_db (sv_world sample_start)" by metis
  with s(1) show ?thesis by (rule that)
qed

text \<open>
  In every run of the server, an event that changes what the database holds is the work of a
  create request whose captcha the service has confirmed, and all it does is to enter the URL
  that this request asked for under one key.  (The database answers and its contract holds.)
\<close>

theorem stored_only_if_confirmed:
  assumes ok: "server_ok E view" and healthy: "rocksdb_healthy (se_db E)"
    and run: "run (server_step E) es (start_server E now db) = Inr s"
    and step: "server_step E ev s = Inr s'" and change: "view (w_db (sv_world s')) \<noteq> view (w_db (sv_world s))"
  shows "\<exists>k h url slug. ev = At k Shorten_Url \<and> k < length (sv_txns s) \<and> obj_of (sv_txns s ! k) = Obj_Make h \<and>
    confirmed (me_json (se_make E)) h \<and> asked (me_json (se_make E)) h url \<and>
    view (w_db (sv_world s')) = (view (w_db (sv_world s)))(slug \<mapsto> url)"
proof -
  have contract: "rocksdb_contract (se_db E) view" using ok by (simp add: server_ok_def)
  obtain k h url slug where c: "ev = At k Shorten_Url" "k < length (sv_txns s)" "obj_of (sv_txns s ! k) = Obj_Make h"
    "mk_chain h = Chain_Cpu url (Inr True)" "view (w_db (sv_world s')) = (view (w_db (sv_world s)))(slug \<mapsto> url)"
    by (rule server_step_change[OF contract healthy step change])
  from server_goodD[OF run_good[OF ok run] c(2,3)] have "asked (me_json (se_make E)) h url" "confirmed (me_json (se_make E)) h"
    using c(4) by (auto dest!: make_goodD(1) simp: make_sound_def chain_sound_def)
  with c show ?thesis by blast
qed

theorem stored_only_if_confirmed_witness:
  "\<exists>es ev s s' h url slug. run (server_step sample_server_env) es sample_start = Inr s \<and>
     server_step sample_server_env ev s = Inr s' \<and> confirmed sample_json h \<and> asked sample_json h url \<and>
     w_db (sv_world s') = (w_db (sv_world s))(slug \<mapsto> url)"
proof -
  obtain es s where s: "run (server_step sample_server_env) es sample_start = Inr s"
    "w_db (sv_world s) \<noteq> w_db (sv_world sample_start)"
    by (rule sample_create_changes)
  from run_change[OF s(1), of "\<lambda>s. w_db (sv_world s)", OF s(2)]
  obtain es1 ev s1 s2 where r: "run (server_step sample_server_env) es1 sample_start = Inr s1"
    "server_step sample_server_env ev s1 = Inr s2" "w_db (sv_world s2) \<noteq> w_db (sv_world s1)" by blast
  have "\<exists>k h url slug. ev = At k Shorten_Url \<and> k < length (sv_txns s1) \<and> obj_of (sv_txns s1 ! k) = Obj_Make h \<and>
      confirmed sample_json h \<and> asked sample_json h url \<and> w_db (sv_world s2) = (w_db (sv_world s1))(slug \<mapsto> url)"
    using stored_only_if_confirmed[where view = "\<lambda>st. st", OF sample_server_ok _ r(1,2)] r(3)
    by (simp add: mem_healthy)
  then show ?thesis using r(1,2) by blast
qed

theorem server_keeps_entries_witness:
  "\<exists>s'. run (server_step sample_server_env) [Accept (0, 0, 0) (get_request ''/k'')]
          (start_server sample_server_env 0 [''k'' \<mapsto> ''http://a'']) = Inr s' \<and>
     w_db (sv_world s') ''k'' = Some ''http://a''"
proof -
  let ?s = "start_server sample_server_env 0 [''k'' \<mapsto> ''http://a''] :: (nat, string \<Rightarrow> string option) server"
  have "slug_get sample_server_env ''k'' (get_request ''/k'')" by (simp add: slug_get_def get_request_def)
  from accept_slug[OF this, of "(0, 0, 0)" ?s]
  obtain s' where r: "run (server_step sample_server_env) [Accept (0, 0, 0) (get_request ''/k'')] ?s = Inr s'"
    by (auto simp: alphabet_def run_single simp del: server_step.simps run.simps)
  have "run (server_step sample_server_env) [] ?s = Inr ?s" by simp
  from server_keeps_entries[OF sample_server_ok this r, of "''k''" "''http://a''"] r show ?thesis
    by (simp add: start_server_def factory_onServerStart_def del: run.simps)
qed

section \<open>A limited request\<close>

fun obj_alive :: "handler_obj \<Rightarrow> bool" where
  "obj_alive (Obj_Frontend h) = fh_alive h"
| "obj_alive (Obj_Static h) = sh_alive h"
| "obj_alive (Obj_Make h) = mk_alive h"
| "obj_alive (Obj_Redirect h) = rd_alive h"
| "obj_alive (Obj_Not_Found h) = nf_alive h"

fun obj_out :: "handler_obj \<Rightarrow> downstream_op list" where
  "obj_out (Obj_Frontend h) = fh_out h"
| "obj_out (Obj_Static h) = sh_out h"
| "obj_out (Obj_Make h) = mk_out h"
| "obj_out (Obj_Redirect h) = rd_out h"
| "obj_out (Obj_Not_Found h) = nf_out h"

lemma route_cases:
  assumes "route E msg = Inr ob"
  obtains (frontend) h where "ob = Obj_Frontend h" "fh_alive h" "fh_out h = []"
  | (static) root where "ob = Obj_Static (new_StaticHandler root)"
  | (make) "ob = Obj_Make new_MakeUrlRequestHandler"
  | (redirect) slug where "ob = Obj_Redirect (new_UrlRedirectHandler slug)"
  | (not_found) "ob = Obj_Not_Found new_NotFoundHandler"
proof -
  obtain mf where l: "frontend_lookup (se_frontend E) (msg_path msg) = Inr mf"
    using assms by (auto simp: route_def Let_def res_bind_eq_Inr)
  show ?thesis
  proof (cases mf)
    case (Some h)
    then have "ob = Obj_Frontend h" using assms l by (simp add: route_def Let_def)
    moreover have "fh_alive h" "fh_out h = []"
      using l Some by (auto simp: frontend_lookup_def split: if_splits option.splits)
    ultimately show ?thesis by (rule frontend)
  next
    case None
    then show ?thesis
      using assms l static make redirect not_found
      by (auto simp: route_def Let_def res_bind_eq_Inr split: if_splits)
  qed
qed

text \<open>A handler the router has just made survives an error before its request, and is gone.\<close>

lemma obj_step_early_error:
  assumes "route E msg = Inr ob"
  shows "\<exists>ob'. obj_step E (Client On_Error) (ob, w) = Inr (ob', w) \<and> \<not> obj_alive ob' \<and> obj_out ob' = []"
  using assms
proof (cases rule: route_cases)
  case (static root)
  then show ?thesis
    by (simp add: step_if_def new_StaticHandler_def static_finish_def check_for_completion_def)
next
  case make
  then show ?thesis
    by (simp add: step_if_def new_MakeUrlRequestHandler_def make_onError_def set_promise_def delete_handler_def)
qed (simp_all add: step_if_def frontend_step_def new_UrlRedirectHandler_def not_found_step_def new_NotFoundHandler_def)

lemma run_limited:
  "follows_protocol Some es (if rl_alive f then Serving else Ended) \<Longrightarrow> On_Upgrade \<notin> set es \<Longrightarrow> \<not> rl_upstream f \<Longrightarrow>
   \<exists>f'. run (\<lambda>e. txn_step E (Client e)) es (Filtered f, w) = Inr (Filtered f', w) \<and> rl_out f' = rl_out f"
proof (induction es arbitrary: f)
  case (Cons e es)
  have alive: "rl_alive f" and e: "\<not> is_request e" using Cons.prems(1) by (cases e; auto split: if_splits)+
  let ?f = "f\<lparr>rl_alive := \<not> ends_handler e\<rparr>"
  have "follows_protocol Some es (if rl_alive ?f then Serving else Ended)"
    using Cons.prems(1) alive e by (cases e) auto
  then obtain f' where "run (\<lambda>e. txn_step E (Client e)) es (Filtered ?f, w) = Inr (Filtered f', w)" "rl_out f' = rl_out f"
    using Cons.IH[of ?f] Cons.prems(2,3) by auto
  then show ?case
    using rl_step_dropped[OF alive Cons.prems(3) e, of "\<lambda>e. obj_step E (Client e)" w] Cons.prems(2) by auto
qed simp

text \<open>
  C6  A limited request gets 429 and nothing else: the handler the router has made for it is told
  of an error and is gone without an answer, neither the database nor the cache of files is
  touched, and whatever callbacks follow in proxygen's order, nothing is added to the answer and
  nothing fails; except that an upgrade of the connection is forwarded through a null pointer.
\<close>

theorem limited_request_shielded:
  assumes "route E msg = Inr ob"
    and "aap_onRequest (se_inSubnet E) (se_tryFromString E) (se_config E) clock msg (sv_counts s) = Inr (Limited, ptr)"
  shows "\<exists>f. server_step E (Accept clock msg) s = Inr (s\<lparr>sv_txns := sv_txns s @ [Filtered f], sv_counts := ptr\<rparr>) \<and>
    rl_out f = [Send_With_EOM 429 ''Too Many Requests'' [] ''''] \<and>
    \<not> obj_alive (rl_object f) \<and> obj_out (rl_object f) = [] \<and>
    (\<forall>es w. follows_protocol Some es Serving \<and> On_Upgrade \<notin> set es \<longrightarrow>
       (\<exists>f'. run (\<lambda>e. txn_step E (Client e)) es (Filtered f, w) = Inr (Filtered f', w) \<and> rl_out f' = rl_out f)) \<and>
    (\<forall>w. txn_step E (Client On_Upgrade) (Filtered f, w) = Inl Undefined)"
proof -
  obtain ob' where o: "obj_step E (Client On_Error) (ob, sv_world s) = Inr (ob', sv_world s)"
    "\<not> obj_alive ob'" "obj_out ob' = []"
    using obj_step_early_error[OF assms(1)] by blast
  let ?f = "\<lparr>rl_alive = True, rl_upstream = False, rl_object = ob',
              rl_out = [Send_With_EOM 429 ''Too Many Requests'' [] '''']\<rparr>"
  have "server_step E (Accept clock msg) s = Inr (s\<lparr>sv_txns := sv_txns s @ [Filtered ?f], sv_counts := ptr\<rparr>)"
    using assms o(1) by (simp add: server_onRequest_def rl_defs)
  moreover have "txn_step E (Client On_Upgrade) (Filtered ?f, w) = Inl Undefined" for w
    using rl_step_upgrade[of ?f "\<lambda>e. obj_step E (Client e)"] by simp
  moreover have "\<exists>f'. run (\<lambda>e. txn_step E (Client e)) es (Filtered ?f, w) = Inr (Filtered f', w) \<and> rl_out f' = rl_out ?f"
    if "follows_protocol Some es Serving" "On_Upgrade \<notin> set es" for es w
    using that by (intro run_limited) simp_all
  ultimately show ?thesis using o(2,3) by (intro exI[of _ ?f]) (auto simp del: server_step.simps txn_step.simps)
qed

theorem limited_request_shielded_witness:
  "\<exists>f. server_step sample_server_env (Accept (0, 0, 0)
          (create_request\<lparr>msg_header_exists := (\<lambda>h. h = ''CF-Connecting-IP'')\<rparr>)) sample_start =
        Inr (sample_start\<lparr>sv_txns := [Filtered f]\<rparr>) \<and>
     rl_out f = [Send_With_EOM 429 ''Too Many Requests'' [] ''''] \<and> obj_out (rl_object f) = []"
proof -
  let ?msg = "create_request\<lparr>msg_header_exists := (\<lambda>h. h = ''CF-Connecting-IP'')\<rparr>"
  have "route sample_server_env ?msg = Inr (Obj_Make new_MakeUrlRequestHandler)"
    by (simp add: route_def create_request_def frontend_lookup_def starts_with_def)
  moreover have "aap_onRequest (se_inSubnet sample_server_env) (se_tryFromString sample_server_env)
      (se_config sample_server_env) (0, 0, 0) ?msg (sv_counts sample_start) = Inr (Limited, sv_counts sample_start)"
    by (simp add: aap_onRequest_def is_protected_def resolve_client_ip_def create_request_def sample_server_env_def
        can_trust_cf_connecting_ip_def sample_make_env_def initial_config_def)
  ultimately obtain f where "server_step sample_server_env (Accept (0, 0, 0) ?msg) sample_start =
      Inr (sample_start\<lparr>sv_txns := sv_txns sample_start @ [Filtered f], sv_counts := sv_counts sample_start\<rparr>)"
    "rl_out f = [Send_With_EOM 429 ''Too Many Requests'' [] '''']" "obj_out (rl_object f) = []"
    using limited_request_shielded[of sample_server_env ?msg "Obj_Make new_MakeUrlRequestHandler" "(0, 0, 0)" sample_start
        "sv_counts sample_start"] by blast
  then show ?thesis by (intro exI[of _ f]) (simp add: start_server_def)
qed


section \<open>One answer\<close>

text \<open>
  The responses a handler has opened, and the one that a redirect owes.  Create requests are
  left out: their bound counts the calls of \<open>onEOM\<close> and of the connector too.
\<close>

fun obj_weight :: "handler_obj \<times> 'r world \<Rightarrow> nat" where
  "obj_weight (Obj_Redirect h, w) = redirect_weight (h, w_db w)"
| "obj_weight (Obj_Static h, w) = responses (sh_out h)"
| "obj_weight (ob, w) = length (obj_out ob)"

fun is_make :: "handler_obj \<Rightarrow> bool" where
  "is_make (Obj_Make h) = True"
| "is_make _ = False"

fun is_client_request :: "'ip obj_event \<Rightarrow> bool" where
  "is_client_request (Client c) = is_request c"
| "is_client_request _ = False"

interpretation object: handler
  "obj_step E :: 'ip obj_event \<Rightarrow> handler_obj \<times> 'r world \<Rightarrow> (handler_obj \<times> 'r world) res"
  "\<lambda>s. \<not> is_make (fst s)" obj_weight is_client_request
  for E :: "('j, 'net, 'r, 'ip) server_env"
proof
  fix e :: "'ip obj_event" and s s' :: "handler_obj \<times> 'r world"
  assume kind: "\<not> is_make (fst s)" and step: "obj_step E e s = Inr s'"
  obtain ob w where s: "s = (ob, w)" by fastforce
  show "\<not> is_make (fst s')"
    using kind step s by (cases ob) (auto simp: res_map_eq_Inr)
  show "obj_weight s' \<le> obj_weight s + (if is_client_request e then 1 else 0)"
  proof (cases ob)
    case (Obj_Frontend h)
    then show ?thesis
      using step s frontend.step_weight[OF TrueI, of _ h]
      by (cases e) (force simp: res_map_eq_Inr step_if_def)+
  next
    case (Obj_Static h)
    then show ?thesis
      using step s static.step_weight[OF TrueI, of "se_open_file E" _ "(h, w_cache w)"]
      by (cases e) (force simp: res_map_eq_Inr step_if_def simp del: static_step.simps)+
  next
    case (Obj_Redirect h)
    then show ?thesis
      using step s redirect.step_weight[OF TrueI, of "se_db E" _ "(h, w_db w)"]
      by (cases e) (force simp: res_map_eq_Inr step_if_def simp del: redirect_step.simps)+
  next
    case (Obj_Not_Found h)
    then show ?thesis
      using step s not_found.step_weight[OF TrueI, of _ h]
      by (cases e) (force simp: res_map_eq_Inr step_if_def)+
  qed (use kind s in simp)
qed

lemma route_weight: "route E msg = Inr ob \<Longrightarrow> \<not> is_make ob \<Longrightarrow> obj_weight (ob, w) = 0"
  by (auto simp: route_def Let_def res_bind_eq_Inr frontend_lookup_def redirect_weight_def
      new_StaticHandler_def new_NotFoundHandler_def new_UrlRedirectHandler_def split: if_splits option.splits)

text \<open>
  C10  A transaction is answered at most once.  Whatever handler a request is routed to, other than
  the one for new short URLs, however its callbacks (in proxygen's order), its file reads, its
  lookups and the closures they queue interleave: at most one response is opened.
\<close>

theorem answered_at_most_once:
  assumes "route E msg = Inr ob" and "\<And>h. ob \<noteq> Obj_Make h"
    and "follows_protocol callback_of es Fresh" and "run (obj_step E) es (ob, w) = Inr (ob', w')"
  shows "responses (obj_out ob') \<le> 1"
proof -
  have make: "\<not> is_make ob" using assms(2) by (cases ob) auto
  note fresh = route_weight[OF assms(1) make, of w]
  have "length (filter is_client_request es) = length (filter (\<lambda>e. \<exists>c. callback_of e = Some c \<and> is_request c) es)"
    by (rule arg_cong[where f = length], rule filter_cong) (auto elim: is_client_request.elims callback_of.elims)
  then have "obj_weight (ob', w') \<le> 1"
    using object.run_weight[OF _ assms(4)] make fresh protocol_requests[OF assms(3)]
    by (simp add: less_phase_def less_eq_phase_def)
  then show ?thesis
    using responses_le[of "obj_out ob'"] by (cases ob') (auto simp: redirect_weight_def)
qed


theorem answered_at_most_once_witness:
  "\<exists>h w'. run (obj_step sample_server_env)
        [Client (On_Request (get_request ''/k'')), Url_Lookup, Client On_EOM, Url_Reply, Url_Reply, Client Request_Complete]
        (Obj_Redirect (new_UrlRedirectHandler ''k''), \<lparr>w_db = [''k'' \<mapsto> ''http://a''], w_cache = None, w_timer = None\<rparr>) =
      Inr (Obj_Redirect h, w') \<and> responses (rd_out h) \<le> 1"
proof -
  let ?es = "[Client (On_Request (get_request ''/k'')), Url_Lookup, Client On_EOM, Url_Reply, Url_Reply, Client Request_Complete]"
  have "slug_get sample_server_env ''k'' (get_request ''/k'')" by (simp add: slug_get_def get_request_def)
  then have r: "route sample_server_env (get_request ''/k'') = Inr (Obj_Redirect (new_UrlRedirectHandler ''k''))"
    by (rule route_slug) (simp_all add: alphabet_def)
  obtain h w' where s: "run (obj_step sample_server_env) ?es
      (Obj_Redirect (new_UrlRedirectHandler ''k''), \<lparr>w_db = [''k'' \<mapsto> ''http://a''], w_cache = None, w_timer = None\<rparr>) =
      Inr (Obj_Redirect h, w')"
    by (simp add: step_if_def new_UrlRedirectHandler_def redirect_onRequest_def redirect_lookup_def redirect_reply_def
        Let_def rd_send_def db_get_fast_def mem_rocksdb_def get_request_def)
  have p: "follows_protocol callback_of ?es Fresh" by simp
  from answered_at_most_once[OF r _ p s] s show ?thesis by auto
qed

end
