(* ===== verification/Startup.thy ===== *)
theory Startup
  imports Server_Properties
begin

text \<open>
  \<^verbatim>\<open>main\<close> of \<^verbatim>\<open>url_shortener/web_server.cc\<close>: reading the configuration, opening the database, caching
  the frontend and configuring the HTTP server, up to the call that starts it; and what the end
  of \<^verbatim>\<open>main\<close> does to the objects.  The flags, the environment, the files and the network are
  arguments.
\<close>

section \<open>What main starts\<close>

datatype protocol = HTTP | HTTP2

record listener =
  ln_host :: string
  ln_port :: u16
  ln_protocol :: protocol

datatype signal = SIGINT | SIGTERM

text \<open>The factories, in the order in which they are added to the chain.\<close>

datatype factory = Anti_Abuse_Protection | My_Request_Handler_Factory

text \<open>The options that \<^verbatim>\<open>main\<close> sets on \<open>HTTPServerOptions\<close>; times are in milliseconds.\<close>

record http_server_options =
  opt_threads :: nat
  opt_idleTimeout :: nat
  opt_shutdownOn :: "signal list"
  opt_enableContentCompression :: bool
  opt_handlerFactories :: "factory list"
  opt_initialReceiveWindow :: u32
  opt_receiveStreamWindowSize :: u32
  opt_receiveSessionWindowSize :: nat
  opt_h2cEnabled :: bool

text \<open>
  The flags are \<open>mn_config_file\<close>, \<open>mn_h2_port\<close> and \<open>mn_threads\<close>; \<open>mn_cpus\<close> is what
  \<open>sysconf(_SC_NPROCESSORS_ONLN)\<close> returns.  \<open>mn_address\<close> says whether \<open>SocketAddress\<close> resolves a
  host and \<open>mn_bind\<close> whether the server can bind; both throw if not.
\<close>

record ('net, 'r) main_env =
  mn_config_file :: path
  mn_h2_port :: "32 word"
  mn_threads :: "32 word"
  mn_cpus :: "64 word"
  mn_getenv :: "string \<Rightarrow> string option"
  mn_status :: fs_status
  mn_tryCreateNetwork :: "string \<Rightarrow> 'net option"
  mn_LoadFile :: "path \<Rightarrow> yaml_node res"
  mn_files :: file_system
  mn_rocksdb :: "'r rocksdb"
  mn_address :: "string \<Rightarrow> bool"
  mn_bind :: "listener list \<Rightarrow> bool"

record ('net, 'r) started =
  st_config :: "'net ReadOnlyAppConfig"
  st_svc :: UrlShorteningConfig
  st_listeners :: "listener list"
  st_db :: "'r ShortenedUrlsDatabase"
  st_frontend :: dir_cache
  st_options :: http_server_options

definition load_config :: "('net, 'r) main_env \<Rightarrow> 'net ReadOnlyAppConfig res" where
  "load_config M =
     (if mn_config_file M \<noteq> '''' then
        res_bind (fs_exists (mn_status M) (mn_config_file M)) (\<lambda>ex.
        res_bind (check_that ex) (\<lambda>_.
        new_from_yaml (mn_status M) (mn_tryCreateNetwork M) (mn_LoadFile M) (mn_config_file M)))
      else new_from_env (mn_getenv M) (mn_status M) (mn_tryCreateNetwork M))"

text \<open>\<open>SocketAddress(host, port, true)\<close>, with the \<open>int32\<close> flag narrowed to a port.\<close>

definition socket_address ::
  "('net, 'r) main_env \<Rightarrow> string \<Rightarrow> u16 \<Rightarrow> protocol \<Rightarrow> listener res" where
  "socket_address M host port protocol =
     (if mn_address M host then Inr \<lparr>ln_host = host, ln_port = port, ln_protocol = protocol\<rparr>
      else Inl (Throws (Runtime_Error ''system_error'')))"

text \<open>\<open>FLAGS_threads\<close> is an \<open>int32\<close>, to which the \<open>long\<close> of \<open>sysconf\<close> is narrowed.\<close>

definition thread_count :: "('net, 'r) main_env \<Rightarrow> 32 word res" where
  "thread_count M =
     (if sint (mn_threads M) \<le> 0 then
        (let n = ucast (mn_cpus M) :: 32 word in res_bind (check_that (sint n > 0)) (\<lambda>_. Inr n))
      else Inr (mn_threads M))"

definition server_options :: "32 word \<Rightarrow> http_server_options" where
  "server_options threads =
     \<lparr>opt_threads = nat (sint threads mod 2 ^ 64), opt_idleTimeout = 60000, opt_shutdownOn = [SIGINT, SIGTERM],
      opt_enableContentCompression = False,
      opt_handlerFactories = [Anti_Abuse_Protection, My_Request_Handler_Factory],
      opt_initialReceiveWindow = push_bit 20 1, opt_receiveStreamWindowSize = push_bit 20 1,
      opt_receiveSessionWindowSize = 10 * 2 ^ 20, opt_h2cEnabled = True\<rparr>"

text \<open>Up to \<open>server.start()\<close>; an exception that leaves \<^verbatim>\<open>main\<close> ends the process.\<close>

definition main_startup :: "('net, 'r) main_env \<Rightarrow> ('net, 'r) started res" where
  "main_startup M =
     at_noexcept (
     res_bind (load_config M) (\<lambda>cfg.
     let svc = new_UrlShorteningConfig (cfg_alphabet cfg) (slug_length cfg) (the (highwayhash_key cfg)) in
     res_bind (socket_address M (web_server_bind_host cfg) (web_server_port cfg) HTTP) (\<lambda>http.
     res_bind (socket_address M (web_server_bind_host cfg) (ucast (mn_h2_port M)) HTTP2) (\<lambda>http2.
     res_bind (thread_count M) (\<lambda>threads.
     res_bind (db_open (mn_rocksdb M) (urls_db_path cfg)) (\<lambda>db.
     res_bind (build_frontend_dir_cache (mn_files M) (frontend_doc_root cfg)) (\<lambda>frontend.
     if mn_bind M [http, http2]
     then Inr \<lparr>st_config = cfg, st_svc = svc, st_listeners = [http, http2], st_db = db,
               st_frontend = frontend, st_options = server_options threads\<rparr>
     else Inl (Throws (Runtime_Error ''bind'')))))))))"

text \<open>
  After the server has stopped, \<^verbatim>\<open>main\<close> destroys its objects in reverse order: the database is
  closed and the configuration goes to its deleter.
\<close>

definition main_exit :: "'r rocksdb \<Rightarrow> ('net, 'r) started \<Rightarrow> int res" where
  "main_exit R S =
     (case db_destructor R (st_db S) of
        (d, logged) \<Rightarrow> res_map (\<lambda>_. 0) (ReadOnlyAppConfigDeleter (st_config S)))"

text \<open>The factories' environment in the running server.\<close>

definition started_env ::
  "('net, 'r) main_env \<Rightarrow> ('net, 'r) started \<Rightarrow> ('j, 'net, 'r, 'ip) server_env \<Rightarrow>
   ('j, 'net, 'r, 'ip) server_env" where
  "started_env M S E =
     E\<lparr>se_make := (se_make E)\<lparr>me_config := st_config S, me_svc := st_svc S, me_db := mn_rocksdb M\<rparr>,
       se_frontend := st_frontend S\<rparr>"

section \<open>A server that has started\<close>

lemma main_startup_InrE:
  assumes "main_startup M = Inr S"
  obtains threads where "load_config M = Inr (st_config S)"
    "st_svc S = new_UrlShorteningConfig (cfg_alphabet (st_config S)) (slug_length (st_config S))
       (the (highwayhash_key (st_config S)))"
    "st_listeners S =
       [\<lparr>ln_host = web_server_bind_host (st_config S), ln_port = web_server_port (st_config S), ln_protocol = HTTP\<rparr>,
        \<lparr>ln_host = web_server_bind_host (st_config S), ln_port = ucast (mn_h2_port M), ln_protocol = HTTP2\<rparr>]"
    "thread_count M = Inr threads" "st_options S = server_options threads"
    "db_open (mn_rocksdb M) (urls_db_path (st_config S)) = Inr (st_db S)"
    "build_frontend_dir_cache (mn_files M) (frontend_doc_root (st_config S)) = Inr (st_frontend S)"
  using assms
  by (auto simp: main_startup_def Let_def res_bind_eq_Inr socket_address_def split: if_splits)

lemma thread_count_positive: "thread_count M = Inr n \<Longrightarrow> 0 < sint n"
  by (auto simp: thread_count_def Let_def res_bind_eq_Inr split: if_splits)

lemma server_options_threads:
  assumes "0 < sint n" shows "opt_threads (server_options n) = nat (sint n)"
proof -
  have "sint n < 2 ^ 31" using sint_lt[of n] by simp
  then have "sint n mod 2 ^ 64 = sint n" using assms by (intro mod_pos_pos_trivial) simp_all
  then show ?thesis by (simp add: server_options_def)
qed

lemma new_from_env_db_path:
  "(new_from_env getenv status f :: 'net ReadOnlyAppConfig res) = Inr cfg \<Longrightarrow> urls_db_path cfg = ''''"
  by (erule new_from_env_InrE)


text \<open>A machine on which the program starts.\<close>

definition sample_main :: "(nat, string \<Rightarrow> string option) main_env" where
  "sample_main =
     \<lparr>mn_config_file = '''', mn_h2_port = 11002, mn_threads = 0, mn_cpus = 8, mn_getenv = sample_env,
      mn_status = all_exist, mn_tryCreateNetwork = (\<lambda>s. if s = ''x'' then None else Some 10),
      mn_LoadFile = (\<lambda>_. Inl Aborts), mn_files = sample_fs, mn_rocksdb = mem_rocksdb,
      mn_address = (\<lambda>_. True), mn_bind = (\<lambda>_. True)\<rparr>"

lemma sample_main_starts:
  obtains S where "main_startup sample_main = Inr S" and "slug_length (st_config S) = 4"
    and "cfg_alphabet (st_config S) = alphabet"
proof -
  obtain cfg :: "nat ReadOnlyAppConfig"
    where cfg: "new_from_env sample_env all_exist (\<lambda>s. if s = ''x'' then None else Some 10) = Inr cfg"
      "cfg_alphabet cfg = alphabet" "slug_length cfg = 4"
    by (rule sample_env_loads)
  have "load_config sample_main = Inr cfg" using cfg(1) by (simp add: load_config_def sample_main_def)
  moreover have "thread_count sample_main = Inr 8" by (simp add: thread_count_def sample_main_def)
  moreover have "build_frontend_dir_cache sample_fs root = Inr [''index.html'' \<mapsto> ''<html>'']" for root
    by (simp add: build_frontend_dir_cache_def sample_fs_def read_whole_file_def emplace_def)
  moreover have "db_open mem_rocksdb p = Inr (new_ShortenedUrlsDatabase (\<lambda>_. None) p)" for p
    by (simp add: db_open_def mem_rocksdb_def)
  ultimately show ?thesis
    using cfg(2,3) by (intro that) (auto simp: main_startup_def socket_address_def sample_main_def Let_def)
qed

text \<open>
  C25  A server that starts from the environment is well-formed: its configuration is complete, it
  listens on the two ports with at least one thread, and it serves the files of the frontend
  directory; but the database is the one at the empty path, whatever the environment says.
  With slugs of at least three characters over at most 58 symbols it has the properties of
  \<open>server_ok\<close> for every database that meets its contract.
\<close>

theorem env_started_wellformed:
  assumes "mn_config_file M = ''''" and "main_startup M = Inr S"
  shows "config_valid (mn_status M) (mn_tryCreateNetwork M) (st_config S) \<and>
    (\<exists>db. rocks_open (mn_rocksdb M) '''' = (StatusOk, db) \<and> st_db S = new_ShortenedUrlsDatabase db '''') \<and>
    st_frontend S = map_of (served_files (mn_files M) (frontend_doc_root (st_config S))) \<and>
    (\<forall>l \<in> set (st_listeners S). ln_host l = web_server_bind_host (st_config S)) \<and>
    map ln_port (st_listeners S) = [web_server_port (st_config S), ucast (mn_h2_port M)] \<and>
    0 < opt_threads (st_options S) \<and>
    (rocksdb_contract (mn_rocksdb M) view \<and> 3 \<le> slug_length (st_config S) \<and>
     length (cfg_alphabet (st_config S)) \<le> 58 \<longrightarrow> server_ok (started_env M S E) view)"
proof -
  obtain threads where s: "load_config M = Inr (st_config S)"
    "st_svc S = new_UrlShorteningConfig (cfg_alphabet (st_config S)) (slug_length (st_config S))
       (the (highwayhash_key (st_config S)))"
    "st_listeners S =
       [\<lparr>ln_host = web_server_bind_host (st_config S), ln_port = web_server_port (st_config S), ln_protocol = HTTP\<rparr>,
        \<lparr>ln_host = web_server_bind_host (st_config S), ln_port = ucast (mn_h2_port M), ln_protocol = HTTP2\<rparr>]"
    "thread_count M = Inr threads" "st_options S = server_options threads"
    "db_open (mn_rocksdb M) (urls_db_path (st_config S)) = Inr (st_db S)"
    "build_frontend_dir_cache (mn_files M) (frontend_doc_root (st_config S)) = Inr (st_frontend S)"
    using main_startup_InrE[OF assms(2)] by blast
  have env: "new_from_env (mn_getenv M) (mn_status M) (mn_tryCreateNetwork M) = Inr (st_config S)"
    using s(1) assms(1) by (simp add: load_config_def)
  note valid = new_from_env_valid[OF env]
  have "\<exists>db. rocks_open (mn_rocksdb M) '''' = (StatusOk, db) \<and> st_db S = new_ShortenedUrlsDatabase db ''''"
    using db_open_InrD[OF s(6)] new_from_env_db_path[OF env] by simp
  moreover have "st_frontend S = map_of (served_files (mn_files M) (frontend_doc_root (st_config S)))"
    using s(7) by (simp add: build_cache split: if_splits)
  moreover have "0 < opt_threads (st_options S)"
    using thread_count_positive[OF s(4)] s(5) by (simp add: server_options_threads)
  moreover have "2 \<le> length (cfg_alphabet (st_config S))" using valid by (simp add: config_valid_def)
  then have "server_ok (started_env M S E) view"
    if "rocksdb_contract (mn_rocksdb M) view" "3 \<le> slug_length (st_config S)" "length (cfg_alphabet (st_config S)) \<le> 58"
    using that s(2) by (simp add: server_ok_def started_env_def base_ok_def new_UrlShorteningConfig_def)
  ultimately show ?thesis using valid s(3) by simp
qed

theorem env_started_wellformed_witness:
  "\<exists>S. main_startup sample_main = Inr S \<and> map ln_port (st_listeners S) = [web_server_port (st_config S), 11002] \<and>
     server_ok (started_env sample_main S sample_server_env) (\<lambda>st. st)"
proof -
  obtain S where S: "main_startup sample_main = Inr S" "slug_length (st_config S) = 4"
    "cfg_alphabet (st_config S) = alphabet" by (rule sample_main_starts)
  have "mn_config_file sample_main = ''''" by (simp add: sample_main_def)
  from env_started_wellformed[OF this S(1), of "\<lambda>st. st" sample_server_env] S show ?thesis
    by (simp add: sample_main_def mem_contract)
qed

text \<open>
  Every run of the program that gets as far as starting the server ends in undefined
  behaviour, from either configuration: the deleter frees the key, an array, as one object.
\<close>

theorem main_exit_undefined:
  assumes "main_startup M = Inr S"
  shows "main_exit (mn_rocksdb M) S = Inl Undefined"
proof -
  have "load_config M = Inr (st_config S)" using assms by (rule main_startup_InrE)
  then have "new_from_env (mn_getenv M) (mn_status M) (mn_tryCreateNetwork M) = Inr (st_config S) \<or>
      new_from_yaml (mn_status M) (mn_tryCreateNetwork M) (mn_LoadFile M) (mn_config_file M) = Inr (st_config S)"
    by (auto simp: load_config_def res_bind_eq_Inr split: if_splits)
  from config_deleter_undefined[OF this] show ?thesis by (simp add: main_exit_def split: prod.split)
qed

theorem main_exit_undefined_witness:
  "\<exists>S. main_startup sample_main = Inr S \<and> main_exit mem_rocksdb S = Inl Undefined"
proof -
  obtain S where S: "main_startup sample_main = Inr S" by (rule sample_main_starts)
  from main_exit_undefined[OF this] S show ?thesis by (auto simp: sample_main_def)
qed

end
