(* ===== verification/Concurrent_Shorten.thy ===== *)
theory Concurrent_Shorten
  imports Shorten
begin

text \<open>
  \<open>do_shorten_url\<close> runs on a pool of CPU threads over one database, without a lock: each call of
  the database is atomic, the search as a whole is not.  This theory takes the function apart
  into one step per call and lets any number of searches interleave.
\<close>

section \<open>One search, call by call\<close>

text \<open>
  Where a thread stands: before a comparison of \<open>nth_try\<close>, before the insertion, returned with a
  slug (the empty one for a failure), or at a fault, which a thread does not come back from.
\<close>

datatype shorten_thread = Search u8 string | Insert string | Returned string | Faulted fault

text \<open>How a thread stands whose function has the result.\<close>

fun ended :: "string res \<Rightarrow> shorten_thread" where
  "ended (Inl f) = Faulted f"
| "ended (Inr slug) = Returned slug"

definition new_thread :: shorten_thread where
  "new_thread = Search 1 []"

definition thread_step ::
  "'r rocksdb \<Rightarrow> UrlShorteningConfig \<Rightarrow> string \<Rightarrow> shorten_thread \<times> 'r \<Rightarrow> shorten_thread \<times> 'r" where
  "thread_step R cfg long_url ts =
     (case ts of (t, st) \<Rightarrow>
        (case t of
           Search nth_try slug \<Rightarrow>
             (if nth_try < 100 then
                (case generate_slug cfg slug long_url (nth_try + 1) of
                   Inl f \<Rightarrow> (Faulted f, st)
                 | Inr None \<Rightarrow> (Returned [], st)
                 | Inr (Some slug') \<Rightarrow>
                     (case db_get R st slug' of (got, st') \<Rightarrow>
                        (case got of
                           Inl err \<Rightarrow> (if err = NotFound then Insert slug' else Returned [], st')
                         | Inr got_str \<Rightarrow>
                             (if got_str = [] then Insert slug'
                              else if got_str = long_url then Returned slug'
                              else Search (nth_try + 1) slug', st'))))
              else (Insert slug, st))
         | Insert slug \<Rightarrow>
             (case db_put R st slug long_url of
                (Some err, st') \<Rightarrow> (Returned [], st')
              | (None, st') \<Rightarrow> (Returned slug, st'))
         | Returned slug \<Rightarrow> (Returned slug, st)
         | Faulted f \<Rightarrow> (Faulted f, st)))"

text \<open>Where the loop of \<open>do_shorten_url\<close> leaves a thread.\<close>

fun after_loop :: "loop_exit res \<Rightarrow> shorten_thread" where
  "after_loop (Inl f) = Faulted f"
| "after_loop (Inr (Return_With slug)) = Returned slug"
| "after_loop (Inr (Break_With slug)) = Insert slug"

lemma thread_loop:
  assumes "shorten_loop (db_get R) cfg long_url n slug st = (r, st')"
  shows "\<exists>m \<le> Suc (100 - unat n). (thread_step R cfg long_url ^^ m) (Search n slug, st) = (after_loop r, st')"
  using assms
proof (induction rule: shorten_loop_rule)
  case (collision n slug st s v st1 r st')
  then obtain m where m: "m \<le> Suc (100 - unat (n + 1))"
    "(thread_step R cfg long_url ^^ m) (Search (n + 1) s, st1) = (after_loop r, st')" by blast
  have "thread_step R cfg long_url (Search n slug, st) = (Search (n + 1) s, st1)"
    using collision by (simp add: thread_step_def)
  then have "(thread_step R cfg long_url ^^ Suc m) (Search n slug, st) = (after_loop r, st')"
    using m(2) by (simp add: funpow_Suc_right del: funpow.simps)
  moreover have "Suc m \<le> Suc (100 - unat n)"
    using m(1) try_measure[OF collision.hyps(1)] collision.hyps(1) by (simp add: word_less_nat_alt)
  ultimately show ?case by blast
qed (intro exI[of _ 1], simp add: thread_step_def)+

lemma thread_stays: "(thread_step R cfg long_url ^^ j) (ended x, y) = (ended x, y)"
proof -
  have "thread_step R cfg long_url (ended x, y) = (ended x, y)"
    by (cases x) (simp_all add: thread_step_def)
  then show ?thesis by (induction j) simp_all
qed

lemma thread_returns:
  "\<exists>m \<le> 101. \<forall>j. (thread_step R cfg long_url ^^ (m + j)) (new_thread, st) =
     (case do_shorten_url (db_get R) (db_put R) cfg long_url st of (r, st') \<Rightarrow> (ended r, st'))"
proof -
  obtain r st1 where l: "shorten_loop (db_get R) cfg long_url 1 [] st = (r, st1)" by fastforce
  then obtain m where m: "m \<le> 100" "(thread_step R cfg long_url ^^ m) (new_thread, st) = (after_loop r, st1)"
    using thread_loop[OF l] by (auto simp: new_thread_def)
  have "thread_step R cfg long_url (after_loop r, st1) =
      (case do_shorten_url (db_get R) (db_put R) cfg long_url st of (r, st') \<Rightarrow> (ended r, st'))"
    using l by (cases "r" rule: after_loop.cases)
      (auto simp: do_shorten_url_def thread_step_def split: prod.split option.split)
  then have s: "(thread_step R cfg long_url ^^ Suc m) (new_thread, st) =
      (case do_shorten_url (db_get R) (db_put R) cfg long_url st of (r, st') \<Rightarrow> (ended r, st'))"
    using m(2) by simp
  have "(thread_step R cfg long_url ^^ (Suc m + j)) (new_thread, st) =
      (case do_shorten_url (db_get R) (db_put R) cfg long_url st of (r, st') \<Rightarrow> (ended r, st'))" for j
  proof -
    have "(thread_step R cfg long_url ^^ (Suc m + j)) (new_thread, st) =
        (thread_step R cfg long_url ^^ j) ((thread_step R cfg long_url ^^ Suc m) (new_thread, st))"
      unfolding add.commute[of "Suc m" j] funpow_add comp_apply ..
    then show ?thesis unfolding s by (simp add: thread_stays split: prod.split)
  qed
  then show ?thesis using m(1) by (intro exI[of _ "Suc m"]) simp
qed

text \<open>
  One thread alone is \<open>do_shorten_url\<close>: whatever the database answers, after at most 101 calls
  and comparisons the thread has returned what the function returns, with the database as the
  function leaves it, and it stays there.
\<close>

theorem thread_is_do_shorten_url:
  "\<exists>m \<le> 101. \<forall>j. (thread_step R cfg long_url ^^ (m + j)) (new_thread, st) =
     (case do_shorten_url (db_get R) (db_put R) cfg long_url st of (r, st') \<Rightarrow> (ended r, st'))"
  by (rule thread_returns)

section \<open>Any number of searches\<close>

text \<open>A pool of threads, each with its URL; a schedule names the thread of each step.\<close>

definition pool_step ::
  "'r rocksdb \<Rightarrow> UrlShorteningConfig \<Rightarrow> nat \<Rightarrow> (string \<times> shorten_thread) list \<times> 'r \<Rightarrow>
   (string \<times> shorten_thread) list \<times> 'r" where
  "pool_step R cfg i ps =
     (case ps of (pool, st) \<Rightarrow>
        if i < length pool then
          (case pool ! i of (url, t) \<Rightarrow>
             (case thread_step R cfg url (t, st) of (t', st') \<Rightarrow> (pool[i := (url, t')], st')))
        else (pool, st))"

definition interleave ::
  "'r rocksdb \<Rightarrow> UrlShorteningConfig \<Rightarrow> nat list \<Rightarrow> (string \<times> shorten_thread) list \<times> 'r \<Rightarrow>
   (string \<times> shorten_thread) list \<times> 'r" where
  "interleave R cfg sched ps = fold (pool_step R cfg) sched ps"

definition new_pool :: "string list \<Rightarrow> (string \<times> shorten_thread) list" where
  "new_pool urls = map (\<lambda>url. (url, new_thread)) urls"

text \<open>A thread that will not insert under a key that is taken.\<close>

fun avoids :: "string \<Rightarrow> shorten_thread \<Rightarrow> bool" where
  "avoids k (Search n slug) = (n < 100)"
| "avoids k (Insert slug) = (slug \<noteq> k)"
| "avoids k (Returned slug) = True"
| "avoids k (Faulted f) = True"

lemma thread_step_avoids:
  assumes contract: "rocksdb_contract R view" and bounded: "tries_bounded cfg url"
    and taken: "view st k = Some v" "v \<noteq> []"
    and avoids: "avoids k t" and step: "thread_step R cfg url (t, st) = (t', st')"
  shows "avoids k t' \<and> view st' k = Some v"
proof (cases t)
  case (Search n slug)
  then have n: "n < 100" using avoids by simp
  show ?thesis
  proof (cases "generate_slug cfg slug url (n + 1)")
    case (Inr x)
    then obtain s where s: "generate_slug cfg slug url (n + 1) = Inr (Some s)"
      using generate_slug_not_None by (cases x) auto
    then have "n + 1 \<noteq> 100" using bounded by (auto simp: tries_bounded_def)
    then have "n + 1 < 100" using n by unat_arith
    moreover obtain got st1 where g: "db_get R st s = (got, st1)" by fastforce
    moreover note url_store.get_view[OF url_store_db[OF contract] g]
      url_store.get_found[OF url_store_db[OF contract]] url_store.get_missing[OF url_store_db[OF contract]]
    ultimately show ?thesis
      using step Search n s taken
      by (auto simp: thread_step_def split: sum.splits if_splits)
  qed (use step Search n taken in \<open>auto simp: thread_step_def\<close>)
next
  case (Insert slug)
  then show ?thesis
    using step avoids taken url_store.put_frame[OF url_store_db[OF contract]]
    by (auto simp: thread_step_def split: prod.splits option.splits)
qed (use step taken in \<open>auto simp: thread_step_def\<close>)

text \<open>The two steps of a search whose first slug is free, on a database that answers.\<close>

lemma free_search_step:
  assumes contract: "rocksdb_contract R view" and healthy: "rocksdb_healthy R" and base: "base_ok cfg"
    and "2 * unat (usc_slug_length cfg) \<le> length (slug_stream cfg url)" and "view st (slug_at cfg url 1) = None"
  obtains st' where "thread_step R cfg url (new_thread, st) = (Insert (slug_at cfg url 1), st')" "view st' = view st"
proof -
  have "generate_slug cfg [] url (1 + 1) = Inr (Some (slug_at cfg url 1))"
    using base assms(4) by (simp add: generate_slug_stream)
  moreover obtain st' where "db_get R st (slug_at cfg url 1) = (Inl NotFound, st')" "view st' = view st"
    using healthy_url_store.sget_none[OF healthy_url_store_db[OF contract healthy] assms(5)] by blast
  ultimately show ?thesis
    using that by (simp add: thread_step_def new_thread_def word_less_nat_alt)
qed

lemma insert_step:
  assumes contract: "rocksdb_contract R view" and healthy: "rocksdb_healthy R"
  obtains st' where "thread_step R cfg url (Insert slug, st) = (Returned slug, st')"
    "view st' = (view st)(slug \<mapsto> url)"
proof -
  note store = healthy_url_store_db[OF contract healthy]
  obtain st' where p: "db_put R st slug url = (None, st')"
    using healthy_url_store.put_healthy[OF store, of st slug url] by (cases "db_put R st slug url") auto
  with url_store.put_ok[OF healthy_url_store.axioms(1)[OF store] p] show ?thesis
    using that by (simp add: thread_step_def)
qed

text \<open>Two URLs whose first slug is the same.\<close>

lemma binary_slugs:
  assumes "url \<in> {test_url, []}"
  shows "2 \<le> length (slug_stream binary_svc url)" "slug_at binary_svc url 1 = ''1''"
proof -
  have d: "digits_of 2 0xEDB941BCE45F8254 = 0 # 0 # digits_of 2 0x3B6E506F3917E095"
    "digits_of 2 0xDD44482AC2C874F5 = 1 # 0 # digits_of 2 0x3751120AB0B21D3D"
    by (subst digits_of.simps, simp, subst digits_of.simps, simp)+
  have "\<exists>n ws. slug_stream binary_svc test_url = n # 0 # ws"
    using d(1)[unfolded numeral_2_eq_2]
    by (simp add: slug_stream_def stream_from_def binary_svc_def new_UrlShorteningConfig_def
        bytes_of_string_def test_url_def test_key_def highway_hash256_zero_byte[unfolded test_key_def])
  moreover have "\<exists>n ws. slug_stream binary_svc [] = n # 0 # ws"
    using d(2)[unfolded numeral_2_eq_2]
    by (simp add: slug_stream_def stream_from_def binary_svc_def new_UrlShorteningConfig_def
        bytes_of_string_def test_key_def highway_hash256_empty[unfolded test_key_def])
  ultimately obtain n ws where s: "slug_stream binary_svc url = n # 0 # ws" using assms by blast
  show "2 \<le> length (slug_stream binary_svc url)" by (simp add: s)
  show "slug_at binary_svc url 1 = ''1''"
    by (simp add: slug_at_def s) (simp add: binary_svc_def new_UrlShorteningConfig_def alphabet_def)
qed

section \<open>Searches that cannot meet\<close>

text \<open>The slugs a search can look up or insert.\<close>

definition tried :: "UrlShorteningConfig \<Rightarrow> string \<Rightarrow> string set" where
  "tried cfg url =
     set (map (slug_at cfg url)
       (filter (\<lambda>k. Suc k * unat (usc_slug_length cfg) \<le> length (slug_stream cfg url)) [1..<100]))"

fun within :: "UrlShorteningConfig \<Rightarrow> string \<Rightarrow> shorten_thread \<Rightarrow> bool" where
  "within cfg url (Search n slug) = (n \<noteq> 0 \<and> (n < 100 \<or> slug \<in> tried cfg url))"
| "within cfg url (Insert slug) = (slug \<in> tried cfg url)"
| "within cfg url (Returned slug) = True"
| "within cfg url (Faulted f) = True"

lemma generate_slug_tried:
  assumes "base_ok cfg" and "n \<noteq> 0" and "n < 100" and "generate_slug cfg dst url (n + 1) = Inr x"
  obtains s where "x = Some s" and "s \<in> tried cfg url"
proof -
  have n: "unat (n + 1) = Suc (unat n)" "0 < unat n" "unat n < 100"
    using assms(2,3) by (simp_all add: unat_word_ariths word_less_nat_alt unat_gt_0)
  moreover have "n + 1 \<noteq> 0" using assms(3) by (rule next_try_nonzero)
  ultimately show ?thesis
    using assms(1,4) that[of "slug_at cfg url (unat n)"]
    by (auto simp: generate_slug_stream tried_def split: if_splits)
qed

text \<open>A step stays within these slugs, depends on nothing else and changes nothing else.\<close>

lemma thread_step_within:
  assumes base: "base_ok cfg" and t: "within cfg url t" and step: "thread_step R cfg url (t, st) = (t', st')"
  shows "within cfg url t'"
proof (cases t)
  case (Search n slug)
  show ?thesis
  proof (cases "n < 100")
    case n: True
    show ?thesis
    proof (cases "generate_slug cfg slug url (n + 1)")
      case (Inr x)
      then obtain s where s: "generate_slug cfg slug url (n + 1) = Inr (Some s)" "s \<in> tried cfg url"
        using generate_slug_tried[OF base _ n Inr] Search t by auto
      then show ?thesis
        using step Search n next_try_nonzero[OF n] by (auto simp: thread_step_def split: prod.splits sum.splits if_splits)
    qed (use step Search n in \<open>auto simp: thread_step_def\<close>)
  qed (use step Search t in \<open>auto simp: thread_step_def\<close>)
qed (use step in \<open>auto simp: thread_step_def split: prod.splits option.splits\<close>)

lemma thread_step_frame:
  assumes contract: "rocksdb_contract R view" and base: "base_ok cfg" and t: "within cfg url t"
    and step: "thread_step R cfg url (t, st) = (t', st')" and s: "s \<notin> tried cfg url"
  shows "view st' s = view st s"
proof (cases t)
  case (Insert slug)
  then have "s \<noteq> slug" using s t by auto
  then show ?thesis
    using step Insert url_store.put_frame[OF url_store_db[OF contract]]
    by (auto simp: thread_step_def split: prod.splits option.splits)
qed (use step url_store.get_view[OF url_store_db[OF contract]] in
      \<open>auto simp: thread_step_def split: sum.splits option.splits prod.splits if_splits\<close>)

definition same_on :: "string set \<Rightarrow> ('r \<Rightarrow> string \<Rightarrow> string option) \<Rightarrow> 'r \<Rightarrow> 'r \<Rightarrow> bool" where
  "same_on S view a b \<longleftrightarrow> (\<forall>s \<in> S. view a s = view b s)"

lemma thread_step_local:
  assumes contract: "rocksdb_contract R view" and healthy: "rocksdb_healthy R" and base: "base_ok cfg"
    and t: "within cfg url t" and same: "same_on (tried cfg url) view a b"
    and sa: "thread_step R cfg url (t, a) = (ta, a')" and sb: "thread_step R cfg url (t, b) = (tb, b')"
  shows "ta = tb \<and> same_on (tried cfg url) view a' b'"
proof (cases t)
  case (Search n slug)
  note store = healthy_url_store_db[OF contract healthy]
  note view = url_store.get_view[OF url_store_db[OF contract]]
  show ?thesis
  proof (cases "n < 100")
    case n: True
    show ?thesis
    proof (cases "generate_slug cfg slug url (n + 1)")
      case (Inr x)
      then obtain s where s: "generate_slug cfg slug url (n + 1) = Inr (Some s)" "s \<in> tried cfg url"
        using generate_slug_tried[OF base _ n Inr] Search t by auto
      obtain ga a1 gb b1 where g: "db_get R a s = (ga, a1)" "db_get R b s = (gb, b1)" by fastforce
      have "view a s = view b s" using same s(2) by (simp add: same_on_def)
      then have "ga = gb"
        using healthy_url_store.get_cases[OF store, of a s] healthy_url_store.get_cases[OF store, of b s] g by simp
      moreover have "same_on (tried cfg url) view a1 b1"
        using same view[OF g(1)] view[OF g(2)] by (simp add: same_on_def)
      ultimately show ?thesis
        using sa sb s(1) n Search g by (auto simp: thread_step_def split: sum.splits if_splits)
    qed (use sa sb Search n same in \<open>auto simp: thread_step_def\<close>)
  qed (use sa sb Search same in \<open>auto simp: thread_step_def\<close>)
next
  case (Insert slug)
  note store = healthy_url_store_db[OF contract healthy]
  obtain a1 b1 where p: "db_put R a slug url = (None, a1)" "db_put R b slug url = (None, b1)"
    using healthy_url_store.put_healthy[OF store, of a slug url] healthy_url_store.put_healthy[OF store, of b slug url]
    by (metis prod.collapse)
  note url_store.put_ok[OF url_store_db[OF contract] p(1)] url_store.put_ok[OF url_store_db[OF contract] p(2)]
  then show ?thesis using sa sb Insert p same by (auto simp: thread_step_def same_on_def)
qed (use sa sb same in \<open>auto simp: thread_step_def\<close>)


text \<open>
  What a pool does to one of its threads: as many of its own steps as the schedule gives it, on
  a database that differs only outside its slugs.
\<close>

definition solo ::
  "'r rocksdb \<Rightarrow> UrlShorteningConfig \<Rightarrow> string \<Rightarrow> nat \<Rightarrow> 'r \<Rightarrow> shorten_thread \<times> 'r" where
  "solo R cfg url m st = (thread_step R cfg url ^^ m) (new_thread, st)"

definition projects ::
  "'r rocksdb \<Rightarrow> UrlShorteningConfig \<Rightarrow> ('r \<Rightarrow> string \<Rightarrow> string option) \<Rightarrow> 'r \<Rightarrow> string list \<Rightarrow> nat \<Rightarrow> nat \<Rightarrow>
   (string \<times> shorten_thread) list \<times> 'r \<Rightarrow> bool" where
  "projects R cfg view st0 urls i m ps =
     (case ps of (pool, st) \<Rightarrow>
        map fst pool = urls \<and> (\<forall>(url, t) \<in> set pool. within cfg url t) \<and>
        snd (pool ! i) = fst (solo R cfg (urls ! i) m st0) \<and>
        same_on (tried cfg (urls ! i)) view st (snd (solo R cfg (urls ! i) m st0)))"

lemma pool_step_projects:
  assumes contract: "rocksdb_contract R view" and healthy: "rocksdb_healthy R" and base: "base_ok cfg"
    and i: "i < length urls"
    and apart: "\<And>j. j < length urls \<Longrightarrow> j \<noteq> i \<Longrightarrow> tried cfg (urls ! i) \<inter> tried cfg (urls ! j) = {}"
    and inv: "projects R cfg view st0 urls i m (pool, st)"
  shows "projects R cfg view st0 urls i (if j = i then Suc m else m) (pool_step R cfg j (pool, st))"
proof -
  let ?url = "urls ! i"
  have urls: "map fst pool = urls" and own: "\<forall>(url, t) \<in> set pool. within cfg url t"
    and at_i: "snd (pool ! i) = fst (solo R cfg ?url m st0)"
    and same: "same_on (tried cfg ?url) view st (snd (solo R cfg ?url m st0))"
    using inv by (simp_all add: projects_def)
  have len: "length pool = length urls" using urls by auto
  show ?thesis
  proof (cases "j < length pool")
    case False
    then show ?thesis using inv i len by (auto simp: pool_step_def)
  next
    case j: True
    obtain t where t: "pool ! j = (urls ! j, t)"
      using urls j nth_map[OF j, of fst] by (cases "pool ! j") auto
    then have w: "within cfg (urls ! j) t" using own nth_mem[OF j] by auto
    obtain t' st' where s: "thread_step R cfg (urls ! j) (t, st) = (t', st')" by fastforce
    let ?pool = "pool[j := (urls ! j, t')]"
    have p: "pool_step R cfg j (pool, st) = (?pool, st')" using j t s by (simp add: pool_step_def)
    have urls': "map fst ?pool = urls" by (simp add: map_update urls)
    have own': "\<forall>(url, t) \<in> set ?pool. within cfg url t"
      using own thread_step_within[OF base w s] set_update_subset_insert[of pool j "(urls ! j, t')"] by blast
    show ?thesis
    proof (cases "j = i")
      case True
      obtain t1 st1 where solo: "solo R cfg ?url m st0 = (t1, st1)" by fastforce
      obtain t2 st2 where s2: "thread_step R cfg ?url (t1, st1) = (t2, st2)" by fastforce
      have "t = t1" using at_i t True solo by simp
      then have "t' = t2 \<and> same_on (tried cfg ?url) view st' st2"
        using thread_step_local[OF contract healthy base, of ?url t st st1 t' st' t2 st2] w same s s2 True solo by simp
      moreover have "solo R cfg ?url (Suc m) st0 = (t2, st2)" using solo s2 by (simp add: solo_def)
      ultimately show ?thesis using True p urls' own' j by (simp add: projects_def)
    next
      case False
      have "same_on (tried cfg ?url) view st' st"
        using thread_step_frame[OF contract base w s] apart[of j] False j len by (auto simp: same_on_def)
      then show ?thesis using False p urls' own' at_i same by (simp add: projects_def same_on_def)
    qed
  qed
qed

lemma interleave_projects:
  assumes "rocksdb_contract R view" and "rocksdb_healthy R" and "base_ok cfg" and "i < length urls"
    and "\<And>j. j < length urls \<Longrightarrow> j \<noteq> i \<Longrightarrow> tried cfg (urls ! i) \<inter> tried cfg (urls ! j) = {}"
  shows "projects R cfg view st0 urls i m (pool, st) \<Longrightarrow>
    projects R cfg view st0 urls i (m + count_list sched i) (interleave R cfg sched (pool, st))"
proof (induction sched arbitrary: m pool st)
  case (Cons j sched)
  obtain pool' st' where s: "pool_step R cfg j (pool, st) = (pool', st')" by fastforce
  have "projects R cfg view st0 urls i (if j = i then Suc m else m) (pool', st')"
    using pool_step_projects[OF assms Cons.prems, of j] s by simp
  from Cons.IH[OF this] s show ?case by (auto simp: interleave_def split: if_splits)
qed (simp add: interleave_def)

lemma solo_returns:
  assumes "101 \<le> m" and "do_shorten_url (db_get R) (db_put R) cfg url st = (r, st')"
  shows "solo R cfg url m st = (ended r, st')"
proof -
  obtain k where k: "k \<le> 101" "(thread_step R cfg url ^^ (k + j)) (new_thread, st) = (ended r, st')" for j
    using thread_returns[of R cfg url st] assms(2) by auto
  then show ?thesis using k(2)[of "m - k"] assms(1) by (simp add: solo_def)
qed

text \<open>
  C17  Searches whose slugs do not meet do not disturb one another.  If no other URL of the pool has
  a slug in common with a URL, then every schedule that gives its thread 101 steps ends as
  \<open>do_shorten_url\<close> ends when it runs alone, and with the entries that it leaves.
\<close>

theorem separate_searches_serialize:
  assumes "rocksdb_contract R view" and "rocksdb_healthy R" and "base_ok cfg" and "i < length urls"
    and "\<And>j. j < length urls \<Longrightarrow> j \<noteq> i \<Longrightarrow> tried cfg (urls ! i) \<inter> tried cfg (urls ! j) = {}"
    and "101 \<le> count_list sched i"
    and "do_shorten_url (db_get R) (db_put R) cfg (urls ! i) st = (r, st1)"
  shows "\<exists>pool st'. interleave R cfg sched (new_pool urls, st) = (pool, st') \<and>
    pool ! i = (urls ! i, ended r) \<and> (\<forall>s \<in> tried cfg (urls ! i). view st' s = view st1 s)"
proof -
  have "projects R cfg view st urls i 0 (new_pool urls, st)"
    using assms(4) by (auto simp: projects_def new_pool_def new_thread_def solo_def same_on_def comp_def)
  from interleave_projects[OF assms(1-5) this, of sched]
  have p: "projects R cfg view st urls i (count_list sched i) (interleave R cfg sched (new_pool urls, st))" by simp
  obtain pool st' where s: "interleave R cfg sched (new_pool urls, st) = (pool, st')" by fastforce
  have "fst (pool ! i) = urls ! i" if "map fst pool = urls"
    using that assms(4) by (metis length_map nth_map)
  with p s solo_returns[OF assms(6,7)] show ?thesis
    by (intro exI[of _ pool] exI[of _ st']) (auto simp: projects_def same_on_def prod_eq_iff)
qed


text \<open>Slugs of twenty characters: the hash has digits for one try only.\<close>

definition wide_svc :: UrlShorteningConfig where
  "wide_svc = new_UrlShorteningConfig alphabet 20 test_key"

lemma wide_digits:
  "digits_of 58 0x72651B9BCB324A47 = [25, 17, 11, 23, 55, 18, 50, 52, 44, 7, 19]"
  "digits_of 58 0x2073624CB275E484 = [22, 39, 30, 20, 16, 2, 38, 7, 47, 24, 5]"
  "digits_of 58 0xB3AEBECCB98714FF = [55, 42, 9, 14, 41, 38, 6, 28, 8, 3, 30]"
  "digits_of 58 0x41DA233145751DF4 = [14, 21, 39, 51, 17, 37, 10, 10, 49, 0, 11]"
  by (simp_all add: digits_of.simps)

lemma wide_streams:
  "slug_stream wide_svc test_url = slug_stream (default_svc test_key) test_url"
  "slug_stream wide_svc [] = slug_stream (default_svc test_key) []"
  by (simp_all add: slug_stream_def wide_svc_def default_svc_def new_UrlShorteningConfig_def)

lemma tried_wide:
  assumes "url \<in> {test_url, []}"
  shows "tried wide_svc url = {slug_at wide_svc url 1}"
proof -
  have "length (slug_stream wide_svc url) = 44"
    using assms by (auto simp: wide_streams test_streams test_digits wide_digits)
  moreover have "unat (usc_slug_length wide_svc) = 20" by (simp add: wide_svc_def new_UrlShorteningConfig_def)
  moreover have "filter (\<lambda>k. Suc k * 20 \<le> 44) [1..<100] = [1]" by (simp add: upt_rec)
  ultimately show ?thesis unfolding tried_def by simp
qed

lemma wide_slugs_differ: "slug_at wide_svc test_url 1 \<noteq> slug_at wide_svc [] 1"
proof -
  have "unat (usc_slug_length wide_svc) = 20" by (simp add: wide_svc_def new_UrlShorteningConfig_def)
  then have "hd (slug_at wide_svc test_url 1) \<noteq> hd (slug_at wide_svc [] 1)"
    by (simp add: slug_at_def wide_streams test_streams test_digits wide_digits alphabet_def)
  then show ?thesis by metis
qed

lemma count_round_robin: "count_list (concat (replicate n [0, Suc 0])) 0 = n"
  by (induction n) simp_all

theorem separate_searches_serialize_witness:
  "\<exists>pool st'. interleave mem_rocksdb wide_svc (concat (replicate 101 [0, 1])) (new_pool [test_url, []], Map.empty) =
     (pool, st') \<and>
     pool ! 0 = (test_url, ended (fst (do_shorten_url (db_get mem_rocksdb) (db_put mem_rocksdb) wide_svc test_url Map.empty)))"
proof -
  obtain r st1 where d: "do_shorten_url (db_get mem_rocksdb) (db_put mem_rocksdb) wide_svc ([test_url, []] ! 0) Map.empty = (r, st1)"
    by fastforce
  have base: "base_ok wide_svc" by (simp add: base_ok_def wide_svc_def new_UrlShorteningConfig_def alphabet_def)
  have apart: "tried wide_svc ([test_url, []] ! 0) \<inter> tried wide_svc ([test_url, []] ! j) = {}"
    if "j < length [test_url, []]" "j \<noteq> 0" for j
    using that tried_wide[of test_url] tried_wide[of "[]"] wide_slugs_differ by (cases j) simp_all
  from separate_searches_serialize[OF mem_contract mem_healthy base _ apart _ d, of "concat (replicate 101 [0, 1])"] d
  show ?thesis using count_round_robin[of 101] by auto
qed


section \<open>Every search ends\<close>

text \<open>
  How many more of its own steps a thread can make.  Each step uses one up, whatever the database
  answers and whatever the other threads do in between.
\<close>

fun steps_left :: "shorten_thread \<Rightarrow> nat" where
  "steps_left (Search n slug) = 2 + (100 - unat n)"
| "steps_left (Insert slug) = 1"
| "steps_left (Returned slug) = 0"
| "steps_left (Faulted f) = 0"

lemma thread_step_left: "steps_left (fst (thread_step R cfg url (t, st))) \<le> steps_left t - 1"
proof (cases t)
  case (Search n slug)
  show ?thesis
  proof (cases "n < 100")
    case True
    then have "unat (n + 1) = Suc (unat n)" "unat n < 100"
      by (simp_all add: unat_word_ariths word_less_nat_alt)
    then show ?thesis using Search by (auto simp: thread_step_def split: sum.splits option.splits prod.splits)
  qed (use Search in \<open>simp add: thread_step_def\<close>)
next
  case (Insert slug)
  then show ?thesis by (auto simp: thread_step_def split: prod.splits option.splits)
qed (simp_all add: thread_step_def)

lemma steps_left_0: "steps_left t = 0 \<longleftrightarrow> (\<exists>r. t = ended r)"
proof
  assume "steps_left t = 0"
  then show "\<exists>r. t = ended r" by (cases t) (auto intro: exI[of _ "Inr s" for s] exI[of _ "Inl f" for f])
next
  assume "\<exists>r. t = ended r"
  then obtain r where "t = ended r" by blast
  then show "steps_left t = 0" by (cases r) simp_all
qed

lemma pool_step_left:
  assumes "pool_step R cfg j (pool, st) = (pool', st')" and "i < length pool"
  shows "length pool' = length pool \<and> fst (pool' ! i) = fst (pool ! i) \<and>
    steps_left (snd (pool' ! i)) \<le> steps_left (snd (pool ! i)) - (if j = i then 1 else 0)"
proof (cases "j < length pool")
  case True
  obtain url t where j: "pool ! j = (url, t)" by fastforce
  obtain t' st1 where t: "thread_step R cfg url (t, st) = (t', st1)" by fastforce
  have "pool' = pool[j := (url, t')]" using assms(1) True j t by (simp add: pool_step_def)
  then show ?thesis using thread_step_left[of R cfg url t st] t j assms(2) by (auto simp: nth_list_update)
qed (use assms in \<open>auto simp: pool_step_def\<close>)

lemma interleave_left:
  "interleave R cfg sched (pool, st) = (pool', st') \<Longrightarrow> i < length pool \<Longrightarrow>
   fst (pool' ! i) = fst (pool ! i) \<and>
   steps_left (snd (pool' ! i)) \<le> steps_left (snd (pool ! i)) - count_list sched i"
proof (induction sched arbitrary: pool st)
  case (Cons j sched)
  obtain pool1 st1 where s: "pool_step R cfg j (pool, st) = (pool1, st1)" by fastforce
  have "interleave R cfg sched (pool1, st1) = (pool', st')" using Cons.prems(1) s by (simp add: interleave_def)
  from Cons.IH[OF this] pool_step_left[OF s Cons.prems(2)] Cons.prems(2) show ?case
    by (auto split: if_splits)
qed (simp add: interleave_def)

text \<open>
  Whatever the database does, under every configuration and among any number of other searches,
  a thread that has been given 101 steps has come to its end: it has returned or it is at a fault.
\<close>

lemma search_ends:
  assumes "i < length urls" and "101 \<le> count_list sched i"
  shows "\<exists>r. fst (interleave R cfg sched (new_pool urls, st)) ! i = (urls ! i, ended r)"
proof -
  obtain pool st' where s: "interleave R cfg sched (new_pool urls, st) = (pool, st')" by fastforce
  have "steps_left new_thread = 101" by (simp add: new_thread_def)
  then have "steps_left (snd (pool ! i)) = 0" "fst (pool ! i) = urls ! i"
    using interleave_left[OF s, of i] assms by (simp_all add: new_pool_def)
  then show ?thesis using s steps_left_0 by (cases "pool ! i") auto
qed

text \<open>A search that has not passed its \<open>k\<close>-th slug yet, and is not at a fault.\<close>

fun not_past :: "nat \<Rightarrow> shorten_thread \<Rightarrow> bool" where
  "not_past k (Search n slug) \<longleftrightarrow> 1 \<le> unat n \<and> unat n \<le> k"
| "not_past k (Faulted f) \<longleftrightarrow> False"
| "not_past k _ \<longleftrightarrow> True"

text \<open>The key is free, or it is the URL's own.\<close>

definition open_to :: "('r \<Rightarrow> string \<Rightarrow> string option) \<Rightarrow> string \<Rightarrow> string \<Rightarrow> 'r \<Rightarrow> bool" where
  "open_to view slug url st \<longleftrightarrow> (case view st slug of None \<Rightarrow> True | Some v \<Rightarrow> v = [] \<or> v = url)"

lemma thread_step_not_past:
  assumes contract: "rocksdb_contract R view" and base: "base_ok cfg"
    and k: "k < 100" "Suc k * unat (usc_slug_length cfg) \<le> length (slug_stream cfg url)"
    and "open": "open_to view (slug_at cfg url k) url st"
    and t: "not_past k t" and step: "thread_step R cfg url (t, st) = (t', st')"
  shows "not_past k t'"
proof (cases t)
  case (Search n slug)
  then have n: "1 \<le> unat n" "unat n \<le> k" using t by simp_all
  then have lt: "n < 100" using k(1) by (simp add: word_less_nat_alt)
  have n1: "unat (n + 1) = Suc (unat n)" using n k(1) by (simp add: unat_word_ariths)
  have "Suc (unat n) * unat (usc_slug_length cfg) \<le> Suc k * unat (usc_slug_length cfg)"
    using n(2) by (intro mult_right_mono) simp_all
  then have g: "generate_slug cfg slug url (n + 1) = Inr (Some (slug_at cfg url (unat n)))"
    using order_trans[OF _ k(2)] n(1) next_try_nonzero[OF lt]
    by (simp add: generate_slug_stream[OF base] n1 del: mult_Suc)
  obtain got st1 where got: "db_get R st (slug_at cfg url (unat n)) = (got, st1)" by fastforce
  have "unat n < k" if "got = Inr v" "v \<noteq> []" "v \<noteq> url" for v
  proof -
    have "view st (slug_at cfg url (unat n)) = Some v"
      using url_store.get_found[OF url_store_db[OF contract]] got that(1) by blast
    then show ?thesis using "open" that(2,3) n(2) by (cases "unat n = k") (auto simp: open_to_def)
  qed
  then show ?thesis
    using step Search lt g got n n1 by (auto simp: thread_step_def split: sum.splits if_splits)
qed (use step t in \<open>auto simp: thread_step_def split: prod.splits option.splits\<close>)

lemma interleave_not_past:
  assumes "rocksdb_contract R view" and "base_ok cfg" and "k < 100"
    and "Suc k * unat (usc_slug_length cfg) \<le> length (slug_stream cfg url)"
  shows "i < length pool \<Longrightarrow> fst (pool ! i) = url \<Longrightarrow> not_past k (snd (pool ! i)) \<Longrightarrow>
    (\<And>m. open_to view (slug_at cfg url k) url (snd (interleave R cfg (take m sched) (pool, st)))) \<Longrightarrow>
    not_past k (snd (fst (interleave R cfg sched (pool, st)) ! i))"
proof (induction sched arbitrary: pool st)
  case (Cons j sched)
  obtain pool' st' where s: "pool_step R cfg j (pool, st) = (pool', st')" by fastforce
  have "open": "open_to view (slug_at cfg url k) url st" using Cons.prems(4)[of 0] by (simp add: interleave_def)
  have "open_to view (slug_at cfg url k) url (snd (interleave R cfg (take m sched) (pool', st')))" for m
    using Cons.prems(4)[of "Suc m"] s by (simp add: interleave_def)
  moreover have "not_past k (snd (pool' ! i))"
  proof (cases "j = i")
    case True
    obtain t' st1 where "thread_step R cfg url (snd (pool ! i), st) = (t', st1)" by fastforce
    then show ?thesis
      using thread_step_not_past[OF assms "open" Cons.prems(3)] s True Cons.prems(1,2)
      by (cases "pool ! i") (auto simp: pool_step_def)
  next
    case False
    then show ?thesis using s Cons.prems(3) by (auto simp: pool_step_def split: if_splits prod.splits)
  qed
  ultimately show ?case
    using Cons.IH[of pool' st'] pool_step_left[OF s Cons.prems(1)] Cons.prems(1,2) s by (simp add: interleave_def)
qed (simp add: interleave_def)


text \<open>A slug that no other URL of a pool can be given is not taken by another one.\<close>

definition kept_open ::
  "UrlShorteningConfig \<Rightarrow> ('r \<Rightarrow> string \<Rightarrow> string option) \<Rightarrow> string \<Rightarrow> string \<Rightarrow> (string \<times> shorten_thread) list \<times> 'r \<Rightarrow> bool"
where
  "kept_open cfg view slug url ps \<longleftrightarrow>
     (\<forall>(u, t) \<in> set (fst ps). within cfg u t \<and> (u \<noteq> url \<longrightarrow> slug \<notin> tried cfg u)) \<and> open_to view slug url (snd ps)"

lemma pool_step_kept_open:
  assumes contract: "rocksdb_contract R view" and healthy: "rocksdb_healthy R" and base: "base_ok cfg"
    and inv: "kept_open cfg view slug url (pool, st)"
  shows "kept_open cfg view slug url (pool_step R cfg j (pool, st))"
proof (cases "j < length pool")
  case j: True
  obtain u t where ut: "pool ! j = (u, t)" by fastforce
  obtain t' st' where s: "thread_step R cfg u (t, st) = (t', st')" by fastforce
  have own: "within cfg u t" "u \<noteq> url \<longrightarrow> slug \<notin> tried cfg u" and o: "open_to view slug url st"
    using inv nth_mem[OF j] ut by (auto simp: kept_open_def)
  have p: "pool_step R cfg j (pool, st) = (pool[j := (u, t')], st')" using j ut s by (simp add: pool_step_def)
  have "open_to view slug url st'"
  proof (cases "u = url")
    case False
    then have "view st' slug = view st slug" using thread_step_frame[OF contract base own(1) s] own(2) by blast
    then show ?thesis using o by (simp add: open_to_def)
  next
    case True
    show ?thesis
    proof (cases t)
      case (Insert s1)
      obtain st1 where "thread_step R cfg url (Insert s1, st) = (Returned s1, st1)" "view st1 = (view st)(s1 \<mapsto> url)"
        by (rule insert_step[OF contract healthy])
      then show ?thesis using s o Insert True by (auto simp: open_to_def split: option.splits)
    qed (use s o True url_store.get_view[OF url_store_db[OF contract]] in
      \<open>auto simp: open_to_def thread_step_def split: sum.splits option.splits prod.splits if_splits\<close>)
  qed
  moreover have "within cfg u t'" by (rule thread_step_within[OF base own(1) s])
  ultimately show ?thesis
    using inv p own(2) set_update_subset_insert[of pool j "(u, t')"] by (auto simp: kept_open_def)
qed (use inv in \<open>simp add: pool_step_def\<close>)

lemma interleave_kept_open:
  assumes "rocksdb_contract R view" and "rocksdb_healthy R" and "base_ok cfg"
  shows "kept_open cfg view slug url ps \<Longrightarrow> kept_open cfg view slug url (interleave R cfg sched ps)"
proof (induction sched arbitrary: ps)
  case (Cons j sched)
  then show ?case using pool_step_kept_open[OF assms, of slug url "fst ps" "snd ps"] by (simp add: interleave_def)
qed (simp add: interleave_def)


end
