(* ===== verification/Interleaved_Server.thy ===== *)
theory Interleaved_Server
  imports Server_Properties Concurrent_Shorten
begin

text \<open>
  The server with the searches of create requests taken apart: the continuation that calls
  \<open>do_shorten_url\<close> runs on a pool of CPU threads, so that between two of its calls of the database
  the event base and the other threads go on.  The atomic server is one of the ways this one
  can run; what it promises of stored entries is looked at again here.
\<close>

section \<open>The fine server\<close>

text \<open>\<open>is_searches\<close> are the searches that run, by transaction, with their URL.\<close>

record ('ip, 'r) iserver =
  is_server :: "('ip, 'r) server"
  is_searches :: "nat \<rightharpoonup> string \<times> shorten_thread"

abbreviation is_db :: "('ip, 'r) iserver \<Rightarrow> 'r" where
  "is_db s \<equiv> w_db (sv_world (is_server s))"

definition idle :: "('ip, 'r) server \<Rightarrow> ('ip, 'r) iserver" where
  "idle sv = \<lparr>is_server = sv, is_searches = Map.empty\<rparr>"

definition make_at :: "('ip, 'r) server \<Rightarrow> nat \<Rightarrow> make_handler option" where
  "make_at sv k =
     (if k < length (sv_txns sv) then (case obj_of (sv_txns sv ! k) of Obj_Make h \<Rightarrow> Some h | _ \<Rightarrow> None) else None)"

fun put_obj :: "handler_obj \<Rightarrow> txn \<Rightarrow> txn" where
  "put_obj ob (Plain ob') = Plain ob"
| "put_obj ob (Filtered f) = Filtered (f\<lparr>rl_object := ob\<rparr>)"

text \<open>The URL of a transaction whose next continuation will search, its verdict being good.\<close>

definition to_search :: "('ip, 'r) server \<Rightarrow> 'ip server_event \<Rightarrow> (nat \<times> make_handler \<times> string) option" where
  "to_search sv ev =
     (case ev of
        At k Shorten_Url \<Rightarrow>
          (case make_at sv k of
             Some h \<Rightarrow> (case mk_chain h of Chain_Cpu url (Inr True) \<Rightarrow> Some (k, h, url) | _ \<Rightarrow> None)
           | None \<Rightarrow> None)
      | _ \<Rightarrow> None)"

definition set_db :: "'r \<Rightarrow> ('ip, 'r) server \<Rightarrow> ('ip, 'r) server" where
  "set_db st sv = sv\<lparr>sv_world := (sv_world sv)\<lparr>w_db := st\<rparr>\<rparr>"

text \<open>The search has returned: its value goes to the next continuation, on the event base.\<close>

definition end_search :: "nat \<Rightarrow> make_handler \<Rightarrow> string \<Rightarrow> ('ip, 'r) server \<Rightarrow> ('ip, 'r) server" where
  "end_search k h slug sv =
     sv\<lparr>sv_txns := (sv_txns sv)[k := put_obj (Obj_Make (h\<lparr>mk_chain := Chain_Evb (Inr slug)\<rparr>)) (sv_txns sv ! k)]\<rparr>"

text \<open>
  \<open>Search_Step k\<close> is one step of the search of transaction \<open>k\<close>, through the bare pointer \<open>this\<close>.
  The other events are those of the atomic server, except that the continuation which would
  search only begins to.
\<close>

datatype 'ip ievent = Event "'ip server_event" | Search_Step nat

fun istep ::
  "('j, 'net, 'r, 'ip) server_env \<Rightarrow> 'ip ievent \<Rightarrow> ('ip, 'r) iserver \<Rightarrow> ('ip, 'r) iserver res" where
  "istep E (Event ev) s =
     (case to_search (is_server s) ev of
        None \<Rightarrow> res_map (\<lambda>sv. s\<lparr>is_server := sv\<rparr>) (server_step E ev (is_server s))
      | Some (k, h, url) \<Rightarrow>
          if is_searches s k \<noteq> None then Inr s
          else if mk_alive h then Inr (s\<lparr>is_searches := (is_searches s)(k \<mapsto> (url, new_thread))\<rparr>)
          else Inl Undefined)"
| "istep E (Search_Step k) s =
     (case is_searches s k of
        None \<Rightarrow> Inr s
      | Some (url, t) \<Rightarrow>
          (case make_at (is_server s) k of
             None \<Rightarrow> Inr s
           | Some h \<Rightarrow>
               if \<not> mk_alive h then Inl Undefined
               else
                 (case thread_step (se_db E) (me_svc (se_make E)) url (t, is_db s) of
                    (Returned slug, st) \<Rightarrow>
                      Inr (s\<lparr>is_server := end_search k h slug (set_db st (is_server s)),
                             is_searches := (is_searches s)(k := None)\<rparr>)
                  | (Faulted f, st) \<Rightarrow> Inl f
                  | (t', st) \<Rightarrow>
                      Inr (s\<lparr>is_server := set_db st (is_server s), is_searches := (is_searches s)(k \<mapsto> (url, t'))\<rparr>))))"

lemma set_db_simps [simp]:
  "sv_txns (set_db st sv) = sv_txns sv" "w_db (sv_world (set_db st sv)) = st"
  "make_at (set_db st sv) k = make_at sv k" "set_db st (set_db st' sv) = set_db st sv"
  by (simp_all add: set_db_def make_at_def)

lemma end_search_simps [simp]:
  "sv_world (end_search k h slug sv) = sv_world sv"
  "length (sv_txns (end_search k h slug sv)) = length (sv_txns sv)"
  by (simp_all add: end_search_def)

lemma obj_of_put_obj [simp]: "obj_of (put_obj ob t) = ob"
  by (cases t) simp_all

lemma make_at_Some: "make_at sv k = Some h \<longleftrightarrow> k < length (sv_txns sv) \<and> obj_of (sv_txns sv ! k) = Obj_Make h"
  by (auto simp: make_at_def split: handler_obj.splits)

lemma to_search_Some:
  "to_search sv ev = Some (k, h, url) \<longleftrightarrow>
     ev = At k Shorten_Url \<and> make_at sv k = Some h \<and> mk_chain h = Chain_Cpu url (Inr True)"
  by (auto simp: to_search_def split: server_event.splits obj_event.splits option.splits chain.splits sum.splits bool.splits)

section \<open>The atomic server is a way to run it\<close>

lemma server_step_search:
  assumes "to_search sv ev = Some (k, h, url)" and "server_step E ev sv = Inr sv'"
  obtains slug st where "mk_alive h"
    "do_shorten_url (db_get (se_db E)) (db_put (se_db E)) (me_svc (se_make E)) url (w_db (sv_world sv)) = (Inr slug, st)"
    "sv' = end_search k h slug (set_db st sv)"
proof -
  have ev: "ev = At k Shorten_Url" and h: "k < length (sv_txns sv)" "obj_of (sv_txns sv ! k) = Obj_Make h"
    and url: "mk_chain h = Chain_Cpu url (Inr True)"
    using assms(1) by (auto simp: to_search_Some make_at_Some)
  obtain h' st where r: "run_shorten (se_make E) (h, w_db (sv_world sv)) = Inr (h', st)"
    "sv' = sv\<lparr>sv_txns := (sv_txns sv)[k := put_obj (Obj_Make h') (sv_txns sv ! k)], sv_world := (sv_world sv)\<lparr>w_db := st\<rparr>\<rparr>"
    using assms(2) h unfolding ev
    by (cases "sv_txns sv ! k") (auto simp: res_map_eq_Inr step_if_def)
  then obtain slug where "mk_alive h" "h' = h\<lparr>mk_chain := Chain_Evb (Inr slug)\<rparr>"
    "do_shorten_url (db_get (se_db E)) (db_put (se_db E)) (me_svc (se_make E)) url (w_db (sv_world sv)) = (Inr slug, st)"
    using url by (auto simp: run_shorten_def split: if_splits prod.splits sum.splits)
  then show ?thesis using that r(2) by (simp add: end_search_def set_db_def)
qed

lemma not_ended: "Search n slug \<noteq> ended r" "Insert slug \<noteq> ended r"
  by (cases r; simp)+

lemma run_search:
  assumes "is_searches s k = Some (url, t)" and "make_at (is_server s) k = Some h" and "mk_alive h"
    and "\<And>r. t \<noteq> ended r"
    and "(thread_step (se_db E) (me_svc (se_make E)) url ^^ m) (t, is_db s) = (Returned slug, st)"
  shows "run (istep E) (replicate m (Search_Step k)) s =
    Inr (s\<lparr>is_server := end_search k h slug (set_db st (is_server s)), is_searches := (is_searches s)(k := None)\<rparr>)"
  using assms
proof (induction m arbitrary: s t)
  case (Suc m)
  let ?f = "thread_step (se_db E) (me_svc (se_make E)) url"
  obtain t1 st1 where f: "?f (t, is_db s) = (t1, st1)" by fastforce
  have rest: "(?f ^^ m) (t1, st1) = (Returned slug, st)"
    using Suc.prems(5) f by (simp add: funpow_Suc_right del: funpow.simps)
  show ?case
  proof (cases "\<exists>r. t1 = ended r")
    case True
    then obtain r where r: "t1 = ended r" by blast
    then have "ended r = Returned slug" "st1 = st" using rest by (simp_all add: thread_stays)
    then have "istep E (Search_Step k) s =
        Inr (s\<lparr>is_server := end_search k h slug (set_db st (is_server s)), is_searches := (is_searches s)(k := None)\<rparr>)"
      (is "_ = Inr ?s'")
      using Suc.prems(1-3) f r by (simp add: fun_upd_same del: fun_upd_apply)
    moreover have "run (istep E) (replicate j (Search_Step k)) ?s' = Inr ?s'" for j
      by (induction j) simp_all
    ultimately show ?thesis by (simp only: replicate_Suc run.simps(2) res_bind_simps)
  next
    case False
    then have t1: "t1 \<noteq> Returned slug'" "t1 \<noteq> Faulted g" for slug' g
      by (metis ended.simps(2)) (metis False ended.simps(1))
    let ?s1 = "s\<lparr>is_server := set_db st1 (is_server s), is_searches := (is_searches s)(k \<mapsto> (url, t1))\<rparr>"
    have "istep E (Search_Step k) s = Inr ?s1"
      using Suc.prems(1-3) f t1 by (cases t1) auto
    moreover have "run (istep E) (replicate m (Search_Step k)) ?s1 =
        Inr (s\<lparr>is_server := end_search k h slug (set_db st (is_server s)), is_searches := (is_searches s)(k := None)\<rparr>)"
      using Suc.IH[of ?s1 t1] Suc.prems(2,3) rest False by (simp add: fun_upd_same del: fun_upd_apply)
    ultimately show ?thesis by (simp only: replicate_Suc run.simps(2) res_bind_simps)
  qed
next
  case 0
  then have "t = ended (Inr slug)" by simp
  then show ?case using 0 by blast
qed

lemma atomic_step:
  assumes step: "server_step E ev sv = Inr sv'"
  shows "\<exists>ies. run (istep E) ies (idle sv) = Inr (idle sv')"
proof (cases "to_search sv ev")
  case None
  then have "run (istep E) [Event ev] (idle sv) = Inr (idle sv')"
    using step by (simp add: run_single idle_def del: run.simps server_step.simps)
  then show ?thesis by blast
next
  case (Some khu)
  then obtain k h url where khu: "to_search sv ev = Some (k, h, url)" by (cases khu) auto
  obtain slug st where r: "mk_alive h"
    "do_shorten_url (db_get (se_db E)) (db_put (se_db E)) (me_svc (se_make E)) url (w_db (sv_world sv)) = (Inr slug, st)"
    "sv' = end_search k h slug (set_db st sv)"
    by (rule server_step_search[OF khu step])
  let ?s = "(idle sv)\<lparr>is_searches := [k \<mapsto> (url, new_thread)]\<rparr>"
  have "istep E (Event ev) (idle sv) = Inr ?s"
    using khu r(1) by (simp add: idle_def)
  moreover have "run (istep E) (replicate 101 (Search_Step k)) ?s = Inr (idle sv')"
    using run_search[where s = ?s and k = k and url = url and t = new_thread and h = h and m = 101 and slug = slug and st = st] khu r(1,3) solo_returns[OF order_refl r(2)] not_ended
    by (simp add: idle_def to_search_Some new_thread_def solo_def)
  ultimately have "run (istep E) (Event ev # replicate 101 (Search_Step k)) (idle sv) = Inr (idle sv')" by simp
  then show ?thesis by blast
qed

interpretation atomic: step_refinement "server_step E" "istep E" idle for E
  by unfold_locales (rule atomic_step)

text \<open>
  Whatever the atomic server does, in any run, the server whose searches interleave can do: it
  reaches the same state by running each search without a pause.
\<close>

theorem atomic_runs_refined:
  assumes "run (server_step E) es (start_server E now db) = Inr s"
  shows "\<exists>ies. run (istep E) ies (idle (start_server E now db)) = Inr (idle s)"
  by (rule atomic.run_refined[OF assms])

theorem atomic_runs_refined_witness:
  "\<exists>ies s h. run (istep sample_server_env) ies (idle sample_start) = Inr (idle s) \<and>
     sv_txns s = [Plain (Obj_Make h)] \<and> answered h (slug_at (default_svc test_key) test_url 1)"
proof -
  obtain es s h where s: "run (server_step sample_server_env) es sample_start = Inr s"
    "sv_txns s = [Plain (Obj_Make h)]" "answered h (slug_at (default_svc test_key) test_url 1)"
    using sample_create_run by blast
  from atomic_runs_refined[OF s(1)] s(2,3) show ?thesis by blast
qed

section \<open>What is stored and not about to be overwritten stays\<close>

text \<open>An entry that no running search can insert over: none has found its key free before.\<close>

definition settled :: "('r \<Rightarrow> string \<Rightarrow> string option) \<Rightarrow> string \<Rightarrow> string \<Rightarrow> ('ip, 'r) iserver \<Rightarrow> bool" where
  "settled view slug url s \<longleftrightarrow>
     view (is_db s) slug = Some url \<and> url \<noteq> [] \<and>
     (\<forall>k u t. is_searches s k = Some (u, t) \<longrightarrow> avoids slug t)"

fun is_iaccept :: "'ip ievent \<Rightarrow> bool" where
  "is_iaccept (Event ev) = is_accept ev"
| "is_iaccept (Search_Step k) = False"

lemma istep_settled:
  assumes ok: "server_ok E view" and settled: "settled view slug url s" and step: "istep E e s = Inr s'"
  shows "settled view slug url s' \<and>
    length (sv_txns (is_server s')) \<le> length (sv_txns (is_server s)) + (if is_iaccept e then 1 else 0)"
proof (cases e)
  case (Event ev)
  show ?thesis
  proof (cases "to_search (is_server s) ev")
    case None
    then obtain sv where sv: "server_step E ev (is_server s) = Inr sv" "s' = s\<lparr>is_server := sv\<rparr>"
      using step Event by (auto simp: res_map_eq_Inr)
    have "view (w_db (sv_world sv)) slug = Some url"
      using server_step_good(1)[OF ok sv(1)] settled keepsD by (fastforce simp: settled_def)
    then show ?thesis
      using server_step_length[OF sv(1)] settled sv(2) Event by (simp add: settled_def)
  next
    case (Some khu)
    then show ?thesis
      using step settled Event by (auto simp: settled_def new_thread_def split: if_splits prod.splits)
  qed
next
  case (Search_Step k)
  show ?thesis
  proof (cases "\<exists>u t h. is_searches s k = Some (u, t) \<and> make_at (is_server s) k = Some h")
    case True
    then obtain u t h where k: "is_searches s k = Some (u, t)" "make_at (is_server s) k = Some h" by blast
    obtain t' st where t: "thread_step (se_db E) (me_svc (se_make E)) u (t, is_db s) = (t', st)" by fastforce
    have "avoids slug t' \<and> view st slug = Some url"
      using thread_step_avoids[OF _ tries_bounded_if_long _ _ _ t] ok settled k(1)
      by (auto simp: server_ok_def settled_def)
    then show ?thesis
      using step Search_Step k t settled
      by (cases t') (auto simp: settled_def res_map_eq_Inr split: if_splits)
  qed (use step settled Search_Step in \<open>auto split: option.splits\<close>)
qed

interpretation fine: handler
  "istep E :: 'ip ievent \<Rightarrow> ('ip, 'r) iserver \<Rightarrow> ('ip, 'r) iserver res"
  "\<lambda>s. server_ok E view \<and> settled view slug url s" "\<lambda>s. length (sv_txns (is_server s))" is_iaccept
  for E :: "('j, 'net, 'r, 'ip) server_env" and view slug url
  by unfold_locales (use istep_settled in blast)+

text \<open>
  C11  With searches that interleave, call by call of the database, a stored URL stays as soon as no
  search that is running has found its slug free before it was stored: on a database that keeps to its
  contract, and with slugs of at least 3 characters over 2 to 58 symbols (\<open>server_ok\<close>; with
  shorter ones a search that runs out of tries overwrites), whatever requests arrive from
  then on and however their searches, handlers and executors interleave, its entry is never
  changed or removed.  In particular what is stored when the server is idle stays.
\<close>

theorem interleaved_server_keeps_entries:
  assumes "server_ok E view" and "run (istep E) ies s = Inr s'"
    and "view (is_db s) slug = Some url" and "url \<noteq> []"
    and "\<And>k u t. is_searches s k = Some (u, t) \<Longrightarrow> avoids slug t"
  shows "view (is_db s') slug = Some url"
  using fine.run_inv[OF _ assms(2), of view slug url] assms by (simp add: settled_def)

theorem interleaved_server_keeps_entries_witness:
  "\<exists>s'. run (istep sample_server_env) [Event (Accept (0, 0, 0) (get_request ''/k'')), Search_Step 0]
          (idle (start_server sample_server_env 0 [''k'' \<mapsto> ''http://a''])) = Inr s' \<and>
     is_db s' ''k'' = Some ''http://a''"
proof -
  let ?s = "idle (start_server sample_server_env 0 [''k'' \<mapsto> ''http://a''] :: (nat, string \<Rightarrow> string option) server)"
  let ?es = "[Event (Accept (0, 0, 0) (get_request ''/k'')), Search_Step 0]"
  have "slug_get sample_server_env ''k'' (get_request ''/k'')" by (simp add: slug_get_def get_request_def)
  from accept_slug[OF this, of "(0, 0, 0)" "is_server ?s"]
  obtain s' where r: "run (istep sample_server_env) ?es ?s = Inr s'"
    by (auto simp: alphabet_def to_search_def idle_def simp del: server_step.simps)
  from interleaved_server_keeps_entries[OF sample_server_ok r, of "''k''" "''http://a''"] r show ?thesis
    by (simp add: start_server_def factory_onServerStart_def idle_def del: run.simps)
qed

end
