(* ===== verification/Interleaved_Properties.thy ===== *)
theory Interleaved_Properties
  imports Interleaved_Server
begin

text \<open>
  What can happen when searches overlap, and what cannot: two of them can lose a URL; every
  confirmed request is answered; and nothing is stored that was not asked for and confirmed.
\<close>

section \<open>Two clients with one slug\<close>

text \<open>The step of a search and of a reply, where the handler is a transaction of its own.\<close>

definition searching :: "('ip, 'r) iserver \<Rightarrow> nat \<Rightarrow> make_handler \<Rightarrow> string \<Rightarrow> shorten_thread \<Rightarrow> bool" where
  "searching s k h url t \<longleftrightarrow>
     k < length (sv_txns (is_server s)) \<and> sv_txns (is_server s) ! k = Plain (Obj_Make h) \<and> mk_alive h \<and>
     is_searches s k = Some (url, t)"

lemma searching_step:
  assumes "searching s k h url t" and "thread_step (se_db E) (me_svc (se_make E)) url (t, is_db s) = (t', st)"
    and "\<And>r. t' \<noteq> ended r"
  shows "\<exists>s'. istep E (Search_Step k) s = Inr s' \<and> searching s' k h url t' \<and> is_db s' = st \<and>
    (\<forall>j h' u t''. j \<noteq> k \<longrightarrow> searching s' j h' u t'' = searching s j h' u t'')"
proof -
  have m: "make_at (is_server s) k = Some h" using assms(1) by (simp add: searching_def make_at_Some)
  have "(\<exists>n sl. t' = Search n sl) \<or> (\<exists>sl. t' = Insert sl)"
    using assms(3)[of "Inr sl" for sl] assms(3)[of "Inl f" for f] by (cases t') auto
  then show ?thesis using assms(1,2) m by (auto simp: searching_def)
qed

definition replying :: "('ip, 'r) iserver \<Rightarrow> nat \<Rightarrow> string \<Rightarrow> bool" where
  "replying s k slug \<longleftrightarrow>
     k < length (sv_txns (is_server s)) \<and>
     (\<exists>h. sv_txns (is_server s) ! k = Plain (Obj_Make h) \<and> mk_alive h \<and> mk_chain h = Chain_Evb (Inr slug))"

lemma searching_end:
  assumes "searching s k h url t"
    and "thread_step (se_db E) (me_svc (se_make E)) url (t, is_db s) = (Returned slug, st)"
  shows "\<exists>s'. istep E (Search_Step k) s = Inr s' \<and> replying s' k slug \<and> is_db s' = st \<and>
    (\<forall>j. j \<noteq> k \<longrightarrow> replying s' j = replying s j) \<and>
    (\<forall>j h' u t''. j \<noteq> k \<longrightarrow> searching s' j h' u t'' = searching s j h' u t'')"
proof -
  have m: "make_at (is_server s) k = Some h" using assms(1) by (simp add: searching_def make_at_Some)
  show ?thesis using assms m by (simp add: searching_def replying_def end_search_def fun_eq_iff)
qed

definition has_answered :: "('ip, 'r) iserver \<Rightarrow> nat \<Rightarrow> string \<Rightarrow> bool" where
  "has_answered s k slug \<longleftrightarrow>
     k < length (sv_txns (is_server s)) \<and> (\<exists>h. sv_txns (is_server s) ! k = Plain (Obj_Make h) \<and> answered h slug)"

lemma replying_step:
  assumes "replying s k slug" and "slug \<noteq> []"
  shows "\<exists>s'. istep E (Event (At k Shorten_Reply)) s = Inr s' \<and> has_answered s' k slug \<and> is_db s' = is_db s \<and>
    (\<forall>j sl. j \<noteq> k \<longrightarrow> replying s' j sl = replying s j sl \<and> has_answered s' j sl = has_answered s j sl)"
  using assms
  by (auto simp: replying_def has_answered_def answered_def to_search_def step_if_def run_reply_def mk_send_def
      split: option.splits)

text \<open>
  C18  But two create requests that are confirmed at the same time can both be answered with the
  same slug.  If the first slugs of their URLs are the same and free, both searches find it
  free, both insert it and both clients are told that it is theirs; the database keeps the URL
  of the second, to which the first client's slug leads from then on.
\<close>

theorem interleaved_server_loses_url:
  assumes contract: "rocksdb_contract (se_db E) view" and healthy: "rocksdb_healthy (se_db E)"
    and base: "base_ok (me_svc (se_make E))"
    and i: "i < length (sv_txns sv)" "sv_txns sv ! i = Plain (Obj_Make h)" "mk_alive h"
      "mk_chain h = Chain_Cpu url (Inr True)"
    and j: "j < length (sv_txns sv)" "sv_txns sv ! j = Plain (Obj_Make h')" "mk_alive h'"
      "mk_chain h' = Chain_Cpu url' (Inr True)" "i \<noteq> j"
    and long: "2 * unat (usc_slug_length (me_svc (se_make E))) \<le> length (slug_stream (me_svc (se_make E)) url)"
      "2 * unat (usc_slug_length (me_svc (se_make E))) \<le> length (slug_stream (me_svc (se_make E)) url')"
    and same: "slug_at (me_svc (se_make E)) url 1 = slug" "slug_at (me_svc (se_make E)) url' 1 = slug" "slug \<noteq> []"
    and free: "view (w_db (sv_world sv)) slug = None"
  shows "\<exists>s. run (istep E)
      [Event (At i Shorten_Url), Event (At j Shorten_Url), Search_Step i, Search_Step j, Search_Step i, Search_Step j,
       Event (At i Shorten_Reply), Event (At j Shorten_Reply)] (idle sv) = Inr s \<and>
    has_answered s i slug \<and> has_answered s j slug \<and> view (is_db s) slug = Some url'"
proof -
  let ?cfg = "me_svc (se_make E)" and ?R = "se_db E"
  note first = free_search_step[OF contract healthy base long(1), unfolded same]
    free_search_step[OF contract healthy base long(2), unfolded same]
  let ?s1 = "(idle sv)\<lparr>is_searches := [i \<mapsto> (url, new_thread)]\<rparr>"
  let ?s2 = "(idle sv)\<lparr>is_searches := [i \<mapsto> (url, new_thread), j \<mapsto> (url', new_thread)]\<rparr>"
  have "to_search sv (At i Shorten_Url) = Some (i, h, url)" "to_search sv (At j Shorten_Url) = Some (j, h', url')"
    using i j by (simp_all add: to_search_Some make_at_Some)
  then have 1: "istep E (Event (At i Shorten_Url)) (idle sv) = Inr ?s1" "istep E (Event (At j Shorten_Url)) ?s1 = Inr ?s2"
    using i(3) j(3,5) by (simp_all add: idle_def)
  have b: "searching ?s2 i h url new_thread" "searching ?s2 j h' url' new_thread"
    using i j by (simp_all add: searching_def idle_def)
  have f: "view (is_db ?s2) slug = None" using free by (simp add: idle_def)
  obtain s3 where 3: "istep E (Search_Step i) ?s2 = Inr s3" "searching s3 i h url (Insert slug)"
    "view (is_db s3) slug = None" "searching s3 j h' url' new_thread"
    using first(1)[OF f] searching_step[OF b(1)] b(2) f j(5) by (metis not_ended(2))
  obtain s4 where 4: "istep E (Search_Step j) s3 = Inr s4" "searching s4 j h' url' (Insert slug)"
    "searching s4 i h url (Insert slug)"
    using first(2)[OF 3(3)] searching_step[OF 3(4)] 3(2) j(5) by (metis not_ended(2))
  obtain s5 where 5: "istep E (Search_Step i) s4 = Inr s5" "replying s5 i slug" "searching s5 j h' url' (Insert slug)"
    using insert_step[OF contract healthy, where url = url and slug = slug and st = "is_db s4"] searching_end[OF 4(3)] 4(2) j(5) by metis
  obtain s6 where 6: "istep E (Search_Step j) s5 = Inr s6" "replying s6 j slug" "replying s6 i slug"
    "view (is_db s6) = (view (is_db s5))(slug \<mapsto> url')"
    using insert_step[OF contract healthy, where url = url' and slug = slug and st = "is_db s5"] searching_end[OF 5(3)] 5(2) j(5) by metis
  obtain s7 where 7: "istep E (Event (At i Shorten_Reply)) s6 = Inr s7" "has_answered s7 i slug" "replying s7 j slug"
    "is_db s7 = is_db s6"
    using replying_step[OF 6(3) same(3)] 6(2) j(5) by metis
  obtain s8 where 8: "istep E (Event (At j Shorten_Reply)) s7 = Inr s8" "has_answered s8 j slug" "has_answered s8 i slug"
    "is_db s8 = is_db s7"
    using replying_step[OF 7(3) same(3)] 7(2) j(5) by metis
  have "view (is_db s8) slug = Some url'" using 6(4) 7(4) 8(4) by simp
  with 8(2,3) show ?thesis
    by (intro exI[of _ s8]) (simp only: run.simps res_bind_simps 1 3(1) 4(1) 5(1) 6(1) 7(1) 8(1) simp_thms)
qed

theorem interleaved_server_loses_url_witness:
  "\<exists>s. run (istep (sample_server_env\<lparr>se_make := (se_make sample_server_env)\<lparr>me_svc := binary_svc\<rparr>\<rparr>))
      [Event (At 0 Shorten_Url), Event (At 1 Shorten_Url), Search_Step 0, Search_Step 1, Search_Step 0, Search_Step 1,
       Event (At 0 Shorten_Reply), Event (At 1 Shorten_Reply)]
      (idle (sample_start\<lparr>sv_txns :=
         [Plain (Obj_Make (new_MakeUrlRequestHandler\<lparr>mk_chain := Chain_Cpu test_url (Inr True)\<rparr>)),
          Plain (Obj_Make (new_MakeUrlRequestHandler\<lparr>mk_chain := Chain_Cpu [] (Inr True)\<rparr>))]\<rparr>)) = Inr s \<and>
    has_answered s 0 ''1'' \<and> has_answered s 1 ''1'' \<and> is_db s ''1'' = Some []"
proof -
  let ?E = "sample_server_env\<lparr>se_make := (se_make sample_server_env)\<lparr>me_svc := binary_svc\<rparr>\<rparr>"
  let ?sv = "sample_start\<lparr>sv_txns :=
      [Plain (Obj_Make (new_MakeUrlRequestHandler\<lparr>mk_chain := Chain_Cpu test_url (Inr True)\<rparr>)),
       Plain (Obj_Make (new_MakeUrlRequestHandler\<lparr>mk_chain := Chain_Cpu [] (Inr True)\<rparr>))]\<rparr>"
  have "rocksdb_contract (se_db ?E) (\<lambda>st. st)" "rocksdb_healthy (se_db ?E)"
    by (simp_all add: mem_contract mem_healthy)
  moreover have "base_ok binary_svc" "usc_slug_length binary_svc = 1"
    by (simp_all add: base_ok_def binary_svc_def new_UrlShorteningConfig_def)
  moreover have "w_db (sv_world ?sv) ''1'' = None"
    by (simp add: start_server_def factory_onServerStart_def)
  ultimately show ?thesis
    using interleaved_server_loses_url[of ?E "\<lambda>st. st" 0 ?sv
        "new_MakeUrlRequestHandler\<lparr>mk_chain := Chain_Cpu test_url (Inr True)\<rparr>" test_url 1
        "new_MakeUrlRequestHandler\<lparr>mk_chain := Chain_Cpu [] (Inr True)\<rparr>" "[]" "''1''"]
      binary_slugs[of test_url] binary_slugs[of "[]"]
    by (simp add: new_MakeUrlRequestHandler_def del: istep.simps run.simps)
qed

section \<open>A confirmed request is answered\<close>

text \<open>No other event of transaction \<open>k\<close>: its client stays, and its reply has not been taken yet.\<close>

fun spares :: "nat \<Rightarrow> 'ip ievent \<Rightarrow> bool" where
  "spares k (Event ev) = leaves k ev"
| "spares k (Search_Step j) = True"

lemma make_at_leaves:
  assumes "server_step E ev sv = Inr sv'" and "leaves k ev" and "make_at sv k = Some h"
  shows "make_at sv' k = Some h"
  using server_step_leaves[OF assms(1,2)] assms(3) by (simp add: make_at_Some)

lemma make_at_end_search:
  "make_at (end_search j h slug sv) k =
     (if j = k \<and> k < length (sv_txns sv) then Some (h\<lparr>mk_chain := Chain_Evb (Inr slug)\<rparr>) else make_at sv k)"
  by (simp add: make_at_def end_search_def nth_list_update)

lemma istep_spares:
  assumes "istep E e s = Inr s'" and "spares k e" and "e \<noteq> Search_Step k" and "make_at (is_server s) k = Some h"
  shows "make_at (is_server s') k = Some h \<and> is_searches s' k = is_searches s k"
proof (cases e)
  case (Event ev)
  show ?thesis
  proof (cases "to_search (is_server s) ev")
    case None
    then show ?thesis
      using assms Event make_at_leaves by (auto simp: res_map_eq_Inr simp del: server_step.simps)
  next
    case (Some jhu)
    then obtain j h' u where j: "to_search (is_server s) ev = Some (j, h', u)" by (cases jhu) auto
    then have "j \<noteq> k" using assms(2) Event by (auto simp: to_search_Some leaves_def)
    then show ?thesis using assms Event j by (auto split: if_splits)
  qed
next
  case (Search_Step j)
  then have "j \<noteq> k" using assms(3) by simp
  then show ?thesis
    using assms Search_Step
    by (auto simp: res_map_eq_Inr make_at_end_search split: option.splits if_splits prod.splits shorten_thread.splits)
qed

definition search_done :: "('ip, 'r) iserver \<Rightarrow> nat \<Rightarrow> make_handler \<Rightarrow> bool" where
  "search_done s k h \<longleftrightarrow>
     is_searches s k = None \<and> (\<exists>slug. make_at (is_server s) k = Some (h\<lparr>mk_chain := Chain_Evb (Inr slug)\<rparr>))"

lemma istep_search:
  assumes "istep E (Search_Step k) s = Inr s'" and "make_at (is_server s) k = Some h" and "mk_alive h"
    and "is_searches s k = Some (url, t)"
  shows "search_done s' k h \<or>
    (\<exists>t'. is_searches s' k = Some (url, t') \<and> make_at (is_server s') k = Some h \<and>
       0 < steps_left t' \<and> steps_left t' \<le> steps_left t - 1)"
proof -
  obtain t' st where t: "thread_step (se_db E) (me_svc (se_make E)) url (t, is_db s) = (t', st)" by fastforce
  have "steps_left t' \<le> steps_left t - 1"
    using thread_step_left[of "se_db E" "me_svc (se_make E)" url t "is_db s"] t by simp
  moreover have "k < length (sv_txns (is_server s))" using assms(2) by (simp add: make_at_Some)
  ultimately show ?thesis
    using assms t by (cases t') (auto simp: res_map_eq_Inr search_done_def make_at_end_search)
qed

lemma run_search_done:
  assumes "run (istep E) ies s = Inr s'" and "list_all (spares k) ies" and "mk_alive h"
    and "search_done s k h \<or>
      (\<exists>t. is_searches s k = Some (url, t) \<and> make_at (is_server s) k = Some h \<and>
         0 < steps_left t \<and> steps_left t \<le> count_list ies (Search_Step k))"
  shows "search_done s' k h"
  using assms
proof (induction ies arbitrary: s)
  case (Cons e ies)
  obtain s1 where s1: "istep E e s = Inr s1" "run (istep E) ies s1 = Inr s'"
    using Cons.prems(1) by (auto simp: res_bind_eq_Inr simp del: istep.simps)
  have sp: "spares k e" "list_all (spares k) ies" using Cons.prems(2) by simp_all
  note IH = Cons.IH[OF s1(2) sp(2) Cons.prems(3)]
  show ?case
  proof (cases "search_done s k h")
    case True
    then have "search_done s1 k h"
      using s1(1) sp(1) istep_spares[OF s1(1) sp(1)] by (cases "e = Search_Step k") (auto simp: search_done_def)
    then show ?thesis using IH by blast
  next
    case False
    then obtain t where t: "is_searches s k = Some (url, t)" "make_at (is_server s) k = Some h"
      "0 < steps_left t" "steps_left t \<le> count_list (e # ies) (Search_Step k)"
      using Cons.prems(4) by blast
    show ?thesis
    proof (cases "e = Search_Step k")
      case True
      then have step: "istep E (Search_Step k) s = Inr s1" using s1(1) by simp
      from istep_search[OF step t(2) Cons.prems(3) t(1)] t(3,4) True show ?thesis
        by (intro IH) (auto simp del: istep.simps)
    next
      case False
      then show ?thesis using istep_spares[OF s1(1) sp(1) False t(2)] t by (intro IH) auto
    qed
  qed
qed auto

text \<open>
  C20  A confirmed create request is answered.  Once its continuation has run and its search has
  been given 101 steps, among whatever else the server does meanwhile, its reply is ready: if its
  client stays, it is answered once, with 200 and a slug or with 400.
\<close>

theorem confirmed_request_is_answered:
  assumes "make_at (is_server s) k = Some h" and "mk_alive h" and "mk_chain h = Chain_Cpu url (Inr True)"
    and "is_searches s k = None" and "run (istep E) (Event (At k Shorten_Url) # ies) s = Inr s'"
    and "list_all (spares k) ies" and "101 \<le> count_list ies (Search_Step k)"
  shows "\<exists>slug s2 h2. istep E (Event (At k Shorten_Reply)) s' = Inr s2 \<and> make_at (is_server s2) k = Some h2 \<and>
    mk_out h2 = mk_out h @
      [if slug = [] then Send_With_EOM 400 ''Bad Request'' allow_origin '''' else Send_With_EOM 200 ''OK'' allow_origin slug]"
proof -
  let ?s1 = "s\<lparr>is_searches := (is_searches s)(k \<mapsto> (url, new_thread))\<rparr>"
  have "to_search (is_server s) (At k Shorten_Url) = Some (k, h, url)"
    using assms(1,3) by (simp add: to_search_Some)
  then have "istep E (Event (At k Shorten_Url)) s = Inr ?s1" using assms(2,4) by simp
  then have "run (istep E) ies ?s1 = Inr s'" using assms(5) by simp
  from run_search_done[OF this assms(6,2), of url] assms(1,7) have "search_done s' k h"
    by (auto simp: new_thread_def)
  then obtain slug where d: "make_at (is_server s') k = Some (h\<lparr>mk_chain := Chain_Evb (Inr slug)\<rparr>)"
    by (auto simp: search_done_def)
  then have k: "k < length (sv_txns (is_server s'))"
    "obj_of (sv_txns (is_server s') ! k) = Obj_Make (h\<lparr>mk_chain := Chain_Evb (Inr slug)\<rparr>)"
    by (simp_all add: make_at_Some)
  have "to_search (is_server s') (At k Shorten_Reply) = None" by (simp add: to_search_def)
  then show ?thesis
    using k assms(2)
    by (cases "sv_txns (is_server s') ! k")
       (auto simp: make_at_def step_if_def run_reply_def mk_send_def intro!: exI[of _ slug])
qed

theorem confirmed_request_is_answered_witness:
  "\<exists>s' slug s2 h2. run (istep sample_server_env) (Event (At 0 Shorten_Url) # replicate 101 (Search_Step 0))
      (idle (sample_start\<lparr>sv_txns :=
         [Plain (Obj_Make (new_MakeUrlRequestHandler\<lparr>mk_chain := Chain_Cpu test_url (Inr True)\<rparr>))]\<rparr>)) = Inr s' \<and>
    istep sample_server_env (Event (At 0 Shorten_Reply)) s' = Inr s2 \<and> make_at (is_server s2) 0 = Some h2 \<and>
    mk_out h2 = [if slug = [] then Send_With_EOM 400 ''Bad Request'' allow_origin ''''
                 else Send_With_EOM 200 ''OK'' allow_origin slug]"
proof -
  let ?h = "new_MakeUrlRequestHandler\<lparr>mk_chain := Chain_Cpu test_url (Inr True)\<rparr>"
  let ?s = "idle (sample_start\<lparr>sv_txns := [Plain (Obj_Make ?h)]\<rparr>)"
  let ?s1 = "?s\<lparr>is_searches := [0 \<mapsto> (test_url, new_thread)]\<rparr>"
  have h: "make_at (is_server ?s) 0 = Some ?h" "make_at (is_server ?s1) 0 = Some ?h" "mk_alive ?h" "mk_out ?h = []"
    by (simp_all add: make_at_def idle_def new_MakeUrlRequestHandler_def)
  obtain st where d: "do_shorten_url (db_get mem_rocksdb) (db_put mem_rocksdb) (default_svc test_key) test_url Map.empty =
      (Inr (slug_at (default_svc test_key) test_url 1), st)"
    using test_run by auto
  have "(thread_step mem_rocksdb (default_svc test_key) test_url ^^ 101) (new_thread, Map.empty) =
      (Returned (slug_at (default_svc test_key) test_url 1), st)"
    using solo_returns[OF order_refl d] by (simp only: solo_def ended.simps)
  then obtain s' where "run (istep sample_server_env) (replicate 101 (Search_Step 0)) ?s1 = Inr s'"
    using run_search[OF _ h(2,3), where url = test_url and t = new_thread and E = sample_server_env and m = 101] not_ended(1)
    by (simp add: new_thread_def idle_def start_server_def factory_onServerStart_def del: run.simps funpow.simps)
  moreover have "istep sample_server_env (Event (At 0 Shorten_Url)) ?s = Inr ?s1"
    using h(1,3) by (simp add: to_search_def idle_def)
  ultimately have r: "run (istep sample_server_env) (Event (At 0 Shorten_Url) # replicate 101 (Search_Step 0)) ?s = Inr s'"
    by simp
  have spared: "list_all (spares 0) (replicate m (Search_Step 0))"
    and counted: "count_list (replicate m (Search_Step 0)) (Search_Step 0) = m" for m
    by (induction m) simp_all
  have "mk_chain ?h = Chain_Cpu test_url (Inr True)" "is_searches ?s 0 = None" by (simp_all add: idle_def)
  from confirmed_request_is_answered[OF h(1,3) this r spared eq_refl[OF counted[symmetric]]] r show ?thesis
    unfolding h(4) append_Nil by blast
qed

section \<open>What is stored was asked for and confirmed\<close>

lemma thread_step_change:
  assumes contract: "rocksdb_contract R view" and healthy: "rocksdb_healthy R"
    and step: "thread_step R cfg url (t, st) = (t', st')" and change: "view st' \<noteq> view st"
  obtains slug where "view st' = (view st)(slug \<mapsto> url)"
proof -
  note store = url_store_db[OF contract]
  have "\<exists>slug. t = Insert slug"
    using step change url_store.get_view[OF store]
    by (cases t) (auto simp: thread_step_def split: if_splits sum.splits option.splits prod.splits)
  then obtain slug where t: "t = Insert slug" by blast
  from insert_step[OF contract healthy, of cfg url slug st] step t that show ?thesis by auto
qed

text \<open>A search that runs was begun by a request that carried its URL.\<close>

lemma istep_begins:
  assumes "istep E e s = Inr s'" and "is_searches s' k = Some (url, t')"
  shows "(\<exists>t. is_searches s k = Some (url, t)) \<or>
    e = Event (At k Shorten_Url) \<and> (\<exists>h. make_at (is_server s) k = Some h \<and> mk_chain h = Chain_Cpu url (Inr True))"
proof (cases e)
  case (Event ev)
  show ?thesis
  proof (cases "to_search (is_server s) ev")
    case None
    then show ?thesis using assms Event by (auto simp: res_map_eq_Inr simp del: server_step.simps)
  next
    case (Some jhu)
    then obtain j h u where j: "to_search (is_server s) ev = Some (j, h, u)" by (cases jhu) auto
    then have ev: "ev = At j Shorten_Url" "make_at (is_server s) j = Some h" "mk_chain h = Chain_Cpu u (Inr True)"
      by (simp_all add: to_search_Some)
    from assms Event j have "s' = s \<or> s' = s\<lparr>is_searches := (is_searches s)(j \<mapsto> (u, new_thread))\<rparr>"
      by (auto split: if_splits)
    then show ?thesis using assms(2) Event ev by (auto split: if_splits)
  qed
next
  case (Search_Step j)
  then show ?thesis
    using assms by (auto simp: res_map_eq_Inr split: option.splits if_splits prod.splits shorten_thread.splits)
qed

lemma search_begun:
  assumes "run (istep E) ies (idle sv) = Inr s" and "is_searches s k = Some (url, t)"
  shows "\<exists>ies1 ies2 s1 h. ies = ies1 @ Event (At k Shorten_Url) # ies2 \<and> run (istep E) ies1 (idle sv) = Inr s1 \<and>
    make_at (is_server s1) k = Some h \<and> mk_chain h = Chain_Cpu url (Inr True)"
  using assms
proof (induction ies arbitrary: s t rule: rev_induct)
  case (snoc e ies)
  then obtain s1 where s1: "run (istep E) ies (idle sv) = Inr s1" "istep E e s1 = Inr s"
    by (auto simp: run_append res_bind_eq_Inr run_single simp del: istep.simps)
  from istep_begins[OF s1(2) snoc.prems(2)] snoc.IH[OF s1(1)] s1(1) show ?case by fastforce
qed (auto simp: idle_def)

text \<open>The invariant of the handlers that does not speak of the database.\<close>

lemma istep_sound:
  fixes E :: "('j, 'net, 'r, 'ip) server_env"
  assumes step: "istep E e s = Inr s'" and sound: "server_sound E (is_server s)"
  shows "server_sound E (is_server s')"
proof (cases e)
  case (Event ev)
  then show ?thesis
    using step sound server_step_sound
    by (auto simp: res_map_eq_Inr simp del: server_step.simps split: option.splits if_splits prod.splits)
next
  case (Search_Step k)
  have db: "server_sound E (set_db st sv) = server_sound E sv" for st and sv :: "('ip, 'r) server"
    by (simp add: server_sound_def)
  have evb: "server_sound E (end_search k h slug sv)" if "server_sound E sv" for h slug and sv :: "('ip, 'r) server"
    unfolding server_sound_def
  proof (intro ballI allI impI)
    fix t h' assume t: "t \<in> set (sv_txns (end_search k h slug sv))" "obj_of t = Obj_Make h'"
    then consider "h' = h\<lparr>mk_chain := Chain_Evb (Inr slug)\<rparr>" | "t \<in> set (sv_txns sv)"
      using set_update_subset_insert[of "sv_txns sv" k, THEN subsetD] by (fastforce simp: end_search_def)
    then show "make_sound (me_json (se_make E)) h'"
      by cases (use that t(2) in \<open>auto simp: server_sound_def make_sound_def chain_sound_def\<close>)
  qed
  show ?thesis
    using step sound Search_Step
    by (auto simp: res_map_eq_Inr db intro!: evb split: option.splits if_splits prod.splits shorten_thread.splits)
qed

lemma run_sound:
  "run (istep E) ies s = Inr s' \<Longrightarrow> server_sound E (is_server s) \<Longrightarrow> server_sound E (is_server s')"
proof (induction ies arbitrary: s)
  case (Cons e ies)
  then obtain s1 where "istep E e s = Inr s1" "run (istep E) ies s1 = Inr s'"
    by (auto simp: res_bind_eq_Inr simp del: istep.simps)
  then show ?case using Cons.IH istep_sound Cons.prems(2) by blast
qed simp

text \<open>
  C12  However searches interleave, what is stored was asked for and confirmed: an event that
  changes what the database holds is a step of a search, it enters one URL under one key, and the
  search was begun by a create request that had asked for this URL and whose captcha the service had
  confirmed.  (The database answers and its contract holds.)
\<close>

theorem interleaved_store_is_confirmed:
  assumes contract: "rocksdb_contract (se_db E) view" and healthy: "rocksdb_healthy (se_db E)"
    and run: "run (istep E) ies (idle (start_server E now db)) = Inr s"
    and step: "istep E e s = Inr s'" and change: "view (is_db s') \<noteq> view (is_db s)"
  shows "\<exists>k ies1 ies2 s1 h url slug. e = Search_Step k \<and> view (is_db s') = (view (is_db s))(slug \<mapsto> url) \<and>
    ies = ies1 @ Event (At k Shorten_Url) # ies2 \<and> run (istep E) ies1 (idle (start_server E now db)) = Inr s1 \<and>
    make_at (is_server s1) k = Some h \<and> asked (me_json (se_make E)) h url \<and> confirmed (me_json (se_make E)) h"
proof -
  have no_event: "e \<noteq> Event ev" for ev
  proof
    assume e: "e = Event ev"
    show False
    proof (cases "to_search (is_server s) ev")
      case None
      then obtain sv where sv: "server_step E ev (is_server s) = Inr sv" "s' = s\<lparr>is_server := sv\<rparr>"
        using step e by (auto simp: res_map_eq_Inr simp del: server_step.simps)
      have "view (w_db (sv_world sv)) \<noteq> view (is_db s)" using change sv(2) by simp
      from server_step_change[OF contract healthy sv(1) this] None show False
        by (metis to_search_Some make_at_Some option.distinct(1))
    qed (use step change e in \<open>auto split: if_splits prod.splits\<close>)
  qed
  then obtain k where e: "e = Search_Step k" by (cases e) auto
  obtain url t h where k: "is_searches s k = Some (url, t)" "make_at (is_server s) k = Some h"
    using step change e by (auto split: option.splits)
  obtain t' st where t: "thread_step (se_db E) (me_svc (se_make E)) url (t, is_db s) = (t', st)" by fastforce
  have st: "is_db s' = st" using step e k t by (cases t') (auto simp: res_map_eq_Inr split: if_splits)
  obtain slug where slug: "view st = (view (is_db s))(slug \<mapsto> url)"
    using thread_step_change[OF contract healthy t] change st by blast
  obtain ies1 ies2 s1 h1 where b: "ies = ies1 @ Event (At k Shorten_Url) # ies2"
    "run (istep E) ies1 (idle (start_server E now db)) = Inr s1" "make_at (is_server s1) k = Some h1"
    "mk_chain h1 = Chain_Cpu url (Inr True)"
    using search_begun[OF run k(1)] by blast
  have "server_sound E (is_server s1)"
    by (rule run_sound[OF b(2)]) (simp add: idle_def start_server_def server_sound_def)
  then have "make_sound (me_json (se_make E)) h1"
    by (rule server_soundD) (use b(3) in \<open>auto simp: make_at_Some\<close>)
  with b e st slug show ?thesis by (fastforce simp: make_sound_def chain_sound_def)
qed

theorem interleaved_store_is_confirmed_witness:
  "\<exists>ies e s s' ies1 s1 k h url slug. run (istep sample_server_env) ies (idle sample_start) = Inr s \<and>
     istep sample_server_env e s = Inr s' \<and> is_db s' = (is_db s)(slug \<mapsto> url) \<and> is_db s' \<noteq> is_db s \<and>
     run (istep sample_server_env) ies1 (idle sample_start) = Inr s1 \<and> make_at (is_server s1) k = Some h \<and>
     asked sample_json h url \<and> confirmed sample_json h"
proof -
  obtain es sv where sv: "run (server_step sample_server_env) es sample_start = Inr sv"
    "w_db (sv_world sv) \<noteq> w_db (sv_world sample_start)"
    by (rule sample_create_changes)
  obtain ies where ies: "run (istep sample_server_env) ies (idle sample_start) = Inr (idle sv)"
    using atomic.run_refined[OF sv(1)] by blast
  have "is_db (idle sv) \<noteq> is_db (idle sample_start)" using sv(2) by (simp add: idle_def)
  from run_change[OF ies, of is_db, OF this] obtain ies1 e s s'
    where r: "run (istep sample_server_env) ies1 (idle sample_start) = Inr s"
      "istep sample_server_env e s = Inr s'" "is_db s' \<noteq> is_db s" by blast
  show ?thesis
    using interleaved_store_is_confirmed[where view = "\<lambda>st. st" and E = sample_server_env, OF _ _ r] r
    by (simp add: mem_contract mem_healthy del: istep.simps) blast
qed

end
