(* ===== verification/Interleaved_Slugs.thy ===== *)
theory Interleaved_Slugs
  imports Interleaved_Properties
begin

text \<open>
  What a client can rely on when searches overlap.  Another search may have taken its slug, but
  the slug is never without a URL: from its answer on, every request for it is redirected.
\<close>

section \<open>Keys that lead to a URL\<close>

definition filled :: "('r \<Rightarrow> string \<Rightarrow> string option) \<Rightarrow> 'r \<Rightarrow> string \<Rightarrow> bool" where
  "filled view st slug \<longleftrightarrow> (\<exists>url. view st slug = Some url \<and> url \<noteq> [])"

definition keeps_filled :: "('r \<Rightarrow> string \<Rightarrow> string option) \<Rightarrow> 'r \<Rightarrow> 'r \<Rightarrow> bool" where
  "keeps_filled view st st' \<longleftrightarrow> (\<forall>slug. filled view st slug \<longrightarrow> filled view st' slug)"

lemma keeps_keeps_filled: "keeps view st st' \<Longrightarrow> keeps_filled view st st'"
  by (auto simp: keeps_filled_def filled_def dest: keepsD)

lemma keeps_filled_refl [simp]: "keeps_filled view st st"
  by (simp add: keeps_filled_def)

lemma keeps_filled_trans: "keeps_filled view st st1 \<Longrightarrow> keeps_filled view st1 st2 \<Longrightarrow> keeps_filled view st st2"
  by (simp add: keeps_filled_def)

lemma make_holds_filled:
  "make_holds J (filled view st) h \<Longrightarrow> keeps_filled view st st' \<Longrightarrow> make_holds J (filled view st') h"
  by (erule make_holds_mono) (simp add: keeps_filled_def)

lemma make_filled_step:
  assumes ok: "server_ok E view" and holds: "make_holds (me_json (se_make E)) (filled view st) h"
    and step: "make_step (se_make E) e (h, st) = Inr (h', st')"
  shows "make_holds (me_json (se_make E)) (filled view st') h'"
proof (rule make_holds_step[OF _ holds step])
  show "rocksdb_contract (se_db E) view" using ok by (simp add: server_ok_def)
  have "keeps view st st'" using make_step_view[OF _ _ _ step] ok by (simp add: server_ok_def)
  then have "keeps_filled view st st'" by (rule keeps_keeps_filled)
  then show "filled view st' slug" if "filled view st slug" for slug
    using that by (simp add: keeps_filled_def)
  show "filled view st' slug" if "asked (me_json (se_make E)) h url" "view st' slug = Some url" for slug url
    using that asked_nonempty by (auto simp: filled_def)
qed

interpretation filled: make_invariant E
  "\<lambda>st h. server_ok E view \<longrightarrow> make_holds (me_json (se_make E)) (filled view st) h"
  "\<lambda>st st'. server_ok E view \<longrightarrow> keeps_filled view st st'"
  for E :: "('j, 'net, 'r, 'ip) server_env" and view
proof unfold_locales
  fix e :: "'ip make_event" and h st h' st'
  assume step: "make_step (se_make E) e (h, st) = Inr (h', st')"
  then show "server_ok E view \<longrightarrow> keeps_filled view st st'"
    using make_step_view[OF _ _ _ step] by (auto simp: server_ok_def intro: keeps_keeps_filled)
next
  fix st h st'
  assume "server_ok E view \<longrightarrow> make_holds (me_json (se_make E)) (filled view st) h"
    "server_ok E view \<longrightarrow> keeps_filled view st st'"
  then show "server_ok E view \<longrightarrow> make_holds (me_json (se_make E)) (filled view st') h"
    by (intro impI) (rule make_holds_filled; simp)
next
  fix re :: "'ip redirect_event" and rd st rd' st'
  assume step: "redirect_step (se_db E) re (rd, st) = Inr (rd', st')"
  then show "server_ok E view \<longrightarrow> keeps_filled view st st'"
    using redirect_step_view[OF _ step] by (simp add: server_ok_def keeps_same keeps_keeps_filled)
qed (use make_filled_step in auto)

section \<open>One step of a search\<close>

text \<open>The slug that a running search may insert.\<close>

fun at_slug :: "shorten_thread \<Rightarrow> string option" where
  "at_slug (Search n slug) = Some slug"
| "at_slug (Insert slug) = Some slug"
| "at_slug (Returned slug) = None"
| "at_slug (Faulted f) = None"

definition slug_wf :: "string \<Rightarrow> bool" where
  "slug_wf slug \<longleftrightarrow> set slug \<subseteq> set alphabet \<and> length slug < 256"

lemma thread_step_filled:
  assumes contract: "rocksdb_contract R view" and healthy: "rocksdb_healthy R"
    and wf: "at_slug t = Some slug" "slug_wf slug" and url: "url \<noteq> []"
    and step: "thread_step R cfg url (t, st) = (t', st')"
  shows "keeps_filled view st st' \<and>
    (case t' of Returned slug' \<Rightarrow> slug' \<noteq> [] \<longrightarrow> slug_wf slug' \<and> filled view st' slug'
     | Faulted f \<Rightarrow> True
     | _ \<Rightarrow> \<exists>slug'. at_slug t' = Some slug' \<and> slug_wf slug')"
proof (cases t)
  case (Search n s)
  note store = url_store_db[OF contract]
  have view: "view st' = view st"
    using step Search url_store.get_view[OF store]
    by (auto simp: thread_step_def split: if_splits sum.splits option.splits prod.splits)
  have gen: "slug_wf slug'" if "generate_slug cfg s url (n + 1) = Inr (Some slug')" "n < 100" for slug'
    using generated_slug_wf[OF that(1) next_try_nonzero[OF that(2)]] by (simp add: slug_wf_def)
  show ?thesis
    using step Search wf url view gen url_store.get_found[OF store]
    by (auto simp: thread_step_def keeps_filled_def filled_def split: if_splits sum.splits option.splits prod.splits)
next
  case (Insert s)
  from insert_step[OF contract healthy, of cfg url s st] obtain st1
    where "thread_step R cfg url (Insert s, st) = (Returned s, st1)" "view st1 = (view st)(s \<mapsto> url)" .
  then show ?thesis using step Insert wf url by (auto simp: keeps_filled_def filled_def)
qed (use wf in simp_all)

section \<open>The invariant of the concurrent server\<close>

definition server_filled ::
  "('j, 'net, 'r, 'ip) server_env \<Rightarrow> ('r \<Rightarrow> string \<Rightarrow> string option) \<Rightarrow> ('ip, 'r) server \<Rightarrow> bool" where
  "server_filled E view sv \<longleftrightarrow>
     (\<forall>t \<in> set (sv_txns sv). \<forall>h. obj_of t = Obj_Make h \<longrightarrow>
        make_holds (me_json (se_make E)) (filled view (w_db (sv_world sv))) h)"

lemma server_filledD:
  "server_filled E view sv \<Longrightarrow> make_at sv k = Some h \<Longrightarrow>
   make_holds (me_json (se_make E)) (filled view (w_db (sv_world sv))) h"
  using nth_mem by (fastforce simp: server_filled_def make_at_Some)

lemma server_step_filled:
  assumes ok: "server_ok E view" and step: "server_step E ev sv = Inr sv'"
  shows "keeps_filled view (w_db (sv_world sv)) (w_db (sv_world sv'))"
    and "server_filled E view sv \<Longrightarrow> server_filled E view sv'"
  using filled.server_step_inv[OF step, of view] ok
  unfolding server_filled_def filled.server_inv_def filled.obj_inv_def by simp_all

lemma server_filled_set_db:
  "server_filled E view sv \<Longrightarrow> keeps_filled view (w_db (sv_world sv)) st \<Longrightarrow> server_filled E view (set_db st sv)"
  using make_holds_filled by (fastforce simp: server_filled_def)

lemma server_filled_end_search:
  assumes "server_filled E view sv" and "make_at sv k = Some h"
    and "slug \<noteq> [] \<longrightarrow> slug_wf slug \<and> filled view (w_db (sv_world sv)) slug"
  shows "server_filled E view (end_search k h slug sv)"
  unfolding server_filled_def
proof (intro ballI allI impI)
  let ?h = "h\<lparr>mk_chain := Chain_Evb (Inr slug)\<rparr>"
  fix t h' assume t: "t \<in> set (sv_txns (end_search k h slug sv))" "obj_of t = Obj_Make h'"
  have "make_holds (me_json (se_make E)) (filled view (w_db (sv_world sv))) ?h"
    using server_filledD[OF assms(1,2)] assms(3)
    by (auto simp: make_holds_def make_sound_def chain_sound_def holds_slug_def answered_def slug_wf_def)
  moreover from t consider "h' = ?h" | "t \<in> set (sv_txns sv)"
    using set_update_subset_insert[of "sv_txns sv" k, THEN subsetD] by (fastforce simp: end_search_def)
  ultimately show "make_holds (me_json (se_make E)) (filled view (w_db (sv_world (end_search k h slug sv)))) h'"
    by cases (use assms(1) t(2) in \<open>auto simp: server_filled_def\<close>)
qed

text \<open>A search has a URL, and may only insert it under a slug.\<close>

definition searches_wf :: "(nat \<rightharpoonup> string \<times> shorten_thread) \<Rightarrow> bool" where
  "searches_wf m \<longleftrightarrow>
     (\<forall>k url t. m k = Some (url, t) \<longrightarrow> url \<noteq> [] \<and> (\<exists>slug. at_slug t = Some slug \<and> slug_wf slug))"

lemma searches_wfD:
  assumes "searches_wf m" and "m k = Some (url, t)"
  obtains slug where "url \<noteq> []" "at_slug t = Some slug" "slug_wf slug"
  using assms unfolding searches_wf_def by blast

lemma searches_wf_upd:
  "searches_wf m \<Longrightarrow> url \<noteq> [] \<Longrightarrow> at_slug t = Some slug \<Longrightarrow> slug_wf slug \<Longrightarrow> searches_wf (m(k \<mapsto> (url, t)))"
  by (simp add: searches_wf_def)

lemma searches_wf_del: "searches_wf m \<Longrightarrow> searches_wf (m(k := None))"
  by (simp add: searches_wf_def)

lemma slug_wf_Nil [simp]: "slug_wf []"
  by (simp add: slug_wf_def)

definition fine_filled ::
  "('j, 'net, 'r, 'ip) server_env \<Rightarrow> ('r \<Rightarrow> string \<Rightarrow> string option) \<Rightarrow> ('ip, 'r) iserver \<Rightarrow> bool" where
  "fine_filled E view s \<longleftrightarrow> server_filled E view (is_server s) \<and> searches_wf (is_searches s)"

lemma event_filled:
  assumes ok: "server_ok E view" and inv: "fine_filled E view s" and step: "istep E (Event ev) s = Inr s'"
  shows "fine_filled E view s' \<and> keeps_filled view (is_db s) (is_db s')"
proof (cases "to_search (is_server s) ev")
  case None
  then obtain sv where "server_step E ev (is_server s) = Inr sv" "s' = s\<lparr>is_server := sv\<rparr>"
    using step by (auto simp: res_map_eq_Inr simp del: server_step.simps)
  then show ?thesis using server_step_filled[OF ok] inv by (simp add: fine_filled_def)
next
  case (Some khu)
  then obtain k h url where khu: "to_search (is_server s) ev = Some (k, h, url)" by (cases khu) auto
  then have "make_holds (me_json (se_make E)) (filled view (is_db s)) h" "mk_chain h = Chain_Cpu url (Inr True)"
    using server_filledD inv by (auto simp: to_search_Some fine_filled_def)
  then have "url \<noteq> []" by (auto simp: make_holds_def make_sound_def dest: asked_nonempty)
  then have "searches_wf ((is_searches s)(k \<mapsto> (url, new_thread)))"
    using inv searches_wf_upd[of "is_searches s" url new_thread "[]"] by (simp add: fine_filled_def new_thread_def)
  then show ?thesis using step khu inv by (auto simp: fine_filled_def split: if_splits)
qed

lemma search_filled:
  assumes ok: "server_ok E view" and healthy: "rocksdb_healthy (se_db E)"
    and inv: "fine_filled E view s" and step: "istep E (Search_Step k) s = Inr s'"
  shows "fine_filled E view s' \<and> keeps_filled view (is_db s) (is_db s')"
proof (cases "\<exists>url t h. is_searches s k = Some (url, t) \<and> make_at (is_server s) k = Some h")
  case True
  then obtain url t h where k: "is_searches s k = Some (url, t)" "make_at (is_server s) k = Some h" by blast
  obtain slug where wf: "at_slug t = Some slug" "slug_wf slug" "url \<noteq> []"
    using inv k(1) searches_wfD[of "is_searches s" k url t] unfolding fine_filled_def by blast
  obtain t' st where t: "thread_step (se_db E) (me_svc (se_make E)) url (t, is_db s) = (t', st)" by fastforce
  note f = thread_step_filled[OF _ healthy wf t, of view]
  have kept: "keeps_filled view (is_db s) st" using f ok by (simp add: server_ok_def)
  have db: "server_filled E view (set_db st (is_server s))"
    using inv by (intro server_filled_set_db[OF _ kept]) (simp add: fine_filled_def)
  show ?thesis
  proof (cases "\<exists>slug'. t' = Returned slug'")
    case True
    then obtain slug' where r: "t' = Returned slug'" and s': "s' = s\<lparr>is_server := end_search k h slug' (set_db st (is_server s)),
        is_searches := (is_searches s)(k := None)\<rparr>"
      using step k t by (auto simp: res_map_eq_Inr split: if_splits)
    have "server_filled E view (end_search k h slug' (set_db st (is_server s)))"
      by (rule server_filled_end_search[OF db]) (use k(2) f r ok in \<open>simp_all add: server_ok_def\<close>)
    then show ?thesis using s' kept inv by (simp add: fine_filled_def searches_wf_del)
  next
    case False
    then have "s' = s\<lparr>is_server := set_db st (is_server s), is_searches := (is_searches s)(k \<mapsto> (url, t'))\<rparr>"
      using step k t by (cases t') (auto split: if_splits)
    moreover obtain slug' where "at_slug t' = Some slug'" "slug_wf slug'"
      using f ok False step k t by (cases t') (auto simp: server_ok_def split: if_splits)
    then have "searches_wf ((is_searches s)(k \<mapsto> (url, t')))"
      using inv wf(3) searches_wf_upd by (simp add: fine_filled_def)
    ultimately show ?thesis using db kept by (simp add: fine_filled_def)
  qed
qed (use step inv in \<open>auto split: option.splits\<close>)

lemma run_filled:
  assumes "server_ok E view" and "rocksdb_healthy (se_db E)"
  shows "run (istep E) ies s = Inr s' \<Longrightarrow> fine_filled E view s \<Longrightarrow>
    fine_filled E view s' \<and> keeps_filled view (is_db s) (is_db s')"
proof (induction ies arbitrary: s)
  case (Cons e ies)
  then obtain s1 where s1: "istep E e s = Inr s1" "run (istep E) ies s1 = Inr s'"
    by (auto simp: res_bind_eq_Inr simp del: istep.simps)
  have first: "fine_filled E view s1 \<and> keeps_filled view (is_db s) (is_db s1)"
  proof (cases e)
    case (Event ev)
    then show ?thesis using event_filled[OF assms(1) Cons.prems(2)] s1(1) by blast
  next
    case (Search_Step k)
    then show ?thesis using search_filled[OF assms Cons.prems(2)] s1(1) by blast
  qed
  from Cons.IH[OF s1(2)] first have "fine_filled E view s'" "keeps_filled view (is_db s1) (is_db s')" by simp_all
  with first show ?case by (simp add: keeps_filled_trans[of view "is_db s" "is_db s1"])
qed simp

section \<open>A client's slug is never without a URL\<close>

lemma istep_redirect_stays:
  assumes step: "istep E e s = Inr s'" and "spares k e"
    and k: "k < length (sv_txns (is_server s))" "sv_txns (is_server s) ! k = Plain (Obj_Redirect r)"
  shows "k < length (sv_txns (is_server s')) \<and> sv_txns (is_server s') ! k = Plain (Obj_Redirect r)"
proof (cases e)
  case (Event ev)
  show ?thesis
  proof (cases "to_search (is_server s) ev")
    case None
    then obtain sv where sv: "server_step E ev (is_server s) = Inr sv" "s' = s\<lparr>is_server := sv\<rparr>"
      using step Event by (auto simp: res_map_eq_Inr simp del: server_step.simps)
    then show ?thesis using server_step_leaves[OF sv(1), of k] assms(2) Event k by simp
  qed (use step Event k in \<open>auto split: if_splits prod.splits\<close>)
next
  case (Search_Step j)
  then show ?thesis
    using step k
    by (auto simp: res_map_eq_Inr end_search_def make_at_Some nth_list_update
        split: option.splits if_splits prod.splits shorten_thread.splits)
qed

lemma run_redirect_stays:
  "run (istep E) ies s = Inr s' \<Longrightarrow> list_all (spares k) ies \<Longrightarrow> k < length (sv_txns (is_server s)) \<Longrightarrow>
   sv_txns (is_server s) ! k = Plain (Obj_Redirect r) \<Longrightarrow>
   k < length (sv_txns (is_server s')) \<and> sv_txns (is_server s') ! k = Plain (Obj_Redirect r)"
proof (induction ies arbitrary: s)
  case (Cons e ies)
  then obtain s1 where s1: "istep E e s = Inr s1" "run (istep E) ies s1 = Inr s'"
    by (auto simp: res_bind_eq_Inr simp del: istep.simps)
  show ?case using istep_redirect_stays[OF s1(1) _ Cons.prems(3,4)] Cons.IH[OF s1(2)] Cons.prems(2) by simp
qed simp

text \<open>Events that are no searches are those of the atomic server.\<close>

lemma istep_event:
  assumes "server_step E ev (is_server s) = Inr sv" and "to_search (is_server s) ev = None"
  shows "istep E (Event ev) s = Inr (s\<lparr>is_server := sv\<rparr>)"
  using assms by (simp del: server_step.simps)

lemma start_filled: "fine_filled E view (idle (start_server E now db))"
  by (simp add: fine_filled_def idle_def server_filled_def searches_wf_def start_server_def)

lemma answered_filled:
  assumes "fine_filled E view s" and "make_at (is_server s) k = Some h" and "answered h slug"
  shows "slug \<noteq> [] \<and> set slug \<subseteq> set alphabet \<and> length slug < 256 \<and> filled view (is_db s) slug"
proof -
  have "make_holds (me_json (se_make E)) (filled view (is_db s)) h"
    using assms(1) server_filledD[OF _ assms(2), of E view] by (simp add: fine_filled_def)
  moreover have "holds_slug h slug" using assms(3) by (simp add: holds_slug_def)
  ultimately show ?thesis by (simp add: make_holds_def)
qed

text \<open>
  Lookup and reply of the redirect, when the database has the slug's URL: the lookup runs, and
  whatever happens before the reply, the reply sends the URL that was found.
\<close>

lemma redirect_answered:
  assumes contract: "rocksdb_contract (se_db E) view" and healthy: "rocksdb_healthy (se_db E)"
    and url: "view (is_db s3) slug = Some url" "url \<noteq> []"
    and at: "n < length (sv_txns (is_server s3))"
      "sv_txns (is_server s3) ! n = Plain (Obj_Redirect (asked_redirect slug))"
  shows "\<exists>s4. istep E (Event (At n Url_Lookup)) s3 = Inr s4 \<and>
    (\<forall>ies3 s5. run (istep E) ies3 s4 = Inr s5 \<and> list_all (spares n) ies3 \<longrightarrow>
       (\<exists>s6 r. istep E (Event (At n Url_Reply)) s5 = Inr s6 \<and> sv_txns (is_server s6) ! n = Plain (Obj_Redirect r) \<and>
          rd_out r = [Send_With_EOM 301 ''Moved Permanently'' [(''Location'', url)] '''']))"
proof -
  obtain sv4 where sv4: "server_step E (At n Url_Lookup) (is_server s3) = Inr sv4" "n < length (sv_txns sv4)"
    "sv_txns sv4 ! n = Plain (Obj_Redirect (found_redirect slug url))"
    using lookup_slug[OF contract healthy url(1)] at by blast
  let ?s4 = "s3\<lparr>is_server := sv4\<rparr>"
  have 4: "istep E (Event (At n Url_Lookup)) s3 = Inr ?s4"
    by (rule istep_event[OF sv4(1)]) (simp add: to_search_def)
  have "\<exists>s6 r. istep E (Event (At n Url_Reply)) s5 = Inr s6 \<and> sv_txns (is_server s6) ! n = Plain (Obj_Redirect r) \<and>
      rd_out r = [Send_With_EOM 301 ''Moved Permanently'' [(''Location'', url)] '''']"
    if r3: "run (istep E) ies3 ?s4 = Inr s5" "list_all (spares n) ies3" for ies3 s5
  proof -
    have "n < length (sv_txns (is_server s5)) \<and> sv_txns (is_server s5) ! n = Plain (Obj_Redirect (found_redirect slug url))"
      by (rule run_redirect_stays[OF r3]) (use sv4(2,3) in simp_all)
    then obtain sv6 r where "server_step E (At n Url_Reply) (is_server s5) = Inr sv6"
      "sv_txns sv6 ! n = Plain (Obj_Redirect r)"
      "rd_out r = [Send_With_EOM 301 ''Moved Permanently'' [(''Location'', url)] '''']"
      using reply_slug by blast
    then show ?thesis using istep_event[of E "At n Url_Reply" s5 sv6]
      by (fastforce simp: to_search_def simp del: istep.simps server_step.simps)
  qed
  with 4 show ?thesis by blast
qed

text \<open>
  C2  However searches interleave, a slug that a client has been given always leads somewhere: in
  every run of the concurrent server, once a handler has answered 200 with a slug, a later GET for it
  is routed to the redirect handler, whose lookup and reply cannot fail, and it is answered once, with
  301 and the URL that is stored under the slug when the lookup runs, never with 404.  (The database
  answers and its contract holds, slugs have at least three characters over 2 to 58 symbols, and no frontend
  file has the slug as its name.  If another search has met it, the URL can be that of another client.)
\<close>

theorem interleaved_slug_always_redirects:
  assumes ok: "server_ok E view" and healthy: "rocksdb_healthy (se_db E)"
    and run: "run (istep E) ies (idle (start_server E now db)) = Inr s"
    and answered: "make_at (is_server s) k = Some h" "answered h slug"
    and later: "run (istep E) ies1 s = Inr s1" and get: "slug_get E slug msg"
  shows "\<exists>s2. istep E (Event (Accept clock msg)) s1 = Inr s2 \<and>
    (\<forall>ies2 s3. run (istep E) ies2 s2 = Inr s3 \<and> list_all (spares (length (sv_txns (is_server s1)))) ies2 \<longrightarrow>
       (\<exists>url s4. view (is_db s3) slug = Some url \<and> url \<noteq> [] \<and>
          istep E (Event (At (length (sv_txns (is_server s1))) Url_Lookup)) s3 = Inr s4 \<and>
          (\<forall>ies3 s5. run (istep E) ies3 s4 = Inr s5 \<and> list_all (spares (length (sv_txns (is_server s1)))) ies3 \<longrightarrow>
             (\<exists>s6 r. istep E (Event (At (length (sv_txns (is_server s1))) Url_Reply)) s5 = Inr s6 \<and>
                sv_txns (is_server s6) ! length (sv_txns (is_server s1)) = Plain (Obj_Redirect r) \<and>
                rd_out r = [Send_With_EOM 301 ''Moved Permanently'' [(''Location'', url)] '''']))))"
proof -
  let ?n = "length (sv_txns (is_server s1))"
  have contract: "rocksdb_contract (se_db E) view" using ok by (simp add: server_ok_def)
  have inv: "fine_filled E view s" using run_filled[OF ok healthy run start_filled] by simp
  note slug = answered_filled[OF inv answered]
  let ?sv2 = "(is_server s1)\<lparr>sv_txns := sv_txns (is_server s1) @ [Plain (Obj_Redirect (asked_redirect slug))]\<rparr>"
  let ?s2 = "s1\<lparr>is_server := ?sv2\<rparr>"
  have 2: "istep E (Event (Accept clock msg)) s1 = Inr ?s2"
    by (rule istep_event) (use accept_slug[OF get] slug in \<open>simp_all add: to_search_def\<close>)
  have "\<exists>url s4. view (is_db s3) slug = Some url \<and> url \<noteq> [] \<and> istep E (Event (At ?n Url_Lookup)) s3 = Inr s4 \<and>
      (\<forall>ies3 s5. run (istep E) ies3 s4 = Inr s5 \<and> list_all (spares ?n) ies3 \<longrightarrow>
         (\<exists>s6 r. istep E (Event (At ?n Url_Reply)) s5 = Inr s6 \<and> sv_txns (is_server s6) ! ?n = Plain (Obj_Redirect r) \<and>
            rd_out r = [Send_With_EOM 301 ''Moved Permanently'' [(''Location'', url)] '''']))"
    if r2: "run (istep E) ies2 ?s2 = Inr s3" "list_all (spares ?n) ies2" for ies2 s3
  proof -
    have "run (istep E) (ies1 @ [Event (Accept clock msg)] @ ies2) s = Inr s3"
      using later 2 r2(1) by (simp add: run_append del: istep.simps)
    then have "keeps_filled view (is_db s) (is_db s3)" using run_filled[OF ok healthy _ inv] by blast
    then obtain url where url: "view (is_db s3) slug = Some url" "url \<noteq> []"
      using slug by (auto simp: keeps_filled_def filled_def)
    have n: "?n < length (sv_txns (is_server s3)) \<and> sv_txns (is_server s3) ! ?n = Plain (Obj_Redirect (asked_redirect slug))"
      by (rule run_redirect_stays[OF r2]) simp_all
    from redirect_answered[OF contract healthy url conjunct1[OF n] conjunct2[OF n]] url show ?thesis by blast
  qed
  with 2 show ?thesis by blast
qed

theorem interleaved_slug_always_redirects_witness:
  "\<exists>ies s h s2. run (istep sample_server_env) ies (idle sample_start) = Inr s \<and> make_at (is_server s) 0 = Some h \<and>
     answered h (slug_at (default_svc test_key) test_url 1) \<and>
     istep sample_server_env
       (Event (Accept (1, 1, 1) (get_request (CHR ''/'' # slug_at (default_svc test_key) test_url 1)))) s = Inr s2"
proof -
  let ?slug = "slug_at (default_svc test_key) test_url 1"
  obtain es sv h where sv: "run (server_step sample_server_env) es sample_start = Inr sv"
    "sv_txns sv = [Plain (Obj_Make h)]" "answered h ?slug"
    using sample_create_run by blast
  obtain ies where ies: "run (istep sample_server_env) ies (idle sample_start) = Inr (idle sv)"
    using atomic.run_refined[OF sv(1)] by blast
  have at: "make_at (is_server (idle sv)) 0 = Some h" using sv(2) by (simp add: make_at_def idle_def)
  have nil: "run (istep sample_server_env) [] (idle sv) = Inr (idle sv)" by simp
  have get: "slug_get sample_server_env ?slug (get_request (CHR ''/'' # ?slug))"
    by (simp add: slug_get_def get_request_def)
  have "rocksdb_healthy (se_db sample_server_env)" by (simp add: mem_healthy)
  from interleaved_slug_always_redirects[OF sample_server_ok this ies at sv(3) nil get, of "(1, 1, 1)"] ies at sv(3)
  show ?thesis by blast
qed

end
