(* ===== verification/Rate_History.thy ===== *)
theory Rate_History
  imports Interleaved_Slugs
begin

text \<open>
  What the rate limiter decides in a run of the whole server.  The counters of
  \<^verbatim>\<open>url_shortener/ddos_protection.cc\<close> belong to the factory, every transaction goes past them once,
  and the verdict on a request is a function of the requests that arrived before it: nothing the
  handlers, the searches or the captcha service do has a part in it.
\<close>

section \<open>The accesses of a run\<close>

definition counted_ip :: "('j, 'net, 'r, 'ip) server_env \<Rightarrow> 'ip http_message \<Rightarrow> 'ip option" where
  "counted_ip E msg =
     (if is_protected msg then resolve_client_ip (se_inSubnet E) (se_tryFromString E) (se_config E) msg else None)"

fun accesses :: "('j, 'net, 'r, 'ip) server_env \<Rightarrow> 'ip ievent \<Rightarrow> ((int \<times> int \<times> int) \<times> 'ip) list" where
  "accesses E (Event (Accept clock msg)) = (case counted_ip E msg of None \<Rightarrow> [] | Some ip \<Rightarrow> [(clock, ip)])"
| "accesses E (Event (At k ev)) = []"
| "accesses E (Search_Step k) = []"

definition access_history ::
  "('j, 'net, 'r, 'ip) server_env \<Rightarrow> 'ip ievent list \<Rightarrow> ((int \<times> int \<times> int) \<times> 'ip) list" where
  "access_history E ies = concat (map (accesses E) ies)"

lemma access_history_simps [simp]:
  "access_history E [] = []" "access_history E (ie # ies) = accesses E ie @ access_history E ies"
  "access_history E (ies @ ies') = access_history E ies @ access_history E ies'"
  by (simp_all add: access_history_def)

lemma log_all_append: "log_all (hist @ hist') svc = log_all hist' (log_all hist svc)"
  by (simp add: log_all_def)

lemma log_all_simps [simp]:
  "log_all [] svc = svc" "log_all [(clock, ip)] svc = log_access clock ip svc"
  by (simp_all add: log_all_def)

section \<open>One request\<close>

text \<open>The chain of factories on live counters: what is counted, and what becomes of the request.\<close>

definition limited_now :: "('j, 'net, 'r, 'ip) server_env \<Rightarrow> 'ip http_message \<Rightarrow> 'ip IPAccessCountService \<Rightarrow> bool" where
  "limited_now E msg svc \<longleftrightarrow>
     is_protected msg \<and>
     (case counted_ip E msg of None \<Rightarrow> True
      | Some ip \<Rightarrow> rate_limit_per_minute (se_config E) < hits_per_minute svc ip)"

lemma aap_onRequest_live:
  "aap_onRequest (se_inSubnet E) (se_tryFromString E) (se_config E) clock msg (Live_Svc svc) =
   (let svc' = log_all (accesses E (Event (Accept clock msg))) svc
    in Inr (if limited_now E msg svc' then Limited else Pass, Live_Svc svc'))"
  by (auto simp: aap_onRequest_def protect_def limited_now_def counted_ip_def Let_def split: option.split)

text \<open>A transaction has been limited when the client has been answered 429 and the upstream dropped.\<close>

definition turned_away :: "txn \<Rightarrow> bool" where
  "turned_away t \<longleftrightarrow>
     (\<exists>f. t = Filtered f \<and> rl_out f = [Send_With_EOM 429 ''Too Many Requests'' [] ''''] \<and> \<not> rl_upstream f)"

definition passed_on :: "txn \<Rightarrow> bool" where
  "passed_on t \<longleftrightarrow> (\<exists>ob. t = Plain ob)"

lemma accept_limits:
  assumes "server_step E (Accept clock msg) s = Inr s'" and "sv_counts s = Live_Svc svc"
  shows "\<exists>t. sv_txns s' = sv_txns s @ [t] \<and>
      sv_counts s' = Live_Svc (log_all (accesses E (Event (Accept clock msg))) svc) \<and>
      (if limited_now E msg (log_all (accesses E (Event (Accept clock msg))) svc) then turned_away t else passed_on t)"
  using assms
  by (auto simp: server_onRequest_def aap_onRequest_live Let_def res_bind_eq_Inr res_map_eq_Inr turned_away_def
      passed_on_def rl_defs simp del: accesses.simps split: if_splits)

section \<open>The counters in a run\<close>

lemma istep_counts:
  assumes "istep E ie s = Inr s'" and "sv_counts (is_server s) = Live_Svc svc"
  shows "sv_counts (is_server s') = Live_Svc (log_all (accesses E ie) svc)"
proof (cases ie)
  case (Event ev)
  show ?thesis
  proof (cases ev)
    case (Accept clock msg)
    then obtain sv where "server_step E (Accept clock msg) (is_server s) = Inr sv" "s' = s\<lparr>is_server := sv\<rparr>"
      using assms(1) Event by (auto simp: to_search_def res_map_eq_Inr simp del: server_step.simps)
    then show ?thesis using accept_limits[OF _ assms(2)] Event Accept by fastforce
  next
    case (At k oe)
    then show ?thesis
      using assms Event by (auto simp: res_map_eq_Inr split: option.splits if_splits)
  qed
next
  case (Search_Step k)
  then show ?thesis
    using assms by (auto simp: end_search_def set_db_def res_map_eq_Inr split: option.splits if_splits shorten_thread.splits prod.splits)
qed

lemma run_counts:
  "run (istep E) ies s = Inr s' \<Longrightarrow> sv_counts (is_server s) = Live_Svc svc \<Longrightarrow>
   sv_counts (is_server s') = Live_Svc (log_all (access_history E ies) svc)"
proof (induction ies arbitrary: s svc)
  case (Cons ie ies)
  then obtain s1 where s1: "istep E ie s = Inr s1" "run (istep E) ies s1 = Inr s'"
    by (auto simp: res_bind_eq_Inr simp del: istep.simps)
  show ?case
    using Cons.IH[OF s1(2) istep_counts[OF s1(1) Cons.prems(2)]] by (simp add: log_all_append)
qed simp

text \<open>The window of a run that starts at \<open>now\<close>.\<close>

definition window_of :: "('j, 'net, 'r, 'ip) server_env \<Rightarrow> int \<Rightarrow> 'ip ievent list \<Rightarrow> 'ip rate_window" where
  "window_of E now ies =
     window_all (uint (ip_rate_limiter_seconds_ttl (se_config E))) (access_history E ies) (empty_window now)"

lemma started_counts_window:
  "counts_window (log_all (access_history E ies) (new_IPAccessCountService
       (uint (ip_rate_limiter_seconds_ttl (se_config E))) now)) (window_of E now ies)"
  unfolding window_of_def by (intro log_all_window counts_window_new) (simp add: new_IPAccessCountService_def)

lemma start_counts:
  "sv_counts (is_server (idle (start_server E now db))) =
   Live_Svc (new_IPAccessCountService (uint (ip_rate_limiter_seconds_ttl (se_config E))) now)"
  by (simp add: idle_def start_server_def aap_onServerStart_def)

text \<open>
  C7  Who is limited, in any run of the server.  Whatever the requests, the handlers, the searches
  and the captcha service have done since it was started, a new request is answered 429 by the
  filter exactly when it is protected and either its address cannot be resolved or the rate of
  that address exceeds the limit; every other request is handed to the handler the router has
  made.  The rate is a function of the history of accesses alone: the accesses of the address since
  the window was last recycled, this one included, modulo $2^{32}$, divided by the whole minutes of
  the window, at least 1; and it is 0, so that nobody with an address is limited, as long as less
  than a second of the window has passed and directly after a recycling.
\<close>

theorem server_rate_limit:
  assumes run: "run (istep E) ies (idle (start_server E now db)) = Inr s"
    and accept: "istep E (Event (Accept clock msg)) s = Inr s'"
  shows "\<exists>t. sv_txns (is_server s') = sv_txns (is_server s) @ [t] \<and>
    (if is_protected msg \<and>
        (case resolve_client_ip (se_inSubnet E) (se_tryFromString E) (se_config E) msg of
           None \<Rightarrow> True
         | Some ip \<Rightarrow> unat (rate_limit_per_minute (se_config E))
                        < window_rate (window_of E now (ies @ [Event (Accept clock msg)])) ip)
     then turned_away t else passed_on t)"
proof -
  let ?svc = "new_IPAccessCountService (uint (ip_rate_limiter_seconds_ttl (se_config E))) now"
  let ?ies = "ies @ [Event (Accept clock msg)]"
  have live: "sv_counts (is_server s) = Live_Svc (log_all (access_history E ies) ?svc)"
    by (rule run_counts[OF run start_counts])
  obtain sv where sv: "server_step E (Accept clock msg) (is_server s) = Inr sv" "s' = s\<lparr>is_server := sv\<rparr>"
    using accept by (auto simp: to_search_def res_map_eq_Inr simp del: server_step.simps)
  have "log_all (accesses E (Event (Accept clock msg))) (log_all (access_history E ies) ?svc) =
      log_all (access_history E ?ies) ?svc"
    by (simp add: log_all_append)
  moreover have "unat (hits_per_minute (log_all (access_history E ?ies) ?svc) ip) = window_rate (window_of E now ?ies) ip" for ip
    by (rule hits_per_minute_window[OF started_counts_window])
  ultimately have "limited_now E msg (log_all (accesses E (Event (Accept clock msg))) (log_all (access_history E ies) ?svc)) \<longleftrightarrow>
      is_protected msg \<and>
        (case resolve_client_ip (se_inSubnet E) (se_tryFromString E) (se_config E) msg of
           None \<Rightarrow> True
         | Some ip \<Rightarrow> unat (rate_limit_per_minute (se_config E)) < window_rate (window_of E now ?ies) ip)"
    by (auto simp: limited_now_def counted_ip_def word_less_nat_alt simp del: accesses.simps split: option.split)
  then show ?thesis using accept_limits[OF sv(1) live] sv(2) by auto
qed

text \<open>A server whose limit is one request per minute, and a request that no route takes.\<close>

definition strict_server_env :: "(nat, nat, string \<Rightarrow> string option, nat) server_env" where
  "strict_server_env =
     sample_server_env\<lparr>se_make := (sample_make_env True)\<lparr>me_config := initial_config\<lparr>rate_limit_per_minute := 1\<rparr>\<rparr>\<rparr>"

lemma accept_not_found:
  assumes "route E msg = Inr (Obj_Not_Found new_NotFoundHandler)" and "sv_counts (is_server s) = Live_Svc svc"
  shows "\<exists>s'. istep E (Event (Accept clock msg)) s = Inr s'"
  using assms
  by (simp add: to_search_def server_onRequest_def aap_onRequest_live Let_def rl_defs step_if_def not_found_step_def
      new_NotFoundHandler_def del: accesses.simps)

lemma strict_route: "route strict_server_env (plain_request DELETE ''/'' 1) = Inr (Obj_Not_Found new_NotFoundHandler)"
  by (simp add: strict_server_env_def route_def plain_request_def frontend_lookup_def starts_with_def
      parse_out_request_str_def)

theorem server_rate_limit_witness:
  "\<exists>s s' t. run (istep strict_server_env)
       [Event (Accept (2000000000, 2000000000, 2000000000) (plain_request DELETE ''/'' 1))]
       (idle (start_server strict_server_env 0 Map.empty)) = Inr s \<and>
     istep strict_server_env (Event (Accept (3000000000, 3000000000, 3000000000) (plain_request DELETE ''/'' 1))) s = Inr s' \<and>
     sv_txns (is_server s') = sv_txns (is_server s) @ [t] \<and> turned_away t"
proof -
  let ?msg = "plain_request DELETE ''/'' 1 :: nat http_message"
  let ?e1 = "Event (Accept (2000000000, 2000000000, 2000000000) ?msg)"
  let ?e2 = "Event (Accept (3000000000, 3000000000, 3000000000) ?msg)"
  let ?start = "idle (start_server strict_server_env 0 Map.empty)"
  obtain s where s: "istep strict_server_env ?e1 ?start = Inr s"
    using accept_not_found[OF strict_route start_counts] by blast
  then have run: "run (istep strict_server_env) [?e1] ?start = Inr s" by (simp del: istep.simps)
  obtain svc where "sv_counts (is_server s) = Live_Svc svc"
    using istep_counts[OF s start_counts] by blast
  then obtain s' where s': "istep strict_server_env ?e2 s = Inr s'" using accept_not_found[OF strict_route] by blast
  have ip: "resolve_client_ip (se_inSubnet strict_server_env) (se_tryFromString strict_server_env)
      (se_config strict_server_env) ?msg = Some 1" "is_protected ?msg"
    by (simp_all add: resolve_client_ip_def plain_request_def is_protected_def)
  have "window_rate (window_of strict_server_env 0 ([?e1] @ [?e2])) 1 = 2"
    using ip by (simp add: window_of_def counted_ip_def window_all_def window_log_def window_rate_def to_seconds_nonneg
        strict_server_env_def initial_config_def)
  moreover have "rate_limit_per_minute (se_config strict_server_env) = 1" by (simp add: strict_server_env_def)
  ultimately show ?thesis using server_rate_limit[OF run s'] run s' ip by force
qed

end
