(* ===== verification/Spec2Isabelle.thy ===== *)
theory Spec2Isabelle
  imports Hash_Vectors Hash_Bounds Startup Rate_History
begin

text \<open>
  \<^bold>\<open>A verification development for prv.ec, a URL shortening service in C++.\<close>

  \<^bold>\<open>The program.\<close>  One process serves HTTP on two ports.  A chain of factories makes a handler for
  every request: \<open>AntiAbuseProtection\<close> (\<^verbatim>\<open>url_shortener/ddos_protection.cc\<close>) counts the requests
  of an address and puts a \<open>RateLimitFilter\<close> in front of the handler when there are too many;
  \<open>MyRequestHandlerFactory\<close> (\<^verbatim>\<open>url_shortener/web_server.cc\<close>) routes the request to the files of
  the frontend, to \<open>StaticHandler\<close>, to \<open>MakeUrlRequestHandler\<close>, to \<open>UrlRedirectHandler\<close> or to a 404.
  \<open>MakeUrlRequestHandler\<close> asks a captcha service about the client, then \<open>do_shorten_url\<close> looks
  for a slug among the base-58 digits of a keyed hash of the URL and stores the pair in RocksDB
  (\<^verbatim>\<open>url_shortener/db.cc\<close>); \<open>UrlRedirectHandler\<close> looks a slug up and redirects to its URL.
  Handlers delete themselves, and their work on other threads comes back as closures on the
  event base, so that most of what can go wrong is a matter of order.

  \<^bold>\<open>Theories and code\<close>, each over those above it.
    \<^item> \<open>Prelude\<close>: machine integers, the outcomes \<open>Undefined\<close>, \<open>Throws\<close>, \<open>Aborts\<close> of a C++ call and the
      operations on results, digits of a number.
    \<^item> \<open>Cpp_Std\<close>: the string searches, \<open>atoi\<close> and \<open>std::filesystem::path\<close> operations that the code uses.
    \<^item> \<open>Highway_Hash\<close>: the portable HighwayHash under third_party; \<open>Hash_Vectors\<close> validates the model, by
      evaluating it on four of the vectors of the library's own tests; \<open>Hash_Streaming\<close>: its class for
      data that comes in pieces; \<open>Hash_Bounds\<close>: that no byte behind the data has a part in a hash, and that
      padding loses nothing.
    \<^item> \<open>Url_Shortening\<close>: url_shortening.cc: request paths, the hexadecimal key, slugs.
    \<^item> \<open>Url_Database\<close>: db.cc, with the contract of RocksDB and the interface \<open>url_store\<close>.
    \<^item> \<open>Shorten\<close>: \<open>do_shorten_url\<close> of make_url_request_handler.cc as a function;
      \<open>Concurrent_Shorten\<close>: the same function as steps of threads that interleave.
    \<^item> \<open>App_Config\<close>: app_config.cc, both loaders and the deleter.
    \<^item> \<open>Mime_Type\<close>: the directory mime_type.
    \<^item> \<open>Http\<close>: what is used of proxygen: messages, callbacks and their order, responses, runs of a state
      machine, and the interface \<open>handler\<close>.
    \<^item> \<open>Frontend_Handler\<close>, \<open>Static_Handler\<close>, \<open>Redirect_Handler\<close>, \<open>Make_Url_Handler\<close>,
      \<open>Ddos_Protection\<close>: the files of the same names (\<open>Redirect_Handler\<close> is url_shortener_handler.cc),
      each a record of the object's members, one definition for each member function, and a step
      function over the events that can reach the object.
    \<^item> \<open>Web_Server\<close>: the factory of web_server.cc and the running server; \<open>Server_Invariant\<close>: what each of its
      steps keeps; \<open>Server_Properties\<close>: what holds of its runs.
    \<^item> \<open>Interleaved_Server\<close>: the same server with its searches taken apart into the steps of
      \<open>Concurrent_Shorten\<close>, which interleave with all other events; \<open>Interleaved_Properties\<close>: what holds of it;
      \<open>Interleaved_Slugs\<close>: that a slug it gave out always redirects; \<open>Rate_History\<close>: whom it limits.
    \<^item> \<open>Startup\<close>: \<open>main\<close> up to \<open>server.start()\<close>, and its end.

  Definitions keep the names of the C++ functions and members, with a prefix where two classes
  use the same name (\<open>sh_\<close>, \<open>rd_\<close>, \<open>mk_\<close>, \<open>fh_\<close>, \<open>nf_\<close>, \<open>rl_\<close>, \<open>aap_\<close>).  A \<open>std::string\<close> is
  a list of 8-bit characters, an integer has its width, a map is a function to options or a list where
  order matters.  A queue of closures is a list or a counter in the record of the object they capture.
\<close>

text \<open>
  \<^bold>\<open>What the lemmas show.\<close>
    \<^item> Slugs.  \<open>generate_slug\<close> yields consecutive blocks of one stream of digits of the hash, on every input
      on which it is defined, and reads past the hash otherwise; its slugs are parsed back from the
      path of a request; the recognisers of paths accept exactly the strings they describe.
    \<^item> Storage.  Under the contract of RocksDB, a slug that \<open>do_shorten_url\<close> returns is stored with its
      URL, other entries stay, shortening again gives the same slug, different URLs get different slugs.
      These hold when searches do not overlap.  When they do, searches without a common slug behave as
      if each ran alone; every search ends within 101 steps, whatever the others do, and it has returned,
      without a fault, if one of its slugs is never taken by another URL.
    \<^item> Configuration.  The environment is accepted exactly when every variable is well-formed, in terms of the
      variables, the file system and what \<open>stoull\<close> and \<open>atoi\<close> read; the YAML loader lacks these checks.
    \<^item> Rate limiting.  The counter implementation refines the history of the window, and in any run of the
      server a request is answered 429 exactly when that history says so.  The rate that is held against the
      limit is the average over the window in whole minutes, not the count of a minute, and it is 0 in the
      first second; a peer that is not trusted cannot choose the address it is counted under.
    \<^item> Handlers.  Static requests stay under the document root; the streamed body is the file as long as one
      reader runs at a time, and the stream ends under every fair schedule; without flow control there is never more
      than one reader, and the handler is not used after its deletion; with it there can be two, which scramble
      the file.  A short URL is created exactly through a confirmed captcha; every message of a client and
      every answer of the captcha service has its outcome.
    \<^item> The server.  Routing is a table; no event changes an entry that is stored; what is stored was confirmed;
      a slug that a client was given redirects to its URL in every continuation; a transaction is
      answered at most once; a limited request reaches nothing.
    \<^item> Overlapping requests.  The interleaved server can do all that the atomic one does; in it too an entry stays,
      unless a search that found its slug free is still running; two such searches lose a URL, yet a
      slug that a client was given always redirects to some URL, through any interleaving; a confirmed
      request is answered once its search has had its steps, and only confirmed requests store anything.
    \<^item> The hash.  Hashing in pieces is hashing at once, a hash does not depend on any byte behind its data, and
      the padded last packet determines the bytes it was made from.
    \<^item> The process.  A server that starts from the environment has what these properties assume, and leaves
      \<open>main\<close> through undefined behaviour.
    \<^item> Faults.  Where the code reads past an array, uses a deleted object or lets an exception out of a
      \<open>noexcept\<close> function, the model has the value for it and a theorem says when it is reached.

  The interfaces are locales: \<open>url_store\<close> and \<open>healthy_url_store\<close> (what the search asks of the database;
  \<open>rocksdb_store\<close> and \<open>healthy_rocksdb_store\<close> give them for \<open>db_get\<close> and \<open>db_put\<close>), \<open>growing_cache\<close> (the cache of
  static files), \<open>packet_state\<close> (what the streaming hash asks of a state class), \<open>make_invariant\<close> (a property of
  each create request that every event of the server keeps, interpreted for three of them), \<open>handler\<close> (an invariant of the steps and a weight that only a request
  raises, interpreted for every handler, for the routed object and for both servers) and \<open>step_refinement\<close> (each
  step of one machine is a run of another).

  \<^bold>\<open>Bounds.\<close>  No definition has fuel.  The search compares an 8-bit counter with 100, so that it
  makes 99 tries and a thread returns after at most 101 steps; reads of a file are at most 4000 bytes; paths
  of static files at most 1000 characters; a slug has at most 255 characters; the hash has four words.
  Loops over a string recurse on it, loops that count have their measure.  A run of a state machine
  is a finite list of events, any list; the first fault ends it.

  \<^bold>\<open>Parameters\<close>, with what is relied on as hypotheses: RocksDB (\<open>rocksdb_contract\<close>: a read
  does not change entries, a write without an error stores its entry, a write changes no other entry;
  \<open>rocksdb_healthy\<close>: no call fails), folly's JSON, addresses and networks, the clock, the
  file system, the environment and the YAML document, name resolution, certificates, percent-encoding.
  Witnesses instantiate each with a concrete function.

  \<^bold>\<open>Assumptions.\<close>  The build is Release (\<open>assert\<close> and \<open>DLOG\<close> are compiled out) on a little-endian
  machine.  proxygen calls a handler in the order of \<open>follows_protocol\<close> where a theorem says so, and the
  factories in the reverse of the order they are listed.  The downstream object outlives the
  handler.  A reader of a static file tests its loop, reads, resets the file and posts a closure in steps of
  their own, each of which is atomic; so is one call of the database, and, in \<open>Web_Server\<close> alone, one
  whole search (\<open>Interleaved_Server\<close> takes it apart).  The server has one event base and
  one of each of the objects that the code keeps by thread or shares between threads.

  \<^bold>\<open>Not modelled.\<close>  proxygen, folly and RocksDB themselves: they are not in the repository.  The SIMD
  variants of the hash and their dispatch: the library promises the portable result.  Logging, which
  changes no state, and includes, declarations and destructors without a body.  Races of several server threads
  on the counters of the rate limiter, which are not locked.  The frontend application (TypeScript), build files,
  tests and documents: they do not run in the server.
\<close>

end
